(* ===== verification/Prelude.thy ===== *)
theory Prelude
  imports Main "HOL-Library.Word"
begin

text \<open>
  Shared vocabulary of the development: the C integer types of
  \<^verbatim>\<open>student-distrib/types.h\<close> as words, the flat byte memory the C code addresses
  through pointers, little-endian loads and stores, runs of bytes, and the generic
  lemmas on words and memories the component theories use.
\<close>

unbundle bit_operations_syntax

named_theorems mem_simps \<open>reading a memory after a store\<close>
named_theorems io_simps \<open>effect of the port primitives on the machine state\<close>
named_theorems frame_simps \<open>parts of the state an operation leaves alone\<close>

section \<open>Integer types and memory\<close>

type_synonym u8 = "8 word"
type_synonym u16 = "16 word"
type_synonym u32 = "32 word"
type_synonym i32 = "32 word"

text \<open>A memory maps every 32-bit linear address to a byte; address arithmetic wraps.\<close>

type_synonym mem = "u32 \<Rightarrow> u8"

text \<open>A C pointer to bytes that are only read: the byte at each offset.\<close>

type_synonym bytes = "nat \<Rightarrow> u8"

definition ptr :: "mem \<Rightarrow> u32 \<Rightarrow> bytes" where
  "ptr m a = (\<lambda>i. m (a + of_nat i))"

text \<open>A string literal: its characters, then the terminating NUL.\<close>

definition lit :: "string \<Rightarrow> bytes" where
  "lit cs = (\<lambda>i. if i < length cs then of_nat (of_char (cs ! i)) else 0)"

abbreviation (input) FAILURE :: i32 where "FAILURE \<equiv> - 1"
abbreviation (input) SUCCESS :: i32 where "SUCCESS \<equiv> 0"

lemma mask8_u32: "(0xFF :: u32) = mask 8"
  by (simp add: mask_eq_exp_minus_1)

lemma mask16_u32: "(0xFFFF :: u32) = mask 16"
  by (simp add: mask_eq_exp_minus_1)

lemma ucast_u8_u32 [simp]: "ucast (ucast (x :: u8) :: u32) = x"
  by (rule bit_word_eqI) (auto simp: bit_simps)

lemma unat_nonneg_sint: "0 \<le> sint (x :: i32) \<Longrightarrow> unat x = nat (sint x)"
proof -
  assume "0 \<le> sint x"
  moreover have "sint x < 2 ^ 31" using sint_lt [of x] by simp
  ultimately have "uint x = sint x" by (simp add: uint_sint take_bit_int_eq_self)
  then show ?thesis by (simp add: unat_eq_nat_uint)
qed

section \<open>Runs of bytes\<close>

definition load_bytes :: "mem \<Rightarrow> u32 \<Rightarrow> nat \<Rightarrow> u8 list" where
  "load_bytes m a n = map (\<lambda>i. m (a + of_nat i)) [0..<n]"

fun store_bytes :: "mem \<Rightarrow> u32 \<Rightarrow> u8 list \<Rightarrow> mem" where
  "store_bytes m a [] = m"
| "store_bytes m a (b # bs) = store_bytes (m(a := b)) (a + 1) bs"

definition load32 :: "mem \<Rightarrow> u32 \<Rightarrow> u32" where
  "load32 m a = ucast (m a) OR push_bit 8 (ucast (m (a + 1)))
     OR push_bit 16 (ucast (m (a + 2))) OR push_bit 24 (ucast (m (a + 3)))"

definition store32 :: "mem \<Rightarrow> u32 \<Rightarrow> u32 \<Rightarrow> mem" where
  "store32 m a v = m(a := ucast v, a + 1 := ucast (drop_bit 8 v),
     a + 2 := ucast (drop_bit 16 v), a + 3 := ucast (drop_bit 24 v))"

lemma length_load_bytes [simp]: "length (load_bytes m a n) = n"
  by (simp add: load_bytes_def)

lemma load_bytes_0 [simp]: "load_bytes m a 0 = []"
  by (simp add: load_bytes_def)

lemma nth_load_bytes [simp]: "i < n \<Longrightarrow> load_bytes m a n ! i = m (a + of_nat i)"
  by (simp add: load_bytes_def)

lemma load_bytes_Suc: "load_bytes m a (Suc n) = m a # load_bytes m (a + 1) n"
  by (rule nth_equalityI) (auto simp: nth_Cons' ac_simps of_nat_diff)

lemma load_bytes_add: "load_bytes m a (k + l) = load_bytes m a k @ load_bytes m (a + of_nat k) l"
  by (rule nth_equalityI) (auto simp: nth_append ac_simps of_nat_diff)

lemma store_bytes_append:
  "store_bytes m a (xs @ ys) = store_bytes (store_bytes m a xs) (a + of_nat (length xs)) ys"
  by (induction xs arbitrary: m a) (simp_all add: ac_simps)

lemma store_bytes_outside [mem_simps]:
  "(\<And>i. i < length bs \<Longrightarrow> x \<noteq> a + of_nat i) \<Longrightarrow> store_bytes m a bs x = m x"
proof (induction bs arbitrary: m a)
  case (Cons b bs)
  have "x \<noteq> a" using Cons.prems [of 0] by simp
  moreover have "store_bytes (m(a := b)) (a + 1) bs x = (m(a := b)) x"
    by (rule Cons.IH) (use Cons.prems [of "Suc i" for i] in \<open>auto simp: ac_simps\<close>)
  ultimately show ?case by simp
qed simp

lemma of_nat_u32_inj:
  assumes "i < 2 ^ 32" and "j < 2 ^ 32"
  shows "(of_nat i :: u32) = of_nat j \<longleftrightarrow> i = j"
  using assms by (simp add: word_of_nat_eq_iff take_bit_nat_eq_self)

lemma store_bytes_inside [mem_simps]:
  assumes "i < length bs" and "length bs \<le> 2 ^ 32"
  shows "store_bytes m a bs (a + of_nat i) = bs ! i"
proof -
  have split: "bs = take i bs @ bs ! i # drop (Suc i) bs"
    using assms(1) by (simp add: id_take_nth_drop)
  let ?m = "(store_bytes m a (take i bs))(a + of_nat i := bs ! i)"
  have "store_bytes m a bs (a + of_nat i) =
      store_bytes ?m (a + of_nat i + 1) (drop (Suc i) bs) (a + of_nat i)"
    using assms(1) by (subst split) (simp add: store_bytes_append min_absorb2)
  also have "\<dots> = ?m (a + of_nat i)"
  proof (rule store_bytes_outside)
    fix j assume j: "j < length (drop (Suc i) bs)"
    have "(of_nat (Suc j) :: u32) \<noteq> of_nat 0"
      using j assms by (subst of_nat_u32_inj) auto
    then show "a + of_nat i \<noteq> a + of_nat i + 1 + of_nat j" by (simp add: ac_simps)
  qed
  finally show ?thesis by simp
qed

text \<open>Two runs of bytes share no address.\<close>

definition disjoint_runs :: "u32 \<Rightarrow> nat \<Rightarrow> u32 \<Rightarrow> nat \<Rightarrow> bool" where
  "disjoint_runs a n b k \<longleftrightarrow> (\<forall>i < n. \<forall>j < k. a + of_nat i \<noteq> b + of_nat j)"

lemma disjoint_runsD: "disjoint_runs a n b k \<Longrightarrow> i < n \<Longrightarrow> j < k \<Longrightarrow> a + of_nat i \<noteq> b + of_nat j"
  by (simp add: disjoint_runs_def)

lemma disjoint_runs_sym: "disjoint_runs a n b k \<Longrightarrow> disjoint_runs b k a n"
  unfolding disjoint_runs_def by metis

lemma disjoint_runs_shift:
  assumes "disjoint_runs a n b k" and "i + n' \<le> n" and "j + k' \<le> k"
  shows "disjoint_runs (a + of_nat i) n' (b + of_nat j) k'"
  unfolding disjoint_runs_def
proof (intro allI impI)
  fix x y assume "x < n'" "y < k'"
  then have "a + of_nat (i + x) \<noteq> b + of_nat (j + y)"
    using assms by (intro disjoint_runsD) auto
  then show "a + of_nat i + of_nat x \<noteq> b + of_nat j + of_nat y"
    by (simp add: ac_simps)
qed

lemma load_store_bytes_disjoint:
  assumes "disjoint_runs a (length bs) b k"
  shows "load_bytes (store_bytes m a bs) b k = load_bytes m b k"
proof (rule nth_equalityI)
  fix i assume "i < length (load_bytes (store_bytes m a bs) b k)"
  then have "i < k" by simp
  then have "b + of_nat i \<noteq> a + of_nat j" if "j < length bs" for j
    using disjoint_runsD [OF assms that \<open>i < k\<close>] by simp
  then show "load_bytes (store_bytes m a bs) b k ! i = load_bytes m b k ! i"
    using \<open>i < k\<close> by (simp add: store_bytes_outside)
qed simp

lemma load_store_bytes_same:
  "length bs \<le> 2 ^ 32 \<Longrightarrow> load_bytes (store_bytes m a bs) a (length bs) = bs"
  by (intro nth_equalityI) (auto simp: store_bytes_inside)

text \<open>
  The reference copy: the bytes of the source run, read before anything is written, stored
  at the destination run. Copying in two pieces is copying once when the runs are disjoint.
\<close>

definition copy_bytes :: "mem \<Rightarrow> u32 \<Rightarrow> u32 \<Rightarrow> nat \<Rightarrow> mem" where
  "copy_bytes m d s n = store_bytes m d (load_bytes m s n)"

lemma copy_bytes_0 [simp]: "copy_bytes m d s 0 = m"
  by (simp add: copy_bytes_def)

lemma copy_bytes_1: "copy_bytes m d s (Suc 0) = m(d := m s)"
  by (simp add: copy_bytes_def load_bytes_Suc)

lemma copy_bytes_add:
  assumes "disjoint_runs d k (s + of_nat k) l"
  shows "copy_bytes (copy_bytes m d s k) (d + of_nat k) (s + of_nat k) l = copy_bytes m d s (k + l)"
  using assms by (simp add: copy_bytes_def load_bytes_add store_bytes_append load_store_bytes_disjoint)

lemma copy_bytes_inside: "i < n \<Longrightarrow> n \<le> 2 ^ 32 \<Longrightarrow> copy_bytes m d s n (d + of_nat i) = m (s + of_nat i)"
  using store_bytes_inside [of i "load_bytes m s n" m d] by (simp add: copy_bytes_def)

lemma copy_bytes_other:
  "disjoint_runs d n b k \<Longrightarrow> i < k \<Longrightarrow> copy_bytes m d s n (b + of_nat i) = m (b + of_nat i)"
  unfolding copy_bytes_def by (rule store_bytes_outside) (metis disjoint_runsD length_load_bytes)

end
