(* ===== verification/Machine.thy ===== *)
theory Machine
  imports Prelude
begin

text \<open>
  The machine the kernel runs on, as far as its C code sees it: byte memory, the I/O ports
  (\<open>inb\<close> and \<open>outb\<close> of \<^verbatim>\<open>student-distrib/lib.h\<close>) and the interrupt flag
  (\<open>cli\<close>, \<open>sti\<close>). The devices behind the ports are not part of the repository: they are
  the field \<open>io_dev\<close>, a function from everything that happened on the ports so far and a
  port to the byte the port delivers, on which no theorem makes an assumption it does not
  state. The state records of the components extend this record one after another.
\<close>

datatype io_event = Outb u8 u16 | Inb u16 u8

record machine =
  mem :: mem
  io_log :: "io_event list"
  io_dev :: "io_event list \<Rightarrow> u16 \<Rightarrow> u8"
  if_flag :: bool

definition outb :: "u8 \<Rightarrow> u16 \<Rightarrow> 'a machine_scheme \<Rightarrow> 'a machine_scheme" where
  "outb data port s = s\<lparr>io_log := io_log s @ [Outb data port]\<rparr>"

definition inb :: "u16 \<Rightarrow> 'a machine_scheme \<Rightarrow> u32 \<times> 'a machine_scheme" where
  "inb port s =
     (let v = io_dev s (io_log s) port
      in (ucast v, s\<lparr>io_log := io_log s @ [Inb port v]\<rparr>))"

definition cli :: "'a machine_scheme \<Rightarrow> 'a machine_scheme" where
  "cli s = s\<lparr>if_flag := False\<rparr>"

definition sti :: "'a machine_scheme \<Rightarrow> 'a machine_scheme" where
  "sti s = s\<lparr>if_flag := True\<rparr>"

lemma outb_fields [io_simps]:
  "mem (outb d p s) = mem s" "io_log (outb d p s) = io_log s @ [Outb d p]"
  "io_dev (outb d p s) = io_dev s" "if_flag (outb d p s) = if_flag s"
  by (simp_all add: outb_def)

lemma cli_sti_fields [io_simps]:
  "mem (cli s) = mem s" "io_log (cli s) = io_log s" "\<not> if_flag (cli s)"
  "mem (sti s) = mem s" "io_log (sti s) = io_log s" "if_flag (sti s)"
  by (simp_all add: cli_def sti_def)

text \<open>The bytes written to one port, oldest first.\<close>

fun written :: "u16 \<Rightarrow> io_event list \<Rightarrow> u8 list" where
  "written p [] = []"
| "written p (Outb d q # es) = (if p = q then d # written p es else written p es)"
| "written p (Inb q v # es) = written p es"

lemma written_append [simp]: "written p (xs @ ys) = written p xs @ written p ys"
  by (induction p xs rule: written.induct) simp_all


section \<open>Busy waiting\<close>

text \<open>
  A loop such as \<^verbatim>\<open>while(flag == LOCK){}\<close> changes nothing itself: only interrupt handlers
  running between its iterations do. \<open>spin locked isr es s\<close> is the loop entered in state
  \<open>s\<close> while the interrupts \<open>es\<close> arrive one after another; \<open>None\<close> when it still spins after
  the last of them, otherwise the state and the interrupts not yet delivered.
\<close>

fun spin :: "('s \<Rightarrow> bool) \<Rightarrow> ('e \<Rightarrow> 's \<Rightarrow> 's) \<Rightarrow> 'e list \<Rightarrow> 's \<Rightarrow> ('s \<times> 'e list) option" where
  "spin locked isr [] s = (if locked s then None else Some (s, []))"
| "spin locked isr (e # es) s = (if locked s then spin locked isr es (isr e s) else Some (s, e # es))"

lemma spin_unlocked: "\<not> locked s \<Longrightarrow> spin locked isr es s = Some (s, es)"
  by (cases es) simp_all

lemma spin_Some:
  "spin locked isr es s = Some (s', es') \<Longrightarrow>
     \<not> locked s' \<and> (\<exists>ds. es = ds @ es' \<and> s' = fold isr ds s)"
proof (induction locked isr es s rule: spin.induct)
  case (2 locked isr e es s)
  show ?case
  proof (cases "locked s")
    case True
    with 2 obtain ds where "\<not> locked s'" "es = ds @ es'" "s' = fold isr ds (isr e s)" by auto
    then show ?thesis by (intro conjI exI [of _ "e # ds"]) simp_all
  qed (use 2 in auto)
qed (auto split: if_splits)

text \<open>The loop ends as soon as one of the arriving interrupts opens the lock.\<close>

lemma spin_terminates:
  "\<not> locked (fold isr ds s) \<Longrightarrow> \<exists>s' es'. spin locked isr (ds @ es) s = Some (s', es')"
  by (induction ds arbitrary: s) (auto simp: spin_unlocked)

end
