(* ===== verification/Pic.thy ===== *)
theory Pic
  imports Machine
begin

text \<open>
  The interrupt controller driver \<^verbatim>\<open>student-distrib/i8259.c\<close>: the mask bytes of the two
  8259 chips, unmasking and masking a line, and the end-of-interrupt protocol.
\<close>

record pic = machine +
  master_mask :: u8
  slave_mask :: u8

abbreviation MASTER_8259_PORT :: u16 where "MASTER_8259_PORT \<equiv> 0x20"
abbreviation SLAVE_8259_PORT :: u16 where "SLAVE_8259_PORT \<equiv> 0xA0"
abbreviation MASTER_8259_DATA :: u16 where "MASTER_8259_DATA \<equiv> 0x21"
abbreviation SLAVE_8259_DATA :: u16 where "SLAVE_8259_DATA \<equiv> 0xA1"

definition enable_irq :: "u32 \<Rightarrow> 'a pic_scheme \<Rightarrow> 'a pic_scheme" where
  "enable_irq irq_num s =
     (if irq_num \<ge> 0x10 then s
      else if irq_num < 8 then
        let mask = push_bit (unat irq_num) 1;
            s1 = s\<lparr>master_mask := master_mask s AND NOT mask\<rparr>
        in outb (master_mask s1) MASTER_8259_DATA s1
      else
        let mask = push_bit (unat (irq_num - 8)) 1;
            s1 = s\<lparr>slave_mask := slave_mask s AND NOT mask\<rparr>
        in outb (slave_mask s1) SLAVE_8259_DATA s1)"

definition disable_irq :: "u32 \<Rightarrow> 'a pic_scheme \<Rightarrow> 'a pic_scheme" where
  "disable_irq irq_num s =
     (if irq_num \<ge> 0x10 then s
      else if irq_num < 8 then
        let mask = push_bit (unat irq_num) 1;
            s1 = s\<lparr>master_mask := master_mask s OR mask\<rparr>
        in outb (master_mask s1) MASTER_8259_DATA s1
      else
        let mask = push_bit (unat (irq_num - 8)) 1;
            s1 = s\<lparr>slave_mask := slave_mask s OR NOT mask\<rparr>
        in outb (slave_mask s1) SLAVE_8259_DATA s1)"

definition send_eoi :: "u32 \<Rightarrow> 'a pic_scheme \<Rightarrow> 'a pic_scheme" where
  "send_eoi irq_num s =
     (if irq_num \<ge> 0x10 then s
      else if irq_num < 8 then outb (ucast (0x60 OR irq_num)) MASTER_8259_PORT s
      else outb (0x60 OR 2) MASTER_8259_PORT
             (outb (ucast (0x60 OR (irq_num - 8))) SLAVE_8259_PORT s))"

definition i8259_init :: "'a pic_scheme \<Rightarrow> 'a pic_scheme" where
  "i8259_init s0 =
     (let s = outb 0x11 MASTER_8259_PORT s0;
          s = outb 0x11 SLAVE_8259_PORT s;
          s = outb 0x20 MASTER_8259_DATA s;
          s = outb 0x28 SLAVE_8259_DATA s;
          s = outb 0x04 MASTER_8259_DATA s;
          s = outb 0x02 SLAVE_8259_DATA s;
          s = outb 0x01 MASTER_8259_DATA s;
          s = outb 0x01 SLAVE_8259_DATA s;
          s = outb (master_mask s) MASTER_8259_DATA s;
          s = outb (slave_mask s) SLAVE_8259_DATA s
      in enable_irq 2 s)"

lemma outb_pic_fields [io_simps]:
  "master_mask (outb d p s) = master_mask s" "slave_mask (outb d p s) = slave_mask s"
  by (simp_all add: outb_def)

lemma irq_ops_frame [frame_simps]:
  "mem (enable_irq n s) = mem s" "mem (disable_irq n s) = mem s" "mem (send_eoi n s) = mem s"
  "if_flag (enable_irq n s) = if_flag s" "if_flag (disable_irq n s) = if_flag s"
  "if_flag (send_eoi n s) = if_flag s"
  "master_mask (send_eoi n s) = master_mask s" "slave_mask (send_eoi n s) = slave_mask s"
  by (simp_all add: enable_irq_def disable_irq_def send_eoi_def Let_def io_simps)

section \<open>The controller as sixteen maskable lines\<close>

text \<open>A line is masked when its bit is set in the mask byte of its chip.\<close>

definition irq_masked :: "'a pic_scheme \<Rightarrow> nat \<Rightarrow> bool" where
  "irq_masked s n = (if n < 8 then bit (master_mask s) n else bit (slave_mask s) (n - 8))"

lemma irq_masked_outb [io_simps]: "irq_masked (outb d p s) n = irq_masked s n"
  by (simp add: irq_masked_def io_simps)

lemma irq_masked_send_eoi [frame_simps]: "irq_masked (send_eoi m s) n = irq_masked s n"
  by (simp add: irq_masked_def frame_simps)

text \<open>
  What the rest of the kernel relies on: among a set of lines, unmasking a line unmasks it
  and no other, masking a line masks it and no other.
\<close>

locale irq_lines =
  fixes enable disable :: "u32 \<Rightarrow> 's \<Rightarrow> 's"
    and masked :: "'s \<Rightarrow> nat \<Rightarrow> bool"
    and lines :: "u32 set"
  assumes masked_enable: "n \<in> lines \<Longrightarrow> k < 16 \<Longrightarrow> masked (enable n s) k \<longleftrightarrow> masked s k \<and> k \<noteq> unat n"
    and masked_disable: "n \<in> lines \<Longrightarrow> k < 16 \<Longrightarrow> masked (disable n s) k \<longleftrightarrow> masked s k \<or> k = unat n"
    and lines_bound: "n \<in> lines \<Longrightarrow> unat n < 16"
begin

lemma enable_unmasks: "n \<in> lines \<Longrightarrow> \<not> masked (enable n s) (unat n)"
  by (simp add: masked_enable lines_bound)

lemma disable_masks: "n \<in> lines \<Longrightarrow> masked (disable n s) (unat n)"
  by (simp add: masked_disable lines_bound)

lemma enable_disable: "n \<in> lines \<Longrightarrow> k < 16 \<Longrightarrow> masked (enable n (disable n s)) k = masked (enable n s) k"
  by (auto simp: masked_enable masked_disable)

text \<open>A client that opens a line under a condition and closes it otherwise gates the line.\<close>

lemma gate:
  assumes "n \<in> lines" and "k < 16"
  shows "masked (if c then enable n s else disable n s) k = (if k = unat n then \<not> c else masked s k)"
  using assms by (simp add: masked_enable masked_disable)

end

lemma bit_u8_exp: "bit (2 ^ i :: u8) k \<longleftrightarrow> k = i \<and> i < 8"
  by (auto simp: bit_simps)

lemma bit_u8_NOT_exp: "bit (NOT (2 ^ i) :: u8) k \<longleftrightarrow> k < 8 \<and> k \<noteq> i"
  by (auto simp: bit_simps)

lemma irq_masked_enable:
  assumes "n < 16" and "k < 16"
  shows "irq_masked (enable_irq n s) k \<longleftrightarrow> irq_masked s k \<and> k \<noteq> unat n"
proof (cases "n < 8")
  case True
  then have "unat n < 8" by (simp add: word_less_nat_alt)
  with True assms show ?thesis
    by (auto simp: enable_irq_def irq_masked_def Let_def io_simps bit_and_iff bit_u8_NOT_exp not_le)
next
  case False
  then have "unat (n - 8) = unat n - 8" "8 \<le> unat n" "unat n < 16"
    using assms(1) by (auto simp: not_less unat_sub word_le_nat_alt word_less_nat_alt)
  with False assms show ?thesis
    by (auto simp: enable_irq_def irq_masked_def Let_def io_simps bit_and_iff bit_u8_NOT_exp not_le)
qed

lemma irq_masked_disable_master:
  assumes "n < 8" and "k < 16"
  shows "irq_masked (disable_irq n s) k \<longleftrightarrow> irq_masked s k \<or> k = unat n"
proof -
  have "unat n < 8" "\<not> 16 \<le> n" using assms by (auto simp: word_less_nat_alt word_le_nat_alt)
  with assms show ?thesis
    by (auto simp: disable_irq_def irq_masked_def Let_def io_simps bit_or_iff bit_u8_exp)
qed

text \<open>The lines of the master chip, which the scheduler gates, obey the contract.\<close>

interpretation master_lines: irq_lines enable_irq disable_irq irq_masked "{n. n < 8}"
proof (unfold_locales, goal_cases)
  case (1 n k s)
  then have "n < 8" by simp
  then have "n < 16" by (rule less_trans) simp
  then show ?case using \<open>k < 16\<close> by (rule irq_masked_enable)
qed (simp_all add: irq_masked_disable_master word_less_nat_alt)

text \<open>
  The slave half of \<open>disable_irq\<close> ors in the complement of the line's mask: it masks every
  slave line but the one it was asked to mask.
\<close>

lemma irq_masked_disable_slave:
  assumes "8 \<le> n" and "n < 16" and "k < 16"
  shows "irq_masked (disable_irq n s) k \<longleftrightarrow> (if k < 8 then irq_masked s k else irq_masked s k \<or> k \<noteq> unat n)"
proof -
  have "unat (n - 8) = unat n - 8" "8 \<le> unat n" "unat n < 16" "\<not> n < 8" "\<not> 16 \<le> n"
    using assms(1,2) by (auto simp: unat_sub word_le_nat_alt word_less_nat_alt)
  with assms show ?thesis
    by (auto simp: disable_irq_def irq_masked_def Let_def io_simps bit_or_iff bit_u8_NOT_exp)
qed

section \<open>Properties\<close>

text \<open>Unmasking any of the sixteen lines unmasks that line and leaves every other as it was,
  and the new mask byte of the line's chip is what goes to that chip's data port.\<close>

theorem enable_irq_unmasks:
  assumes "n < 16"
  shows "(\<forall>k<16. irq_masked (enable_irq n s) k = (irq_masked s k \<and> k \<noteq> unat n)) \<and>
    io_log (enable_irq n s) = io_log s @
      [if n < 8 then Outb (master_mask (enable_irq n s)) MASTER_8259_DATA
       else Outb (slave_mask (enable_irq n s)) SLAVE_8259_DATA]"
proof -
  have "\<not> n \<ge> 16" using assms by simp
  then have "io_log (enable_irq n s) = io_log s @
      [if n < 8 then Outb (master_mask (enable_irq n s)) MASTER_8259_DATA
       else Outb (slave_mask (enable_irq n s)) SLAVE_8259_DATA]"
    by (simp add: enable_irq_def Let_def io_simps)
  then show ?thesis using irq_masked_enable [OF assms] by blast
qed

text \<open>The controller as the driver's static data has it before initialisation.\<close>

abbreviation pic0 :: pic where
  "pic0 \<equiv> \<lparr>mem = \<lambda>_. 0, io_log = [], io_dev = \<lambda>_ _. 0, if_flag = False,
     master_mask = 0xFF, slave_mask = 0xFF\<rparr>"

theorem enable_irq_unmasks_witness:
  "\<not> irq_masked (enable_irq 8 pic0) 8 \<and> irq_masked (enable_irq 8 pic0) 9 = irq_masked pic0 9 \<and>
   io_log (enable_irq 8 pic0) = [Outb 0xFE SLAVE_8259_DATA]"
  using enable_irq_unmasks [of 8 pic0] by (simp add: enable_irq_def Let_def io_simps)

text \<open>Masking a line of the master chip masks that line only; masking a line of the slave chip does
  the opposite of what it means to: every other slave line becomes masked, and the line
  itself stays as it was.\<close>

theorem disable_irq_lines:
  assumes "n < 16" and "k < 16"
  shows "irq_masked (disable_irq n s) k =
    (if n < 8 then irq_masked s k \<or> k = unat n else irq_masked s k \<or> 8 \<le> k \<and> k \<noteq> unat n)"
  using irq_masked_disable_master [of n k s] irq_masked_disable_slave [of n k s] assms
  by (auto simp: not_less)

theorem disable_irq_lines_witness:
  "\<not> irq_masked (disable_irq 8 (enable_irq 8 pic0)) 8"
  using disable_irq_lines [of 8 8 "enable_irq 8 pic0"] irq_masked_enable [of 8 8 pic0] by simp

end
