(* ===== verification/Rtc.thy ===== *)
theory Rtc
  imports Pic
begin

text \<open>
  The real-time clock driver \<^verbatim>\<open>student-distrib/rtc.c\<close>: programming the periodic rate
  through registers A and B, the interrupt handler and the blocking read.
\<close>

record rtc = pic +
  rtc_interrupt_occurred :: i32

abbreviation RTC_REG_NUM :: u16 where "RTC_REG_NUM \<equiv> 0x70"
abbreviation RTC_READ_WRITE :: u16 where "RTC_READ_WRITE \<equiv> 0x71"
abbreviation RTC_REG_A :: u8 where "RTC_REG_A \<equiv> 0x8A"
abbreviation RTC_REG_B :: u8 where "RTC_REG_B \<equiv> 0x8B"
abbreviation RTC_REG_C :: u8 where "RTC_REG_C \<equiv> 0x8C"
abbreviation (input) LOCK :: "'a::len word" where "LOCK \<equiv> 1"
abbreviation (input) UNLOCK :: "'a::len word" where "UNLOCK \<equiv> 0"

definition rtc_open :: "'a rtc_scheme \<Rightarrow> i32 \<times> 'a rtc_scheme" where
  "rtc_open s0 =
     (let s = outb RTC_REG_A RTC_REG_NUM s0;
          (v, s) = inb RTC_READ_WRITE s;
          prev = (ucast v :: u8);
          s = outb RTC_REG_A RTC_REG_NUM s;
          s = outb ((prev AND 0xF0) OR 0x0F) RTC_READ_WRITE s
      in (SUCCESS, s))"

definition rtc_init :: "'a rtc_scheme \<Rightarrow> 'a rtc_scheme" where
  "rtc_init s0 =
     (let s = outb RTC_REG_B RTC_REG_NUM s0;
          (v, s) = inb RTC_READ_WRITE s;
          prev = (ucast v :: u8);
          s = outb RTC_REG_B RTC_REG_NUM s;
          s = outb (prev OR 0x40) RTC_READ_WRITE s;
          (_, s) = rtc_open s
      in enable_irq 8 s)"

definition rtc_handler :: "'a rtc_scheme \<Rightarrow> u32 \<times> 'a rtc_scheme" where
  "rtc_handler s0 =
     (let s = send_eoi 8 s0;
          s = s\<lparr>rtc_interrupt_occurred := UNLOCK\<rparr>;
          s = outb RTC_REG_C RTC_REG_NUM s;
          (_, s) = inb RTC_READ_WRITE s
      in (0, s))"

definition rtc_locked :: "'a rtc_scheme \<Rightarrow> bool" where
  "rtc_locked s = (rtc_interrupt_occurred s = LOCK)"

definition rtc_read ::
  "('e \<Rightarrow> 'a rtc_scheme \<Rightarrow> 'a rtc_scheme) \<Rightarrow> 'e list \<Rightarrow> 'a rtc_scheme
     \<Rightarrow> (i32 \<times> 'a rtc_scheme \<times> 'e list) option" where
  "rtc_read isr es s =
     (case spin rtc_locked isr es (s\<lparr>rtc_interrupt_occurred := LOCK\<rparr>) of
        None \<Rightarrow> None
      | Some (s', es') \<Rightarrow> Some (SUCCESS, s', es'))"

definition rtc_rate :: "u32 \<Rightarrow> u8 option" where
  "rtc_rate value =
     (if value = 0 then Some 0x00
      else if value = 2 then Some 0x0F
      else if value = 4 then Some 0x0E
      else if value = 8 then Some 0x0D
      else if value = 16 then Some 0x0C
      else if value = 32 then Some 0x0B
      else if value = 64 then Some 0x0A
      else if value = 128 then Some 0x09
      else if value = 256 then Some 0x08
      else if value = 512 then Some 0x07
      else if value = 1024 then Some 0x06
      else None)"

definition rtc_write :: "u32 \<Rightarrow> i32 \<Rightarrow> 'a rtc_scheme \<Rightarrow> i32 \<times> 'a rtc_scheme" where
  "rtc_write buf nbytes s0 =
     (if buf = 0 \<or> nbytes \<noteq> 4 then (FAILURE, s0)
      else
        let s = outb RTC_REG_A RTC_REG_NUM s0;
            (v, s) = inb RTC_READ_WRITE s;
            prev_a = (ucast v :: u8);
            value = load32 (mem s) buf;
            power_of_two = value AND (value - 1)
        in if power_of_two \<noteq> 0 then (FAILURE, s)
           else case rtc_rate value of
               None \<Rightarrow> (FAILURE, s)
             | Some r \<Rightarrow>
                 (SUCCESS, outb ((prev_a AND 0xF0) OR (r AND 0x0F)) RTC_READ_WRITE
                    (outb RTC_REG_A RTC_REG_NUM s)))"

definition rtc_close :: "'a rtc_scheme \<Rightarrow> i32 \<times> 'a rtc_scheme" where
  "rtc_close s = (SUCCESS, s)"

section \<open>What a write programs\<close>

lemma inb_fields [io_simps]:
  "fst (inb p s) = ucast (io_dev s (io_log s) p)"
  "mem (snd (inb p s)) = mem s"
  "io_log (snd (inb p s)) = io_log s @ [Inb p (io_dev s (io_log s) p)]"
  by (simp_all add: inb_def Let_def)

text \<open>The byte register A holds when the driver has selected it and reads it back.\<close>

definition rtc_reg_a :: "'a rtc_scheme \<Rightarrow> u8" where
  "rtc_reg_a s = io_dev s (io_log s @ [Outb RTC_REG_A RTC_REG_NUM]) RTC_READ_WRITE"

text \<open>The periodic frequency of a rate nibble, as the chip divides 32768 Hz; 0 is off.\<close>

definition rtc_frequency :: "u8 \<Rightarrow> nat" where
  "rtc_frequency r = (if r = 0 then 0 else 32768 div 2 ^ (unat r - 1))"

definition rtc_valid_frequency :: "u32 \<Rightarrow> bool" where
  "rtc_valid_frequency v = (v = 0 \<or> v \<in> set (map (\<lambda>k. 2 ^ k) [1..<11]))"

lemma rtc_rate_valid: "rtc_rate v \<noteq> None \<longleftrightarrow> rtc_valid_frequency v"
  by (auto simp: rtc_rate_def rtc_valid_frequency_def upt_rec)

lemma rtc_rate_power_of_two: "rtc_rate v = Some r \<Longrightarrow> v AND (v - 1) = 0"
  by (auto simp: rtc_rate_def split: if_splits)

lemma rtc_rate_frequency: "rtc_rate v = Some r \<Longrightarrow> rtc_frequency r = unat v \<and> r AND 0x0F = r"
  by (auto simp: rtc_rate_def rtc_frequency_def split: if_splits)

lemma rtc_write_result:
  "fst (rtc_write buf nbytes s) = SUCCESS \<longleftrightarrow>
     buf \<noteq> 0 \<and> nbytes = 4 \<and> rtc_valid_frequency (load32 (mem s) buf)"
  using rtc_rate_power_of_two [of "load32 (mem s) buf"] rtc_rate_valid [of "load32 (mem s) buf"]
  by (auto simp: rtc_write_def Let_def split_def io_simps split: option.splits)

section \<open>Properties\<close>

lemma rtc_handler_unlocks: "\<not> rtc_locked (snd (rtc_handler s))"
proof -
  have "rtc_interrupt_occurred (snd (inb p t)) = rtc_interrupt_occurred t" for p and t :: "'a rtc_scheme"
    by (simp add: inb_def Let_def)
  then show ?thesis by (simp add: rtc_handler_def rtc_locked_def Let_def split_def outb_def)
qed

lemma spin_until:
  assumes "\<And>e s. e \<in> set ds \<Longrightarrow> locked s \<Longrightarrow> locked (isr e s)" and "\<And>s. \<not> locked (isr e s)" and "locked s"
  shows "spin locked isr (ds @ e # es) s = Some (fold isr (ds @ [e]) s, es)"
  using assms(1,3) by (induction ds arbitrary: s) (auto simp: spin_unlocked assms(2))

text \<open>C39. \<open>rtc_write\<close> accepts exactly the frequencies 0 and 2 to 1024 that are powers of two, given in a
  four-byte buffer. It then stores in register A the rate that divides the clock to that
  frequency and keeps the register's upper half; a rejected call writes no register.\<close>

theorem rtc_write_programs:
  "(fst (rtc_write buf nbytes s) = SUCCESS \<longleftrightarrow> buf \<noteq> 0 \<and> nbytes = 4 \<and> rtc_valid_frequency (load32 (mem s) buf)) \<and>
   (if buf \<noteq> 0 \<and> nbytes = 4 \<and> rtc_valid_frequency (load32 (mem s) buf)
    then \<exists>r. rtc_frequency r = unat (load32 (mem s) buf) \<and>
      io_log (snd (rtc_write buf nbytes s)) = io_log s @ [Outb RTC_REG_A RTC_REG_NUM, Inb RTC_READ_WRITE (rtc_reg_a s),
        Outb RTC_REG_A RTC_REG_NUM, Outb ((rtc_reg_a s AND 0xF0) OR r) RTC_READ_WRITE]
    else fst (rtc_write buf nbytes s) = FAILURE \<and>
      written RTC_READ_WRITE (io_log (snd (rtc_write buf nbytes s))) = written RTC_READ_WRITE (io_log s))"
proof -
  let ?v = "load32 (mem s) buf"
  note f = rtc_write_result [of buf nbytes s]
  show ?thesis
  proof (cases "buf \<noteq> 0 \<and> nbytes = 4 \<and> rtc_valid_frequency ?v")
    case True
    then obtain r where r: "rtc_rate ?v = Some r" using rtc_rate_valid by blast
    note q = rtc_rate_frequency [OF r] rtc_rate_power_of_two [OF r]
    have "io_log (snd (rtc_write buf nbytes s)) = io_log s @ [Outb RTC_REG_A RTC_REG_NUM, Inb RTC_READ_WRITE (rtc_reg_a s),
        Outb RTC_REG_A RTC_REG_NUM, Outb ((rtc_reg_a s AND 0xF0) OR r) RTC_READ_WRITE]"
      using True q r by (simp add: rtc_write_def Let_def split_def io_simps rtc_reg_a_def)
    then show ?thesis using True f q by auto
  next
    case False
    then have n: "buf = 0 \<or> nbytes \<noteq> 4 \<or> rtc_rate ?v = None" using rtc_rate_valid by blast
    then have "fst (rtc_write buf nbytes s) = FAILURE"
      "written RTC_READ_WRITE (io_log (snd (rtc_write buf nbytes s))) = written RTC_READ_WRITE (io_log s)"
      by (auto simp: rtc_write_def Let_def split_def io_simps)
    then show ?thesis using f by (simp only: False if_False simp_thms)
  qed
qed

text \<open>C38. \<open>rtc_read\<close> returns at the first clock interrupt: whatever other interrupts arrive before, none of
  which relocks or opens the flag, the call ends with the clock's handler and returns 0.\<close>

theorem rtc_read_returns_at_tick:
  fixes isr :: "'e \<Rightarrow> 'a rtc_scheme \<Rightarrow> 'a rtc_scheme"
  assumes "\<And>d s. d \<in> set ds \<Longrightarrow> rtc_interrupt_occurred (isr d s) = rtc_interrupt_occurred s"
    and "isr e = (\<lambda>s. snd (rtc_handler s))"
  shows "rtc_read isr (ds @ e # es) s =
    Some (SUCCESS, snd (rtc_handler (fold isr ds (s\<lparr>rtc_interrupt_occurred := LOCK\<rparr>))), es)"
proof -
  have "spin rtc_locked isr (ds @ e # es) (s\<lparr>rtc_interrupt_occurred := LOCK\<rparr>) =
      Some (fold isr (ds @ [e]) (s\<lparr>rtc_interrupt_occurred := LOCK\<rparr>), es)"
    by (rule spin_until) (simp_all add: rtc_handler_unlocks assms, simp_all add: rtc_locked_def assms)
  then show ?thesis by (simp add: rtc_read_def assms(2))
qed

definition rtc0 :: rtc where
  "rtc0 = pic.extend pic0 (rtc.fields 0)"

theorem rtc_read_returns_at_tick_witness:
  "rtc_read (\<lambda>e s. if e = (8 :: nat) then snd (rtc_handler s) else s) [0, 1, 8, 0] rtc0 =
     Some (SUCCESS, snd (rtc_handler (rtc0\<lparr>rtc_interrupt_occurred := LOCK\<rparr>)), [0])"
proof -
  let ?isr = "\<lambda>e s. if e = (8 :: nat) then snd (rtc_handler s) else s"
  have "rtc_read ?isr ([0, 1] @ 8 # [0]) rtc0 =
      Some (SUCCESS, snd (rtc_handler (fold ?isr [0, 1] (rtc0\<lparr>rtc_interrupt_occurred := LOCK\<rparr>))), [0])"
    by (rule rtc_read_returns_at_tick) auto
  then show ?thesis by simp
qed

end
