(* ===== verification/Lib_Mem.thy ===== *)
theory Lib_Mem
  imports Prelude
begin

text \<open>
  The memory routines of \<^verbatim>\<open>student-distrib/lib.c\<close>: \<open>memset\<close>, \<open>memset_word\<close>,
  \<open>memset_dword\<close>, \<open>memcpy\<close> and \<open>memmove\<close>. They are inline assembly in the source; each
  instruction loop is one recursive function over the registers it uses, with \<open>ecx\<close>
  and \<open>edx\<close> read as numbers (\<open>shrl $2\<close> is \<open>div 4\<close> and \<open>andl $0x3\<close> is \<open>mod 4\<close>).
  Each routine is shown equal to the byte-wise reference operation of \<open>Prelude\<close>.
\<close>

section \<open>memset\<close>

fun rep_stosl :: "mem \<Rightarrow> u32 \<Rightarrow> u32 \<Rightarrow> nat \<Rightarrow> mem \<times> u32" where
  "rep_stosl m edi eax 0 = (m, edi)"
| "rep_stosl m edi eax (Suc ecx) = rep_stosl (store32 m edi eax) (edi + 4) eax ecx"

fun memset_bottom :: "mem \<Rightarrow> u32 \<Rightarrow> u8 \<Rightarrow> nat \<Rightarrow> mem" where
  "memset_bottom m edi al 0 = m"
| "memset_bottom m edi al (Suc edx) = memset_bottom (m(edi := al)) (edi + 1) al edx"

definition memset_aligned :: "mem \<Rightarrow> u32 \<Rightarrow> u32 \<Rightarrow> nat \<Rightarrow> mem" where
  "memset_aligned m edi eax ecx =
     (let edx = ecx mod 4; (m', edi') = rep_stosl m edi eax (ecx div 4)
      in memset_bottom m' edi' (ucast eax) edx)"

fun memset_top :: "mem \<Rightarrow> u32 \<Rightarrow> u32 \<Rightarrow> nat \<Rightarrow> mem" where
  "memset_top m edi eax 0 = m"
| "memset_top m edi eax (Suc ecx) =
     (if edi AND 3 = 0 then memset_aligned m edi eax (Suc ecx)
      else memset_top (m(edi := ucast eax)) (edi + 1) eax ecx)"

definition memset :: "mem \<Rightarrow> u32 \<Rightarrow> i32 \<Rightarrow> u32 \<Rightarrow> mem" where
  "memset m s c n =
     (let c = c AND 0xFF
      in memset_top m s (push_bit 24 c OR push_bit 16 c OR push_bit 8 c OR c) (unat n))"

fun rep_stosw :: "mem \<Rightarrow> u32 \<Rightarrow> u32 \<Rightarrow> nat \<Rightarrow> mem" where
  "rep_stosw m edi eax 0 = m"
| "rep_stosw m edi eax (Suc ecx) =
     rep_stosw (m(edi := ucast eax, edi + 1 := ucast (drop_bit 8 eax))) (edi + 2) eax ecx"

definition memset_word :: "mem \<Rightarrow> u32 \<Rightarrow> i32 \<Rightarrow> u32 \<Rightarrow> mem" where
  "memset_word m s c n = rep_stosw m s c (unat n)"

definition memset_dword :: "mem \<Rightarrow> u32 \<Rightarrow> i32 \<Rightarrow> u32 \<Rightarrow> mem" where
  "memset_dword m s c n = fst (rep_stosl m s c (unat n))"

section \<open>memcpy\<close>

fun rep_movsl :: "mem \<Rightarrow> u32 \<Rightarrow> u32 \<Rightarrow> nat \<Rightarrow> mem \<times> u32 \<times> u32" where
  "rep_movsl m esi edi 0 = (m, esi, edi)"
| "rep_movsl m esi edi (Suc ecx) = rep_movsl (store32 m edi (load32 m esi)) (esi + 4) (edi + 4) ecx"

fun memcpy_bottom :: "mem \<Rightarrow> u32 \<Rightarrow> u32 \<Rightarrow> nat \<Rightarrow> mem" where
  "memcpy_bottom m esi edi 0 = m"
| "memcpy_bottom m esi edi (Suc edx) = memcpy_bottom (m(edi := m esi)) (esi + 1) (edi + 1) edx"

definition memcpy_aligned :: "mem \<Rightarrow> u32 \<Rightarrow> u32 \<Rightarrow> nat \<Rightarrow> mem" where
  "memcpy_aligned m esi edi ecx =
     (let edx = ecx mod 4; (m', esi', edi') = rep_movsl m esi edi (ecx div 4)
      in memcpy_bottom m' esi' edi' edx)"

fun memcpy_top :: "mem \<Rightarrow> u32 \<Rightarrow> u32 \<Rightarrow> nat \<Rightarrow> mem" where
  "memcpy_top m esi edi 0 = m"
| "memcpy_top m esi edi (Suc ecx) =
     (if edi AND 3 = 0 then memcpy_aligned m esi edi (Suc ecx)
      else memcpy_top (m(edi := m esi)) (esi + 1) (edi + 1) ecx)"

definition memcpy :: "mem \<Rightarrow> u32 \<Rightarrow> u32 \<Rightarrow> u32 \<Rightarrow> mem" where
  "memcpy m dest src n = memcpy_top m src dest (unat n)"

section \<open>memmove\<close>

text \<open>\<open>rep movsb\<close> with the direction flag clear and with it set.\<close>

fun rep_movsb_up :: "mem \<Rightarrow> u32 \<Rightarrow> u32 \<Rightarrow> nat \<Rightarrow> mem" where
  "rep_movsb_up m esi edi 0 = m"
| "rep_movsb_up m esi edi (Suc ecx) = rep_movsb_up (m(edi := m esi)) (esi + 1) (edi + 1) ecx"

fun rep_movsb_down :: "mem \<Rightarrow> u32 \<Rightarrow> u32 \<Rightarrow> nat \<Rightarrow> mem" where
  "rep_movsb_down m esi edi 0 = m"
| "rep_movsb_down m esi edi (Suc ecx) = rep_movsb_down (m(edi := m esi)) (esi - 1) (edi - 1) ecx"

text \<open>The result is the memory and the direction flag the routine leaves behind.\<close>

definition memmove :: "mem \<Rightarrow> u32 \<Rightarrow> u32 \<Rightarrow> u32 \<Rightarrow> mem \<times> bool" where
  "memmove m dest src n =
     (if src \<ge> dest then (rep_movsb_up m src dest (unat n), False)
      else (rep_movsb_down m (src + n - 1) (dest + n - 1) (unat n), True))"

section \<open>memset fills the run\<close>

lemma store32_store_bytes:
  "store32 m a v = store_bytes m a
     [ucast v, ucast (drop_bit 8 v), ucast (drop_bit 16 v), ucast (drop_bit 24 v)]"
  by (simp add: store32_def ac_simps)

lemma memset_bottom_eq: "memset_bottom m edi al n = store_bytes m edi (replicate n al)"
  by (induction n arbitrary: m edi) simp_all

lemma rep_stosl_eq:
  "rep_stosl m edi eax n =
     (store_bytes m edi (concat (replicate n
        [ucast eax, ucast (drop_bit 8 eax), ucast (drop_bit 16 eax), ucast (drop_bit 24 eax)])),
      edi + of_nat (4 * n))"
  by (induction n arbitrary: m edi)
    (simp_all add: store32_store_bytes ac_simps)

lemma rep_stosw_eq:
  "rep_stosw m edi eax n =
     store_bytes m edi (concat (replicate n [ucast eax, ucast (drop_bit 8 eax)]))"
  by (induction n arbitrary: m edi) (simp_all add: ac_simps)

lemma concat_replicate4: "concat (replicate n [x, x, x, x]) = replicate (4 * n) x"
  by (induction n) (simp_all add: numeral_eq_Suc)

lemma memset_splat:
  fixes c :: u32
  defines "e \<equiv> push_bit 24 (c AND 0xFF) OR push_bit 16 (c AND 0xFF) OR push_bit 8 (c AND 0xFF) OR (c AND 0xFF)"
  shows "(ucast e :: u8) = ucast c" and "(ucast (drop_bit 8 e) :: u8) = ucast c"
    and "(ucast (drop_bit 16 e) :: u8) = ucast c" and "(ucast (drop_bit 24 e) :: u8) = ucast c"
  unfolding e_def mask8_u32 by (rule bit_word_eqI; auto simp: bit_simps)+


lemma memset_aligned_eq:
  assumes "ucast (drop_bit 8 eax) = (ucast eax :: u8)" "ucast (drop_bit 16 eax) = (ucast eax :: u8)"
    "ucast (drop_bit 24 eax) = (ucast eax :: u8)"
  shows "memset_aligned m edi eax n = store_bytes m edi (replicate n (ucast eax))"
proof -
  have "store_bytes m edi (replicate n (ucast eax)) =
      store_bytes m edi (replicate (4 * (n div 4)) (ucast eax) @ replicate (n mod 4) (ucast eax))"
    by (simp flip: replicate_add)
  then show ?thesis
    using assms by (simp add: memset_aligned_def rep_stosl_eq memset_bottom_eq concat_replicate4
        store_bytes_append)
qed

lemma memset_top_eq:
  assumes "ucast (drop_bit 8 eax) = (ucast eax :: u8)" "ucast (drop_bit 16 eax) = (ucast eax :: u8)"
    "ucast (drop_bit 24 eax) = (ucast eax :: u8)"
  shows "memset_top m edi eax n = store_bytes m edi (replicate n (ucast eax))"
  by (induction n arbitrary: m edi) (simp_all add: memset_aligned_eq [OF assms])

lemma memset_eq_store_bytes: "memset m s c n = store_bytes m s (replicate (unat n) (ucast c))"
  unfolding memset_def Let_def by (subst memset_top_eq) (simp_all only: memset_splat)

section \<open>memcpy copies the run when source and destination are disjoint\<close>

lemma ucast_load32:
  "(ucast (load32 m a) :: u8) = m a"
  "(ucast (drop_bit 8 (load32 m a)) :: u8) = m (a + 1)"
  "(ucast (drop_bit 16 (load32 m a)) :: u8) = m (a + 2)"
  "(ucast (drop_bit 24 (load32 m a)) :: u8) = m (a + 3)"
  unfolding load32_def by (rule bit_word_eqI; auto simp: bit_simps dest: bit_imp_le_length)+

lemma load32_store32_same: "load32 (store32 m a v) a = v"
proof -
  have "a + 1 \<noteq> a" "a + 2 \<noteq> a" "a + 3 \<noteq> a" "a + 2 \<noteq> a + 1" "a + 3 \<noteq> a + 1" "a + 3 \<noteq> a + 2"
    by simp_all
  then have eq: "load32 (store32 m a v) a = ucast (ucast v :: u8)
      OR push_bit 8 (ucast (ucast (drop_bit 8 v) :: u8))
      OR push_bit 16 (ucast (ucast (drop_bit 16 v) :: u8))
      OR push_bit 24 (ucast (ucast (drop_bit 24 v) :: u8))"
    by (simp add: load32_def store32_def)
  show ?thesis unfolding eq
  proof (rule bit_word_eqI)
    fix n assume "n < LENGTH(32)"
    then consider "n < 8" | "8 \<le> n" "n < 16" | "16 \<le> n" "n < 24" | "24 \<le> n" "n < 32"
      by fastforce
    then show "bit (ucast (ucast v :: u8) OR push_bit 8 (ucast (ucast (drop_bit 8 v) :: u8))
        OR push_bit 16 (ucast (ucast (drop_bit 16 v) :: u8))
        OR push_bit 24 (ucast (ucast (drop_bit 24 v) :: u8)) :: u32) n = bit v n"
      by cases (auto simp: bit_simps)
  qed
qed

lemma movsl_eq: "store32 m edi (load32 m esi) = copy_bytes m edi esi 4"
  by (simp add: store32_store_bytes ucast_load32 copy_bytes_def load_bytes_def upt_rec)

lemma memcpy_bottom_eq:
  "disjoint_runs edi n esi n \<Longrightarrow> memcpy_bottom m esi edi n = copy_bytes m edi esi n"
proof (induction n arbitrary: m esi edi)
  case (Suc n)
  have tail: "disjoint_runs (edi + 1) n (esi + 1) n"
    using disjoint_runs_shift [OF Suc.prems, of 1 n 1 n] by simp
  have "disjoint_runs edi 1 (esi + of_nat 1) n"
    using disjoint_runs_shift [OF Suc.prems, of 0 1 1 n] by simp
  then have "copy_bytes (copy_bytes m edi esi 1) (edi + of_nat 1) (esi + of_nat 1) n =
      copy_bytes m edi esi (1 + n)"
    by (rule copy_bytes_add)
  with Suc.IH [OF tail] show ?case by (simp add: copy_bytes_1 fun_upd_def)
qed simp

lemma rep_movsl_eq:
  "disjoint_runs edi (4 * n) esi (4 * n) \<Longrightarrow>
     rep_movsl m esi edi n = (copy_bytes m edi esi (4 * n), esi + of_nat (4 * n), edi + of_nat (4 * n))"
proof (induction n arbitrary: m esi edi)
  case (Suc n)
  have tail: "disjoint_runs (edi + 4) (4 * n) (esi + 4) (4 * n)"
    using disjoint_runs_shift [OF Suc.prems, of 4 "4 * n" 4 "4 * n"] by simp
  have "disjoint_runs edi 4 (esi + of_nat 4) (4 * n)"
    using disjoint_runs_shift [OF Suc.prems, of 0 4 4 "4 * n"] by simp
  then have "copy_bytes (copy_bytes m edi esi 4) (edi + of_nat 4) (esi + of_nat 4) (4 * n) =
      copy_bytes m edi esi (4 + 4 * n)"
    by (rule copy_bytes_add)
  with Suc.IH [OF tail] show ?case by (simp add: movsl_eq ac_simps)
qed simp

lemma memcpy_aligned_eq:
  assumes "disjoint_runs edi n esi n"
  shows "memcpy_aligned m esi edi n = copy_bytes m edi esi n"
proof -
  let ?k = "4 * (n div 4)"
  have k: "?k + n mod 4 = n" by simp
  have d1: "disjoint_runs edi ?k esi ?k"
    using disjoint_runs_shift [OF assms, of 0 ?k 0 ?k] by simp
  have d2: "disjoint_runs (edi + of_nat ?k) (n mod 4) (esi + of_nat ?k) (n mod 4)"
    by (rule disjoint_runs_shift [OF assms]) simp_all
  have d3: "disjoint_runs edi ?k (esi + of_nat ?k) (n mod 4)"
    using disjoint_runs_shift [OF assms, of 0 ?k ?k "n mod 4"] by simp
  show ?thesis
    using rep_movsl_eq [OF d1, of m] memcpy_bottom_eq [OF d2, of "copy_bytes m edi esi ?k"]
      copy_bytes_add [OF d3, of m] k
    by (simp add: memcpy_aligned_def Let_def)
qed

lemma memcpy_top_eq:
  "disjoint_runs edi n esi n \<Longrightarrow> memcpy_top m esi edi n = copy_bytes m edi esi n"
proof (induction n arbitrary: m esi edi)
  case (Suc n)
  have tail: "disjoint_runs (edi + 1) n (esi + 1) n"
    using disjoint_runs_shift [OF Suc.prems, of 1 n 1 n] by simp
  have "disjoint_runs edi 1 (esi + of_nat 1) n"
    using disjoint_runs_shift [OF Suc.prems, of 0 1 1 n] by simp
  then have "copy_bytes (copy_bytes m edi esi 1) (edi + of_nat 1) (esi + of_nat 1) n =
      copy_bytes m edi esi (1 + n)"
    by (rule copy_bytes_add)
  with Suc.IH [OF tail] memcpy_aligned_eq [OF Suc.prems]
  show ?case by (simp add: copy_bytes_1 fun_upd_def)
qed simp

lemma memcpy_eq_copy_bytes:
  "disjoint_runs dest (unat n) src (unat n) \<Longrightarrow> memcpy m dest src n = copy_bytes m dest src (unat n)"
  by (simp add: memcpy_def memcpy_top_eq)

text \<open>The one-byte copy \<open>read_data\<close> and \<open>dir_read\<close> use, with no side condition.\<close>

lemma memcpy_one: "memcpy m dest src 1 = m(dest := m src)"
  by (simp add: memcpy_def memcpy_aligned_def Let_def)

section \<open>memmove copies the run even when the runs overlap\<close>

text \<open>Addresses inside a run that does not wrap around are ordered like their offsets.\<close>

lemma unat_run:
  "unat (a :: u32) + n \<le> 2 ^ 32 \<Longrightarrow> i < n \<Longrightarrow> unat (a + of_nat i) = unat a + i"
  by (simp add: unat_word_ariths unat_of_nat)

lemma rep_movsb_up_snoc:
  "rep_movsb_up m esi edi (Suc n) =
     (let m' = rep_movsb_up m esi edi n in m'(edi + of_nat n := m' (esi + of_nat n)))"
proof (induction n arbitrary: m esi edi)
  case (Suc n)
  show ?case
    using Suc.IH [of "m(edi := m esi)" "esi + 1" "edi + 1"]
    by (simp add: Let_def fun_upd_def ac_simps)
qed (simp add: fun_upd_def)

lemma copy_bytes_snoc:
  "copy_bytes m d s (Suc n) = (copy_bytes m d s n)(d + of_nat n := m (s + of_nat n))"
  using load_bytes_add [of m s n 1] by (simp add: copy_bytes_def store_bytes_append load_bytes_Suc)

lemma rep_movsb_up_eq:
  "unat esi + n \<le> 2 ^ 32 \<Longrightarrow> edi \<le> esi \<Longrightarrow> rep_movsb_up m esi edi n = copy_bytes m edi esi n"
proof (induction n)
  case (Suc n)
  have IH: "rep_movsb_up m esi edi n = copy_bytes m edi esi n"
    using Suc by simp
  have "esi + of_nat n \<noteq> edi + of_nat i" if "i < n" for i
  proof -
    have "unat edi \<le> unat esi" using Suc.prems(2) by (simp add: word_le_nat_alt)
    then have "unat (edi + of_nat i) = unat edi + i"
      using Suc.prems(1) that by (intro unat_run [where n = n]) auto
    moreover have "unat (esi + of_nat n) = unat esi + n"
      using Suc.prems(1) by (intro unat_run [where n = "Suc n"]) auto
    ultimately show ?thesis using \<open>unat edi \<le> unat esi\<close> that by auto
  qed
  then have "copy_bytes m edi esi n (esi + of_nat n) = m (esi + of_nat n)"
    unfolding copy_bytes_def by (intro store_bytes_outside) simp
  then show ?case
    by (simp only: rep_movsb_up_snoc IH Let_def copy_bytes_snoc)
qed simp

lemma rep_movsb_down_eq:
  "unat edi + n \<le> 2 ^ 32 \<Longrightarrow> esi < edi \<Longrightarrow>
     rep_movsb_down m (esi + of_nat n - 1) (edi + of_nat n - 1) n = copy_bytes m edi esi n"
proof (induction n arbitrary: m)
  case (Suc n)
  let ?m = "m(edi + of_nat n := m (esi + of_nat n))"
  have lt: "unat esi < unat edi" using Suc.prems(2) by (simp add: word_less_nat_alt)
  have src: "esi + of_nat i \<noteq> edi + of_nat n" if "i < n" for i
  proof -
    have "unat (esi + of_nat i) = unat esi + i"
      using Suc.prems(1) lt that by (intro unat_run [where n = n]) auto
    moreover have "unat (edi + of_nat n) = unat edi + n"
      using Suc.prems(1) by (intro unat_run [where n = "Suc n"]) auto
    ultimately show ?thesis using lt that by auto
  qed
  then have ld: "load_bytes ?m esi n = load_bytes m esi n"
    by (intro nth_equalityI) auto
  have dst: "edi + of_nat i \<noteq> edi + of_nat n" if "i < n" for i
    using that Suc.prems(1) by (simp add: of_nat_u32_inj)
  have comm: "store_bytes ?m edi bs = (store_bytes m edi bs)(edi + of_nat n := m (esi + of_nat n))"
    if "length bs = n" for bs
  proof (rule ext)
    fix x
    show "store_bytes ?m edi bs x = ((store_bytes m edi bs)(edi + of_nat n := m (esi + of_nat n))) x"
    proof (cases "\<exists>i<n. x = edi + of_nat i")
      case True
      then obtain i where i: "i < n" "x = edi + of_nat i" by blast
      with dst that Suc.prems(1) show ?thesis by (simp add: store_bytes_inside)
    next
      case False
      then show ?thesis using that by (auto simp: store_bytes_outside)
    qed
  qed
  have "rep_movsb_down m (esi + of_nat (Suc n) - 1) (edi + of_nat (Suc n) - 1) (Suc n) =
      rep_movsb_down ?m (esi + of_nat n - 1) (edi + of_nat n - 1) n"
    by (simp add: fun_upd_def algebra_simps)
  also have "\<dots> = copy_bytes ?m edi esi n"
    using Suc.prems by (intro Suc.IH) auto
  also have "\<dots> = copy_bytes m edi esi (Suc n)"
    by (simp add: copy_bytes_snoc) (simp add: copy_bytes_def ld comm)
  finally show ?case .
qed simp

lemma memmove_eq_copy_bytes:
  assumes "unat dest + unat n \<le> 2 ^ 32" and "unat src + unat n \<le> 2 ^ 32"
  shows "fst (memmove m dest src n) = copy_bytes m dest src (unat n)"
  using rep_movsb_up_eq [of src "unat n" dest m] rep_movsb_down_eq [of dest "unat n" src m] assms
  by (auto simp: memmove_def not_le)

lemma disjoint_runs_ordered:
  assumes "unat a + n \<le> unat b" and "unat b + k \<le> 2 ^ 32"
  shows "disjoint_runs a n b k" and "disjoint_runs b k a n"
proof -
  have "a + of_nat i \<noteq> b + of_nat j" if "i < n" "j < k" for i j
    using assms unat_run [of a n i] unat_run [of b k j] that by auto
  then show "disjoint_runs a n b k" and "disjoint_runs b k a n"
    unfolding disjoint_runs_def by metis+
qed

lemma copy_bytes_result:
  assumes "n \<le> 2 ^ 32"
  shows "load_bytes (copy_bytes m d s n) d n = load_bytes m s n"
    and "(\<And>i. i < n \<Longrightarrow> x \<noteq> d + of_nat i) \<Longrightarrow> copy_bytes m d s n x = m x"
proof -
  show "load_bytes (copy_bytes m d s n) d n = load_bytes m s n"
    using load_store_bytes_same [of "load_bytes m s n" m d] assms by (simp add: copy_bytes_def)
  show "copy_bytes m d s n x = m x" if "\<And>i. i < n \<Longrightarrow> x \<noteq> d + of_nat i"
    unfolding copy_bytes_def by (rule store_bytes_outside) (use that in simp)
qed

section \<open>Properties\<close>

text \<open>C17. \<open>memset\<close>, whatever the alignment of the destination: every byte of the run holds
  the low byte of the argument afterwards and no other byte changes.\<close>

theorem memset_fills:
  "load_bytes (memset m s c n) s (unat n) = replicate (unat n) (ucast c) \<and>
   (\<forall>x. x \<notin> (\<lambda>i. s + of_nat i) ` {..<unat n} \<longrightarrow> memset m s c n x = m x)"
proof -
  have "unat n \<le> 2 ^ 32" using unsigned_less [of n, where ?'a = nat] by simp
  then show ?thesis
    using load_store_bytes_same [of "replicate (unat n) (ucast c)" m s]
    by (auto simp: memset_eq_store_bytes intro!: store_bytes_outside)
qed

theorem memset_fills_witness:
  "memset (\<lambda>_. 1) 0x1001 0x120 3 0x1003 = 0x20 \<and> memset (\<lambda>_. 1) 0x1001 0x120 3 0x1004 = 1"
proof -
  have "load_bytes (memset (\<lambda>_. 1) 0x1001 0x120 3) 0x1001 3 ! 2 = 0x20"
    using memset_fills [of "\<lambda>_. 1" "0x1001" "0x120" 3] by simp
  moreover have "(0x1004 :: u32) \<notin> (\<lambda>i. 0x1001 + of_nat i) ` {..<unat (3 :: u32)}"
    by (auto simp: lessThan_nat_numeral lessThan_Suc)
  ultimately show ?thesis
    using memset_fills [of "\<lambda>_. 1" "0x1001" "0x120" 3] by simp
qed

text \<open>C15. \<open>memcpy\<close> between disjoint runs, whatever their alignment: the destination run holds
  the source bytes afterwards and no byte outside it changes.\<close>

theorem memcpy_copies:
  assumes "disjoint_runs dest (unat n) src (unat n)"
  shows "load_bytes (memcpy m dest src n) dest (unat n) = load_bytes m src (unat n) \<and>
    (\<forall>x. x \<notin> (\<lambda>i. dest + of_nat i) ` {..<unat n} \<longrightarrow> memcpy m dest src n x = m x)"
proof -
  have "unat n \<le> 2 ^ 32" using unsigned_less [of n, where ?'a = nat] by simp
  then show ?thesis
    by (auto simp: memcpy_eq_copy_bytes [OF assms] copy_bytes_result(1) intro!: copy_bytes_result(2))
qed

theorem memcpy_copies_witness:
  "load_bytes (memcpy (\<lambda>x. ucast x) 0x1001 0x2000 7) 0x1001 7 = load_bytes (\<lambda>x. ucast x) 0x2000 7"
  using memcpy_copies [of "0x1001" 7 "0x2000" "\<lambda>x. ucast x"] by (simp add: disjoint_runs_ordered)

text \<open>C16. \<open>memmove\<close> between runs that may overlap, when neither wraps around the address space:
  the destination run holds the bytes the source run had before the call, and no byte
  outside it changes.\<close>

theorem memmove_moves:
  assumes "unat dest + unat n \<le> 2 ^ 32" and "unat src + unat n \<le> 2 ^ 32"
  shows "load_bytes (fst (memmove m dest src n)) dest (unat n) = load_bytes m src (unat n) \<and>
    (\<forall>x. x \<notin> (\<lambda>i. dest + of_nat i) ` {..<unat n} \<longrightarrow> fst (memmove m dest src n) x = m x)"
proof -
  have "unat n \<le> 2 ^ 32" using unsigned_less [of n, where ?'a = nat] by simp
  then show ?thesis
    by (auto simp: memmove_eq_copy_bytes [OF assms] copy_bytes_result(1) intro!: copy_bytes_result(2))
qed

theorem memmove_moves_witness:
  "load_bytes (fst (memmove (\<lambda>x. ucast x) 0x1002 0x1000 5)) 0x1002 5 = [0, 1, 2, 3, 4]"
  using memmove_moves [of "0x1002" 5 "0x1000" "\<lambda>x. ucast x"]
  by (simp add: load_bytes_def upt_rec)

end
