(* ===== verification/Lib_String.thy ===== *)
theory Lib_String
  imports Lib_Mem
begin

text \<open>
  The string routines of \<^verbatim>\<open>student-distrib/lib.c\<close>: \<open>strlen\<close>, \<open>strrev\<close>, \<open>itoa\<close>,
  \<open>strncmp\<close>, \<open>strcpy\<close> and \<open>strncpy\<close>. A loop that only a NUL byte ends is a
  \<^theory_text>\<open>partial_function\<close> whose value is \<^term>\<open>None\<close> when it runs forever. A source
  string that is only read is a \<^typ>\<open>bytes\<close>; where the routine also writes memory, the
  source is read from the current memory, so overlap is in the model.
\<close>

section \<open>strlen\<close>

partial_function (option) strlen_from :: "bytes \<Rightarrow> nat \<Rightarrow> nat option" where
  "strlen_from s len = (if s len \<noteq> 0 then strlen_from s (Suc len) else Some len)"

definition strlen :: "bytes \<Rightarrow> u32 option" where
  "strlen s = map_option of_nat (strlen_from s 0)"

section \<open>strrev\<close>

function strrev_loop :: "mem \<Rightarrow> u32 \<Rightarrow> int \<Rightarrow> int \<Rightarrow> mem" where
  "strrev_loop m s beg fin =
     (if beg < fin then
        let tmp = m (s + of_int fin);
            m1 = m(s + of_int fin := m (s + of_int beg));
            m2 = m1(s + of_int beg := tmp)
        in strrev_loop m2 s (beg + 1) (fin - 1)
      else m)"
  by pat_completeness auto
termination
  by (relation "measure (\<lambda>(m, s, beg, fin). nat (fin - beg))") auto

declare strrev_loop.simps [simp del]

definition strrev :: "mem \<Rightarrow> u32 \<Rightarrow> mem option" where
  "strrev m s = map_option (\<lambda>len. strrev_loop m s 0 (sint (len - 1))) (strlen (ptr m s))"

section \<open>itoa\<close>

definition itoa_lookup :: "nat \<Rightarrow> u8 option" where
  "itoa_lookup i =
     (if i < 37 then Some (lit ''0123456789ABCDEFGHIJKLMNOPQRSTUVWXYZ'' i) else None)"

text \<open>
  \<^term>\<open>None\<close>: the division by a zero radix traps, a radix above 37 can index past the lookup
  table, or the loop never ends (radix 1).
\<close>

partial_function (option) itoa_loop :: "mem \<Rightarrow> u32 \<Rightarrow> u32 \<Rightarrow> u32 \<Rightarrow> (mem \<times> u32) option" where
  "itoa_loop m newbuf newval radix =
     (if newval > 0 then
        (if radix = 0 then None
         else case itoa_lookup (unat (newval mod radix)) of
             None \<Rightarrow> None
           | Some d \<Rightarrow> itoa_loop (m(newbuf := d)) (newbuf + 1) (newval div radix) radix)
      else Some (m, newbuf))"

definition itoa :: "mem \<Rightarrow> u32 \<Rightarrow> u32 \<Rightarrow> i32 \<Rightarrow> mem option" where
  "itoa m value buf radix =
     (if value = 0 then Some (m(buf := 0x30, buf + 1 := 0))
      else case itoa_loop m buf value radix of
          None \<Rightarrow> None
        | Some (m', newbuf) \<Rightarrow> strrev (m'(newbuf := 0)) buf)"

section \<open>strncmp\<close>

function strncmp_from :: "bytes \<Rightarrow> bytes \<Rightarrow> nat \<Rightarrow> nat \<Rightarrow> int" where
  "strncmp_from s1 s2 n i =
     (if i < n then
        (if s1 i \<noteq> s2 i \<or> s1 i = 0 then sint (s1 i) - sint (s2 i)
         else strncmp_from s1 s2 n (Suc i))
      else 0)"
  by pat_completeness auto
termination
  by (relation "measure (\<lambda>(s1, s2, n, i). n - i)") auto

declare strncmp_from.simps [simp del]

definition strncmp :: "bytes \<Rightarrow> bytes \<Rightarrow> u32 \<Rightarrow> i32" where
  "strncmp s1 s2 n = of_int (strncmp_from s1 s2 (unat n) 0)"

section \<open>strcpy and strncpy\<close>

partial_function (option) strcpy_loop :: "(mem \<Rightarrow> bytes) \<Rightarrow> mem \<Rightarrow> u32 \<Rightarrow> nat \<Rightarrow> mem option" where
  "strcpy_loop src m dest i =
     (if src m i \<noteq> 0 then strcpy_loop src (m(dest + of_nat i := src m i)) dest (Suc i)
      else Some (m(dest + of_nat i := 0)))"

definition strcpy :: "(mem \<Rightarrow> bytes) \<Rightarrow> mem \<Rightarrow> u32 \<Rightarrow> mem option" where
  "strcpy src m dest = strcpy_loop src m dest 0"

function strncpy_copy :: "(mem \<Rightarrow> bytes) \<Rightarrow> mem \<Rightarrow> u32 \<Rightarrow> nat \<Rightarrow> nat \<Rightarrow> mem \<times> nat" where
  "strncpy_copy src m dest n i =
     (if src m i \<noteq> 0 \<and> i < n
      then strncpy_copy src (m(dest + of_nat i := src m i)) dest n (Suc i)
      else (m, i))"
  by pat_completeness auto
termination
  by (relation "measure (\<lambda>(src, m, dest, n, i). n - i)") auto

function strncpy_pad :: "mem \<Rightarrow> u32 \<Rightarrow> nat \<Rightarrow> nat \<Rightarrow> mem" where
  "strncpy_pad m dest n i =
     (if i < n then strncpy_pad (m(dest + of_nat i := 0)) dest n (Suc i) else m)"
  by pat_completeness auto
termination
  by (relation "measure (\<lambda>(m, dest, n, i). n - i)") auto

declare strncpy_copy.simps [simp del] strncpy_pad.simps [simp del]

definition strncpy :: "(mem \<Rightarrow> bytes) \<Rightarrow> mem \<Rightarrow> u32 \<Rightarrow> u32 \<Rightarrow> mem" where
  "strncpy src m dest n =
     (case strncpy_copy src m dest (unat n) 0 of (m', i) \<Rightarrow> strncpy_pad m' dest (unat n) i)"

section \<open>C strings\<close>

text \<open>\<open>cstr s bs\<close>: the bytes at \<open>s\<close> are the non-NUL bytes \<open>bs\<close> followed by a NUL.\<close>

definition cstr :: "bytes \<Rightarrow> u8 list \<Rightarrow> bool" where
  "cstr s bs \<longleftrightarrow> (\<forall>i < length bs. s i = bs ! i) \<and> 0 \<notin> set bs \<and> s (length bs) = 0"

lemma cstr_nonzero: "cstr s bs \<Longrightarrow> i < length bs \<Longrightarrow> s i = bs ! i \<and> bs ! i \<noteq> 0"
  unfolding cstr_def by (metis nth_mem)

lemma strlen_from_Some:
  assumes "strlen_from s k = Some n"
  shows "k \<le> n \<and> s n = 0 \<and> (\<forall>i. k \<le> i \<and> i < n \<longrightarrow> s i \<noteq> 0)"
proof (rule strlen_from.raw_induct [OF _ assms,
      where P = "\<lambda>s k n. k \<le> n \<and> s n = 0 \<and> (\<forall>i. k \<le> i \<and> i < n \<longrightarrow> s i \<noteq> 0)"])
  fix f and s :: bytes and k n
  assume IH: "\<And>s k n. f s k = Some n \<Longrightarrow> k \<le> n \<and> s n = 0 \<and> (\<forall>i. k \<le> i \<and> i < n \<longrightarrow> s i \<noteq> 0)"
    and eq: "(if s k \<noteq> 0 then f s (Suc k) else Some k) = Some n"
  show "k \<le> n \<and> s n = 0 \<and> (\<forall>i. k \<le> i \<and> i < n \<longrightarrow> s i \<noteq> 0)"
  proof (cases "s k = 0")
    case False
    with eq have "f s (Suc k) = Some n" by simp
    from IH [OF this] False show ?thesis by (metis Suc_le_eq le_less)
  qed (use eq in auto)
qed

lemma strlen_from_reaches:
  "k \<le> n \<Longrightarrow> s n = 0 \<Longrightarrow> (\<And>i. k \<le> i \<Longrightarrow> i < n \<Longrightarrow> s i \<noteq> 0) \<Longrightarrow> strlen_from s k = Some n"
proof (induction "n - k" arbitrary: k)
  case 0
  then show ?case by (simp add: strlen_from.simps)
next
  case (Suc d)
  then have "strlen_from s (Suc k) = Some n" by simp
  moreover have "s k \<noteq> 0" using Suc by simp
  ultimately show ?case by (subst strlen_from.simps) simp
qed

lemma strlen_cstr: "cstr s bs \<Longrightarrow> strlen s = Some (of_nat (length bs))"
  unfolding strlen_def
  by (subst strlen_from_reaches [where n = "length bs"]) (auto simp: cstr_def dest: nth_mem)

lemma strlen_None_iff: "strlen s = None \<longleftrightarrow> (\<forall>i. s i \<noteq> 0)"
proof
  assume none: "strlen s = None"
  show "\<forall>i. s i \<noteq> 0"
  proof (rule ccontr)
    assume "\<not> ?thesis"
    then have z: "s (LEAST i. s i = 0) = 0" by (auto intro: LeastI)
    have "strlen_from s 0 = Some (LEAST i. s i = 0)"
      by (rule strlen_from_reaches) (use z in \<open>auto dest: not_less_Least\<close>)
    with none show False by (simp add: strlen_def)
  qed
next
  assume "\<forall>i. s i \<noteq> 0"
  then show "strlen s = None"
    by (cases "strlen_from s 0") (auto simp: strlen_def dest: strlen_from_Some)
qed


section \<open>strncmp decides equality of bounded strings\<close>

lemma sint_eq_iff: "sint (a :: u8) = sint b \<longleftrightarrow> a = b"
  by (metis of_int_sint scast_id)

lemma strncmp_from_eq_0:
  "strncmp_from s1 s2 n i = 0 \<longleftrightarrow>
     (\<forall>k. i \<le> k \<and> k < n \<and> (\<forall>j. i \<le> j \<and> j < k \<longrightarrow> s1 j \<noteq> 0) \<longrightarrow> s1 k = s2 k)"
proof (induction s1 s2 n i rule: strncmp_from.induct)
  case (1 s1 s2 n i)
  show ?case
  proof (cases "i < n \<and> s1 i = s2 i \<and> s1 i \<noteq> 0")
    case True
    with 1 have "strncmp_from s1 s2 n i = 0 \<longleftrightarrow>
        (\<forall>k. Suc i \<le> k \<and> k < n \<and> (\<forall>j. Suc i \<le> j \<and> j < k \<longrightarrow> s1 j \<noteq> 0) \<longrightarrow> s1 k = s2 k)"
      by (subst strncmp_from.simps) auto
    also have "\<dots> \<longleftrightarrow> (\<forall>k. i \<le> k \<and> k < n \<and> (\<forall>j. i \<le> j \<and> j < k \<longrightarrow> s1 j \<noteq> 0) \<longrightarrow> s1 k = s2 k)"
      using True by (metis Suc_le_eq le_less)
    finally show ?thesis .
  next
    case False
    then consider "\<not> i < n" | "i < n" "s1 i \<noteq> s2 i" | "i < n" "s1 i = 0" "s2 i = 0" by metis
    then show ?thesis
    proof cases
      case 2
      then have "strncmp_from s1 s2 n i \<noteq> 0"
        by (subst strncmp_from.simps) (simp add: sint_eq_iff)
      with 2 show ?thesis by auto
    next
      case 3
      then have "strncmp_from s1 s2 n i = 0" by (subst strncmp_from.simps) simp
      with 3 show ?thesis by (metis le_less)
    qed (auto simp: strncmp_from.simps)
  qed
qed

lemma strncmp_from_range: "\<bar>strncmp_from s1 s2 n i\<bar> < 256"
proof (induction s1 s2 n i rule: strncmp_from.induct)
  case (1 s1 s2 n i)
  have "- 128 \<le> sint x \<and> sint x < 128" for x :: u8
    using sint_greater_eq [of x] sint_lt [of x] by simp
  from this [of "s1 i"] this [of "s2 i"] 1 show ?case
    by (subst strncmp_from.simps) auto
qed

lemma strncmp_eq_0:
  "strncmp s1 s2 n = 0 \<longleftrightarrow> (\<forall>k < unat n. (\<forall>j < k. s1 j \<noteq> 0) \<longrightarrow> s1 k = s2 k)"
proof -
  have "strncmp s1 s2 n = 0 \<longleftrightarrow> strncmp_from s1 s2 (unat n) 0 = 0"
    using strncmp_from_range [of s1 s2 "unat n" 0]
    by (auto simp: strncmp_def word_of_int_eq_0_iff dest: dvd_imp_le_int)
  then show ?thesis by (simp add: strncmp_from_eq_0) blast
qed

text \<open>On C strings short enough, \<open>strncmp\<close> is zero exactly on equal strings.\<close>

lemma strncmp_cstr_eq_0:
  assumes "cstr s1 xs" and "cstr s2 ys" and "length xs < unat n"
  shows "strncmp s1 s2 n = 0 \<longleftrightarrow> xs = ys"
proof
  assume "strncmp s1 s2 n = 0"
  then have eq: "s1 k = s2 k" if "k \<le> length xs" for k
    using that assms cstr_nonzero [OF assms(1)] by (auto simp: strncmp_eq_0)
  have "length xs = length ys"
  proof (rule ccontr)
    assume "length xs \<noteq> length ys"
    then consider "length ys < length xs" | "length xs < length ys" by linarith
    then show False
      using eq [of "length xs"] eq [of "length ys"] cstr_nonzero [OF assms(1)] cstr_nonzero [OF assms(2)]
        assms(1,2) unfolding cstr_def by cases (metis less_imp_le, metis le_refl)
  qed
  then show "xs = ys"
    using eq cstr_nonzero [OF assms(1)] cstr_nonzero [OF assms(2)]
    by (metis less_imp_le nth_equalityI)
next
  assume "xs = ys"
  have "s1 k = s2 k" if "\<forall>j<k. s1 j \<noteq> 0" for k
  proof -
    have "k \<le> length xs" using that assms(1) by (auto simp: cstr_def not_less [symmetric])
    then show ?thesis using assms(1,2) \<open>xs = ys\<close> by (cases "k = length xs") (auto simp: cstr_def)
  qed
  then show "strncmp s1 s2 n = 0" unfolding strncmp_eq_0 by blast
qed


section \<open>strncpy copies the string and pads it\<close>

definition str_field :: "bytes \<Rightarrow> nat \<Rightarrow> u8 list" where
  "str_field b n =
     (let cs = takeWhile (\<lambda>x. x \<noteq> 0) (map b [0..<n]) in cs @ replicate (n - length cs) 0)"

lemma length_takeWhile_le: "length (takeWhile P xs) \<le> length xs"
  by (induction xs) auto

lemma length_str_field [simp]: "length (str_field b n) = n"
  using length_takeWhile_le [of "\<lambda>x. x \<noteq> 0" "map b [0..<n]"] by (simp add: str_field_def Let_def)

lemma strncpy_pad_eq:
  "i \<le> n \<Longrightarrow> strncpy_pad m dest n i = store_bytes m (dest + of_nat i) (replicate (n - i) 0)"
proof (induction "n - i" arbitrary: m i)
  case (Suc d)
  then have "i < n" and d: "n - i = Suc (n - Suc i)" by auto
  have "strncpy_pad m dest n i = strncpy_pad (m(dest + of_nat i := 0)) dest n (Suc i)"
    using \<open>i < n\<close> by (subst strncpy_pad.simps) simp
  with Suc d show ?case by (simp add: ac_simps)
qed (simp add: strncpy_pad.simps)

lemma strncpy_copy_const:
  "i \<le> n \<Longrightarrow> strncpy_copy (\<lambda>_. b) m dest n i =
     (let cs = takeWhile (\<lambda>x. x \<noteq> 0) (map b [i..<n])
      in (store_bytes m (dest + of_nat i) cs, i + length cs))"
proof (induction "n - i" arbitrary: m i)
  case (Suc d)
  then have "i < n" and up: "[i..<n] = i # [Suc i..<n]" by (auto simp: upt_conv_Cons)
  show ?case
  proof (cases "b i = 0")
    case False
    have "strncpy_copy (\<lambda>_. b) m dest n i =
        strncpy_copy (\<lambda>_. b) (m(dest + of_nat i := b i)) dest n (Suc i)"
      using \<open>i < n\<close> False by (subst strncpy_copy.simps) simp
    with Suc False up \<open>i < n\<close> show ?thesis by (simp add: Let_def ac_simps)
  qed (simp add: strncpy_copy.simps up)
qed (simp add: strncpy_copy.simps)

lemma strncpy_const_eq: "strncpy (\<lambda>_. b) m dest n = store_bytes m dest (str_field b (unat n))"
proof -
  let ?cs = "takeWhile (\<lambda>x. x \<noteq> 0) (map b [0..<unat n])"
  have "length ?cs \<le> unat n" using length_takeWhile_le [of _ "map b [0..<unat n]"] by simp
  then show ?thesis
    by (simp add: strncpy_def strncpy_copy_const [of 0, simplified] Let_def strncpy_pad_eq
        str_field_def store_bytes_append)
qed

text \<open>A source run that the destination does not overlap may be read up front.\<close>

lemma strncpy_copy_ptr:
  assumes "disjoint_runs dest n a n" and "\<forall>k<n. m (a + of_nat k) = m0 (a + of_nat k)"
  shows "strncpy_copy (\<lambda>m. ptr m a) m dest n i = strncpy_copy (\<lambda>_. ptr m0 a) m dest n i"
  using assms(2)
proof (induction "n - i" arbitrary: m i)
  case (Suc d)
  then have "i < n" by simp
  let ?m = "m(dest + of_nat i := m (a + of_nat i))"
  have keep: "\<forall>k<n. ?m (a + of_nat k) = m0 (a + of_nat k)"
    using Suc.prems disjoint_runsD [OF assms(1) \<open>i < n\<close>] by (metis fun_upd_apply)
  have "strncpy_copy (\<lambda>m. ptr m a) ?m dest n (Suc i) = strncpy_copy (\<lambda>_. ptr m0 a) ?m dest n (Suc i)"
    using Suc.hyps(2) by (intro Suc.hyps(1) keep) simp
  then show ?case
    using \<open>i < n\<close> Suc.prems
    by (simp add: strncpy_copy.simps [of _ m] ptr_def)
qed (simp add: strncpy_copy.simps)

lemma strncpy_ptr_eq:
  assumes "disjoint_runs dest (unat n) a (unat n)"
  shows "strncpy (\<lambda>m. ptr m a) m dest n = store_bytes m dest (str_field (ptr m a) (unat n))"
  using strncpy_copy_ptr [OF assms, of m m 0] strncpy_const_eq [of "ptr m a" m dest n]
  by (simp add: strncpy_def)

lemma nth_str_field:
  assumes "i < n"
  shows "str_field b n ! i = (if \<forall>j\<le>i. b j \<noteq> 0 then b i else 0)"
proof -
  let ?xs = "map b [0..<n]" and ?P = "\<lambda>x::u8. x \<noteq> 0"
  let ?cs = "takeWhile ?P ?xs"
  have le: "length ?cs \<le> n" using length_takeWhile_le [of ?P ?xs] by simp
  have inside: "b j \<noteq> 0" if "j < length ?cs" for j
  proof -
    have "?cs ! j \<in> set ?cs" using that by (rule nth_mem)
    then have "?cs ! j \<noteq> 0" by (blast dest: set_takeWhileD)
    then show ?thesis using that le by (simp add: takeWhile_nth)
  qed
  have stop: "b (length ?cs) = 0" if "length ?cs < n"
    using nth_length_takeWhile [of ?P ?xs] that by simp
  show ?thesis
  proof (cases "i < length ?cs")
    case True
    then show ?thesis using le inside
      by (auto simp: str_field_def Let_def nth_append takeWhile_nth)
  next
    case False
    then have z: "b (length ?cs) = 0" "length ?cs \<le> i" using stop assms by linarith+
    then have nz: "\<not> (\<forall>j\<le>i. b j \<noteq> 0)" by blast
    have "str_field b n ! i = 0"
      using False assms by (simp add: str_field_def Let_def nth_append)
    then show ?thesis by (simp only: nz if_False)
  qed
qed

section \<open>Properties\<close>

text \<open>\<open>strlen\<close> returns exactly when the string has a NUL byte, and it returns the distance to the
  first one.\<close>

theorem strlen_first_nul:
  "strlen s = (if \<exists>k. s k = 0 then Some (of_nat (LEAST k. s k = 0)) else None)"
proof (cases "\<exists>k. s k = 0")
  case True
  then have "s (LEAST k. s k = 0) = 0" by (rule LeastI_ex)
  moreover have "s i \<noteq> 0" if "i < (LEAST k. s k = 0)" for i using that by (rule not_less_Least)
  ultimately have "strlen_from s 0 = Some (LEAST k. s k = 0)"
    using strlen_from_reaches [of 0 "LEAST k. s k = 0" s] by blast
  with True show ?thesis by (simp add: strlen_def)
next
  case False
  then show ?thesis using strlen_None_iff [of s] by auto
qed

end
