(* ===== verification/Lib_Itoa.thy ===== *)
theory Lib_Itoa
  imports Lib_String
begin

text \<open>
  Correctness of \<open>strrev\<close> and \<open>itoa\<close> of \<^verbatim>\<open>student-distrib/lib.c\<close>: the in-place reversal
  reverses, the conversion terminates for every radix from 2 to 36 and leaves the numeral of
  the value in the buffer, and the buffers of \<open>printf\<close> are long enough.
\<close>

section \<open>strrev reverses in place\<close>

lemma of_int_u32_inj:
  assumes "0 \<le> i" "i < 2 ^ 32" "0 \<le> j" "j < 2 ^ 32"
  shows "(of_int i :: u32) = of_int j \<longleftrightarrow> i = j"
  using assms by (simp add: word_of_int_eq_iff take_bit_int_eq_self)

lemma strrev_loop_step:
  "b < e \<Longrightarrow> strrev_loop m s b e =
     strrev_loop (m(s + of_int e := m (s + of_int b), s + of_int b := m (s + of_int e))) s (b + 1) (e - 1)"
  by (subst strrev_loop.simps) (simp add: Let_def)

lemma strrev_loop_stop: "\<not> b < e \<Longrightarrow> strrev_loop m s b e = m"
  by (subst strrev_loop.simps) simp

lemma strrev_loop_outside:
  "(\<And>k. b \<le> k \<Longrightarrow> k \<le> e \<Longrightarrow> x \<noteq> s + of_int k) \<Longrightarrow> strrev_loop m s b e x = m x"
proof (induction "nat (e - b)" arbitrary: m b e rule: less_induct)
  case less
  show ?case
  proof (cases "b < e")
    case True
    have "x \<noteq> s + of_int b" "x \<noteq> s + of_int e"
      using less.prems [of b] less.prems [of e] True by auto
    then have "strrev_loop m s b e x =
        (m(s + of_int e := m (s + of_int b), s + of_int b := m (s + of_int e))) x"
      unfolding strrev_loop_step [OF True]
      using True less.prems by (intro less.hyps) auto
    with \<open>x \<noteq> s + of_int b\<close> \<open>x \<noteq> s + of_int e\<close> show ?thesis by simp
  qed (simp add: strrev_loop_stop)
qed

lemma strrev_loop_inside:
  "0 \<le> b \<Longrightarrow> e < 2 ^ 32 \<Longrightarrow> b \<le> k \<Longrightarrow> k \<le> e \<Longrightarrow>
     strrev_loop m s b e (s + of_int k) = m (s + of_int (b + e - k))"
proof (induction "nat (e - b)" arbitrary: m b e rule: less_induct)
  case less
  show ?case
  proof (cases "b < e")
    case True
    let ?m2 = "m(s + of_int e := m (s + of_int b), s + of_int b := m (s + of_int e))"
    have inj: "s + of_int i \<noteq> s + (of_int j :: u32)" if "b \<le> i" "i \<le> e" "b \<le> j" "j \<le> e" "i \<noteq> j" for i j
      using that less.prems of_int_u32_inj [of i j] by simp
    consider "k = b" | "k = e" | "b < k" "k < e" using less.prems True by linarith
    then show ?thesis
    proof cases
      case 3
      have "strrev_loop ?m2 s (b + 1) (e - 1) (s + of_int k) = ?m2 (s + of_int (b + 1 + (e - 1) - k))"
        using 3 less.prems True by (intro less.hyps) auto
      also have "b + 1 + (e - 1) - k = b + e - k" by simp
      also have "?m2 (s + of_int (b + e - k)) = m (s + of_int (b + e - k))"
        using inj [of "b + e - k" b] inj [of "b + e - k" e] 3 by (simp del: of_int_add of_int_diff)
      finally show ?thesis by (simp only: strrev_loop_step [OF True])
    next
      case 1
      have "strrev_loop ?m2 s (b + 1) (e - 1) (s + of_int k) = ?m2 (s + of_int k)"
        using 1 True by (intro strrev_loop_outside inj) auto
      with 1 show ?thesis by (simp add: strrev_loop_step [OF True])
    next
      case 2
      have "strrev_loop ?m2 s (b + 1) (e - 1) (s + of_int k) = ?m2 (s + of_int k)"
        using 2 True by (intro strrev_loop_outside inj) auto
      with 2 show ?thesis using inj [of e b] True by (simp add: strrev_loop_step [OF True])
    qed
  next
    case False
    with less.prems have "k = b" "e = b" by auto
    then show ?thesis by (simp add: strrev_loop_stop)
  qed
qed

lemma strrev_cstr:
  assumes "cstr (ptr m s) bs" and "length bs < 2 ^ 31"
  shows "\<exists>m'. strrev m s = Some m' \<and> cstr (ptr m' s) (rev bs) \<and>
    (\<forall>x. (\<forall>i < length bs. x \<noteq> s + of_nat i) \<longrightarrow> m' x = m x)"
proof -
  let ?n = "int (length bs)"
  let ?m = "strrev_loop m s 0 (?n - 1)"
  have "sint (of_nat (length bs) - 1 :: u32) = ?n - 1"
  proof -
    have "of_nat (length bs) - 1 = (of_int (?n - 1) :: u32)" by simp
    then show ?thesis using assms(2)
      by (simp only: signed_of_int) (auto simp: signed_take_bit_int_eq_self_iff)
  qed
  then have run: "strrev m s = Some ?m"
    by (simp add: strrev_def strlen_cstr [OF assms(1)])
  have inside: "?m (s + of_nat i) = rev bs ! i" if "i < length bs" for i
  proof -
    have "?m (s + of_int (int i)) = m (s + of_int (0 + (?n - 1) - int i))"
      using that assms(2) by (intro strrev_loop_inside) auto
    also have "0 + (?n - 1) - int i = int (length bs - Suc i)" using that by auto
    finally have "?m (s + of_nat i) = ptr m s (length bs - Suc i)" by (simp add: ptr_def)
    also have "\<dots> = bs ! (length bs - Suc i)" using that assms(1) by (simp add: cstr_def)
    finally show ?thesis using that by (simp add: rev_nth)
  qed
  have outside: "?m x = m x" if "\<forall>i < length bs. x \<noteq> s + of_nat i" for x
  proof (rule strrev_loop_outside)
    fix k assume "0 \<le> k" "k \<le> ?n - 1"
    then show "x \<noteq> s + of_int k"
      using that [rule_format, of "nat k"] by (simp add: of_nat_nat)
  qed
  have "?m (s + of_nat (length bs)) = m (s + of_nat (length bs))"
    using assms(2) by (intro outside) (auto simp: of_nat_u32_inj)
  then have "cstr (ptr ?m s) (rev bs)"
    using assms(1) inside by (auto simp: cstr_def ptr_def)
  with run outside show ?thesis by blast
qed


section \<open>itoa prints the numeral\<close>

text \<open>The reference numeral: digits by repeated division, least significant first.\<close>

function digits_rev :: "nat \<Rightarrow> nat \<Rightarrow> nat list" where
  "digits_rev r n = (if n = 0 \<or> r < 2 then [] else n mod r # digits_rev r (n div r))"
  by pat_completeness auto
termination
  by (relation "measure snd") auto

declare digits_rev.simps [simp del]

definition digit_char :: "nat \<Rightarrow> u8" where
  "digit_char d = lit ''0123456789ABCDEFGHIJKLMNOPQRSTUVWXYZ'' d"

definition numeral_str :: "nat \<Rightarrow> nat \<Rightarrow> u8 list" where
  "numeral_str r n = (if n = 0 then [0x30] else map digit_char (rev (digits_rev r n)))"

text \<open>The value of a digit string, reading characters back.\<close>

definition char_digit :: "u8 \<Rightarrow> nat" where
  "char_digit c = (if c < 0x41 then unat c - 0x30 else unat c - 0x37)"

definition numeral_value :: "nat \<Rightarrow> u8 list \<Rightarrow> nat" where
  "numeral_value r cs = foldl (\<lambda>acc c. acc * r + char_digit c) 0 cs"

lemma all_less_36: "(\<forall>d<36. P d) \<longleftrightarrow> (\<forall>d\<in>set [0..<36]. P (d::nat))"
  by auto

lemma digit_char_props: "d < 36 \<Longrightarrow> digit_char d \<noteq> 0 \<and> char_digit (digit_char d) = d"
proof -
  have "\<forall>d<36. digit_char d \<noteq> 0 \<and> char_digit (digit_char d) = d"
    unfolding all_less_36 by (simp add: upt_rec digit_char_def lit_def char_digit_def)
  then show "d < 36 \<Longrightarrow> ?thesis" by blast
qed

lemma itoa_lookup_digit: "d < 36 \<Longrightarrow> itoa_lookup d = Some (digit_char d)"
  by (simp add: itoa_lookup_def digit_char_def)

lemma digits_rev_less: "d \<in> set (digits_rev r n) \<Longrightarrow> d < r"
proof (induction r n rule: digits_rev.induct)
  case (1 r n)
  then show ?case by (auto simp: digits_rev.simps [of r n] split: if_splits)
qed

lemma digits_rev_nonempty: "2 \<le> r \<Longrightarrow> n \<noteq> 0 \<Longrightarrow> digits_rev r n \<noteq> []"
  by (simp add: digits_rev.simps [of r n])

lemma digits_rev_value: "2 \<le> r \<Longrightarrow> foldr (\<lambda>d acc. acc * r + d) (digits_rev r n) 0 = n"
proof (induction r n rule: digits_rev.induct)
  case (1 r n)
  then show ?case
    by (cases "n = 0") (simp_all add: digits_rev.simps [of r n] digits_rev.simps [of r 0])
qed

lemma digits_rev_length: "2 \<le> r \<Longrightarrow> n \<noteq> 0 \<Longrightarrow> r ^ (length (digits_rev r n) - 1) \<le> n"
proof (induction r n rule: digits_rev.induct)
  case (1 r n)
  show ?case
  proof (cases "n div r = 0")
    case True
    then have "digits_rev r n = [n mod r]"
      using 1 by (simp add: digits_rev.simps [of r n] digits_rev.simps [of r 0])
    with "1.prems" show ?thesis by simp
  next
    case False
    then have IH: "r ^ (length (digits_rev r (n div r)) - 1) \<le> n div r"
      using 1 by simp
    obtain k where k: "length (digits_rev r (n div r)) = Suc k"
      using digits_rev_nonempty [of r "n div r"] False "1.prems"
      by (cases "digits_rev r (n div r)") auto
    have "r ^ Suc k \<le> n div r * r" using IH k by simp
    also have "\<dots> \<le> n" by simp
    finally show ?thesis using k "1.prems" by (simp add: digits_rev.simps [of r n])
  qed
qed

lemma digits_rev_length_bound:
  assumes "2 \<le> r" "n < r ^ k" "0 < k"
  shows "length (digits_rev r n) \<le> k"
proof (cases "n = 0")
  case False
  then have "r ^ (length (digits_rev r n) - 1) < r ^ k"
    using digits_rev_length [of r n] assms by (metis le_less_trans)
  then have "length (digits_rev r n) - 1 < k"
    using assms(1) by (metis One_nat_def Suc_1 Suc_le_lessD power_less_imp_less_exp)
  then show ?thesis by simp
qed (simp add: digits_rev.simps)

lemma numeral_value_str: "2 \<le> r \<Longrightarrow> r \<le> 36 \<Longrightarrow> numeral_value r (numeral_str r n) = n"
proof (cases "n = 0")
  case False
  assume r: "2 \<le> r" "r \<le> 36"
  have digits: "map (\<lambda>d. char_digit (digit_char d)) (digits_rev r n) = digits_rev r n"
    using r by (intro map_idI) (auto dest: digits_rev_less simp: digit_char_props)
  have "numeral_value r (numeral_str r n) =
      foldr (\<lambda>d acc. acc * r + d) (map (\<lambda>d. char_digit (digit_char d)) (digits_rev r n)) 0"
    using False by (simp add: numeral_value_def numeral_str_def foldl_map foldl_conv_foldr rev_map foldr_map comp_def)
  with digits digits_rev_value [OF r(1)] show ?thesis by simp
qed (simp add: numeral_value_def numeral_str_def char_digit_def)

lemma itoa_loop_eq:
  fixes v radix :: u32
  assumes "2 \<le> unat radix" "unat radix \<le> 36"
  shows "itoa_loop m nb v radix =
    Some (store_bytes m nb (map digit_char (digits_rev (unat radix) (unat v))),
          nb + of_nat (length (digits_rev (unat radix) (unat v))))"
proof (induction "unat v" arbitrary: m nb v rule: less_induct)
  case less
  show ?case
  proof (cases "v = 0")
    case True
    then show ?thesis by (simp add: itoa_loop.simps digits_rev.simps)
  next
    case False
    then have pos: "0 < unat v" by (simp add: unat_gt_0)
    have r0: "radix \<noteq> 0" using assms by auto
    have "unat (v mod radix) < 36"
      using assms by (simp add: unat_mod_distrib) (metis assms(1) less_le_trans mod_less_divisor not_numeral_le_zero zero_less_iff_neq_zero)
    then have lk: "itoa_lookup (unat (v mod radix)) = Some (digit_char (unat (v mod radix)))"
      by (rule itoa_lookup_digit)
    have "unat (v div radix) < unat v"
      using pos assms by (simp add: unat_div_distrib)
    from less [OF this, of "m(nb := digit_char (unat (v mod radix)))" "nb + 1"]
    show ?thesis
      using False r0 lk pos assms
      by (simp add: itoa_loop.simps [of m nb v] digits_rev.simps [of "unat radix" "unat v"]
          unat_mod_distrib unat_div_distrib word_gt_0 ac_simps)
  qed
qed


lemma digits_rev_u32_length:
  "2 \<le> r \<Longrightarrow> length (digits_rev r (unat (v :: u32))) \<le> 32"
proof -
  assume "2 \<le> r"
  have "unat v < 2 ^ 32" using unsigned_less [of v, where ?'a = nat] by simp
  also have "(2::nat) ^ 32 \<le> r ^ 32" using \<open>2 \<le> r\<close> by (intro power_mono) auto
  finally show ?thesis using \<open>2 \<le> r\<close> by (intro digits_rev_length_bound) auto
qed

lemma itoa_numeral:
  fixes v radix :: u32
  assumes "2 \<le> unat radix" "unat radix \<le> 36"
  defines "cs \<equiv> numeral_str (unat radix) (unat v)"
  shows "\<exists>m'. itoa m v buf radix = Some m' \<and> cstr (ptr m' buf) cs \<and>
    (\<forall>x. (\<forall>i \<le> length cs. x \<noteq> buf + of_nat i) \<longrightarrow> m' x = m x)"
proof (cases "v = 0")
  case True
  have "x \<noteq> buf \<and> x \<noteq> buf + 1" if "\<forall>i\<le>1. x \<noteq> buf + of_nat i" for x
    using that [rule_format, of 0] that [rule_format, of 1] by simp
  with True show ?thesis
    by (auto simp: itoa_def cs_def numeral_str_def cstr_def ptr_def)
next
  case False
  let ?ds = "digits_rev (unat radix) (unat v)"
  let ?bs = "map digit_char ?ds"
  let ?n = "length ?ds"
  let ?m1 = "(store_bytes m buf ?bs)(buf + of_nat ?n := 0)"
  have v0: "unat v \<noteq> 0" using False by (simp add: unat_eq_0)
  have n: "?n \<le> 32" by (rule digits_rev_u32_length [OF assms(1)])
  have nz: "0 \<notin> set ?bs"
    using digit_char_props assms(2) by (auto dest!: digits_rev_less)
  have inside: "?m1 (buf + of_nat i) = ?bs ! i" if "i < ?n" for i
    using that n store_bytes_inside [of i ?bs m buf] by (simp add: of_nat_u32_inj)
  have str: "cstr (ptr ?m1 buf) ?bs"
    using inside nz by (auto simp: cstr_def ptr_def)
  obtain m' where m': "strrev ?m1 buf = Some m'" "cstr (ptr m' buf) (rev ?bs)"
    "\<forall>x. (\<forall>i < length ?bs. x \<noteq> buf + of_nat i) \<longrightarrow> m' x = ?m1 x"
    using strrev_cstr [OF str] n by auto
  have cs: "cs = rev ?bs" using v0 by (simp add: cs_def numeral_str_def rev_map)
  have "itoa m v buf radix = Some m'"
    using False m'(1) by (simp add: itoa_def itoa_loop_eq [OF assms(1,2)])
  moreover have "m' x = m x" if "\<forall>i \<le> length cs. x \<noteq> buf + of_nat i" for x
  proof -
    have "m' x = ?m1 x" using m'(3) that cs by auto
    also have "\<dots> = m x" using that cs store_bytes_outside [of ?bs x buf m] by auto
    finally show ?thesis .
  qed
  ultimately show ?thesis using m'(2) cs by auto
qed

lemma numeral_str_length:
  "length (numeral_str 10 (unat (v :: u32))) \<le> 10"
  "length (numeral_str 16 (unat v)) \<le> 8"
proof -
  have "unat v < 4294967296" using unsigned_less [of v, where ?'a = nat] by simp
  then have "length (digits_rev 10 (unat v)) \<le> 10" "length (digits_rev 16 (unat v)) \<le> 8"
    by (auto intro!: digits_rev_length_bound)
  then show "length (numeral_str 10 (unat v)) \<le> 10" "length (numeral_str 16 (unat v)) \<le> 8"
    by (auto simp: numeral_str_def)
qed

section \<open>Properties\<close>

text \<open>C18. \<open>itoa\<close> in every radix from 2 to 36 returns, writes a NUL-terminated numeral whose value in
  that radix is the number converted, of at most 32 digits, and writes nothing but the digits
  and the terminator.\<close>

theorem itoa_roundtrip:
  fixes v radix :: u32
  assumes "2 \<le> unat radix" and "unat radix \<le> 36"
  shows "\<exists>m' cs. itoa m v buf radix = Some m' \<and> cstr (ptr m' buf) cs \<and>
    numeral_value (unat radix) cs = unat v \<and> cs \<noteq> [] \<and> length cs \<le> 32 \<and>
    (\<forall>x. x \<notin> (\<lambda>i. buf + of_nat i) ` {..length cs} \<longrightarrow> m' x = m x)"
proof -
  let ?cs = "numeral_str (unat radix) (unat v)"
  obtain m' where "itoa m v buf radix = Some m'" "cstr (ptr m' buf) ?cs"
    "\<forall>x. (\<forall>i \<le> length ?cs. x \<noteq> buf + of_nat i) \<longrightarrow> m' x = m x"
    using itoa_numeral [OF assms] by blast
  moreover have "length ?cs \<le> 32" "?cs \<noteq> []"
    using digits_rev_u32_length [OF assms(1), of v] digits_rev_nonempty [OF assms(1), of "unat v"]
    by (auto simp: numeral_str_def)
  ultimately show ?thesis using numeral_value_str [OF assms] by (intro exI [of _ m'] exI [of _ ?cs]) auto
qed

theorem itoa_roundtrip_witness:
  "\<exists>m' cs. itoa (\<lambda>_. 0) 391 0x5000 16 = Some m' \<and> cstr (ptr m' 0x5000) cs \<and> numeral_value 16 cs = 391"
proof -
  have "2 \<le> unat (16 :: u32)" and "unat (16 :: u32) \<le> 36" by simp_all
  from itoa_roundtrip [OF this, of "\<lambda>_. 0" 391 "0x5000"] show ?thesis by simp blast
qed

end
