(* ===== verification/Console.thy ===== *)
theory Console
  imports Rtc Lib_Itoa
begin

text \<open>
  The text console of \<^verbatim>\<open>student-distrib/lib.c\<close>: \<open>clear\<close>, \<open>clear_set\<close>, \<open>enable_cursor\<close>,
  \<open>delete\<close>, \<open>change_terminal_cursor\<close>, \<open>putc\<close>, \<open>puts\<close>, \<open>printf\<close> and \<open>test_interrupts\<close>, on the
  terminals of \<^verbatim>\<open>pcb.h\<close>. The visible terminal is drawn in the video page at
  \<^verbatim>\<open>0xB8000\<close>, the others in their own pages. An array index outside the array is the
  memory that follows it, so arrays are total functions here, and the theorems show that
  the indices stay inside.
\<close>

record terminal_t =
  pcb :: u32
  screen_x :: u32
  screen_y :: u32

record console = rtc +
  terminal :: "u8 \<Rightarrow> terminal_t"
  current_terminal :: u8
  curr_scheduler :: u8

abbreviation VIDEO :: u32 where "VIDEO \<equiv> 0xB8000"
abbreviation ATTRIB :: u8 where "ATTRIB \<equiv> 7"
abbreviation ASCII_SPACE :: u8 where "ASCII_SPACE \<equiv> 0x20"
abbreviation NEWLINE :: u8 where "NEWLINE \<equiv> 0x0A"
abbreviation CARRIAGE_RETURN :: u8 where "CARRIAGE_RETURN \<equiv> 0x0D"

definition vid_page :: "u8 \<Rightarrow> u32" where
  "vid_page t = (if t = 0 then 0xB9000 else if t = 1 then 0xBA000 else if t = 2 then 0xBB000 else 0)"

section \<open>Cells of a page\<close>

definition cell :: "u32 \<Rightarrow> u32 \<Rightarrow> u32" where
  "cell base k = base + push_bit 1 k"

definition draw :: "u32 \<Rightarrow> u32 \<Rightarrow> u8 \<Rightarrow> mem \<Rightarrow> mem" where
  "draw base k c m = m(cell base k := c, cell base k + 1 := ATTRIB)"

definition clear :: "'a console_scheme \<Rightarrow> 'a console_scheme" where
  "clear s = s\<lparr>mem := fold (\<lambda>i. draw VIDEO (of_nat i) ASCII_SPACE) [0..<25 * 80] (mem s)\<rparr>"

text \<open>The four port writes that move the hardware cursor to a position.\<close>

definition set_hw_cursor :: "u16 \<Rightarrow> 'a console_scheme \<Rightarrow> 'a console_scheme" where
  "set_hw_cursor pos s0 =
     (let s = outb 0x0F 0x3D4 s0;
          s = outb (ucast (pos AND 0xFF)) 0x3D5 s;
          s = outb 0x0E 0x3D4 s
      in outb (ucast (drop_bit 8 pos AND 0xFF)) 0x3D5 s)"

definition cursor_pos :: "terminal_t \<Rightarrow> u16" where
  "cursor_pos t = ucast (screen_y t * 80 + screen_x t)"

definition clear_set :: "'a console_scheme \<Rightarrow> 'a console_scheme" where
  "clear_set s0 =
     (let t = (terminal s0 (current_terminal s0))\<lparr>screen_x := 0, screen_y := 0\<rparr>;
          s = s0\<lparr>terminal := (terminal s0)(current_terminal s0 := t)\<rparr>
      in set_hw_cursor (cursor_pos t) s)"

definition enable_cursor :: "u8 \<Rightarrow> u8 \<Rightarrow> 'a console_scheme \<Rightarrow> 'a console_scheme" where
  "enable_cursor cursor_start cursor_end s0 =
     (let s = outb 0x0A 0x3D4 s0;
          (v, s) = inb 0x3D5 s;
          s = outb ((ucast v AND 0xC0) OR cursor_start) 0x3D5 s;
          s = outb 0x0B 0x3D4 s;
          (v, s) = inb 0x3D5 s
      in outb ((ucast v AND 0xE0) OR cursor_end) 0x3D5 s)"

text \<open>
  \<open>delete\<close> steps the cursor back in its row only and blanks the cell there, at \<open>delete_addr\<close>. For a cursor
  in the top left corner that address is below the screen, where \<open>paging_init\<close> maps no page:
  \<open>delete\<close> is the function where its two writes do not fault; \<open>keyboard_interrupt\<close> has the fault.
\<close>

definition delete_addr :: "'a console_scheme \<Rightarrow> u32" where
  "delete_addr s = (let t = terminal s (current_terminal s) in cell VIDEO (80 * screen_y t + (screen_x t - 1)))"

definition delete :: "'a console_scheme \<Rightarrow> 'a console_scheme" where
  "delete s0 =
     (let ct = current_terminal s0;
          t = (terminal s0 ct)\<lparr>screen_x := screen_x (terminal s0 ct) - 1\<rparr>;
          s = s0\<lparr>terminal := (terminal s0)(ct := t),
                 mem := draw VIDEO (80 * screen_y t + screen_x t) 0 (mem s0)\<rparr>
      in set_hw_cursor (cursor_pos t) s)"

definition change_terminal_cursor :: "u16 \<Rightarrow> 'a console_scheme \<Rightarrow> u16 \<times> 'a console_scheme" where
  "change_terminal_cursor new_cursor s =
     (0, set_hw_cursor (cursor_pos (terminal s (ucast new_cursor))) s)"

definition test_interrupts :: "'a console_scheme \<Rightarrow> 'a console_scheme" where
  "test_interrupts s =
     s\<lparr>mem := fold (\<lambda>i m. m(cell VIDEO (of_nat i) := m (cell VIDEO (of_nat i)) + 1)) [0..<25 * 80] (mem s)\<rparr>"

section \<open>putc\<close>

text \<open>The newline's loop \<^verbatim>\<open>while(screen_x > NUM_COLS)\<close>.\<close>

function wrap_rows :: "u32 \<Rightarrow> u32 \<Rightarrow> u32 \<times> u32" where
  "wrap_rows x y = (if x > 80 then wrap_rows (x - 80) (y + 1) else (x, y))"
  by pat_completeness auto
termination
  by (relation "measure (\<lambda>(x, y). unat x)") (auto simp: unat_sub word_less_nat_alt word_le_nat_alt)

declare wrap_rows.simps [simp del]

definition scroll_row :: "u32 \<Rightarrow> nat \<Rightarrow> mem \<Rightarrow> mem" where
  "scroll_row base i m =
     fold (\<lambda>j m. draw base (of_nat (80 * i + j)) (m (cell base (of_nat (80 * (i + 1) + j)))) m) [0..<80] m"

definition scroll :: "u32 \<Rightarrow> mem \<Rightarrow> mem" where
  "scroll base m =
     fold (\<lambda>j. draw base (of_nat (80 * (25 - 1) + j)) ASCII_SPACE) [0..<80]
       (fold (scroll_row base) [0..<25 - 1] m)"

text \<open>What both branches of \<open>putc\<close> do, on the page and the terminal of the branch.\<close>

definition put_glyph :: "u32 \<Rightarrow> u8 \<Rightarrow> terminal_t \<times> mem \<Rightarrow> terminal_t \<times> mem" where
  "put_glyph base c tm =
     (case tm of (t, m) \<Rightarrow>
        if c = NEWLINE \<or> c = CARRIAGE_RETURN then
          let (x, y) = wrap_rows (screen_x t) (screen_y t)
          in (t\<lparr>screen_y := y + 1, screen_x := 0\<rparr>, m)
        else
          (t\<lparr>screen_x := screen_x t + 1\<rparr>, draw base (80 * screen_y t + screen_x t) c m))"

definition scroll_if_full :: "u32 \<Rightarrow> terminal_t \<times> mem \<Rightarrow> terminal_t \<times> mem" where
  "scroll_if_full base tm =
     (case tm of (t, m) \<Rightarrow>
        if screen_y t * 80 + screen_x t \<ge> 80 * 25 then
          ((if screen_y t > 0 then t\<lparr>screen_y := screen_y t - 1\<rparr>
            else t\<lparr>screen_x := screen_x t - 80\<rparr>), scroll base m)
        else (t, m))"

definition putc :: "u8 \<Rightarrow> 'a console_scheme \<Rightarrow> 'a console_scheme" where
  "putc c s =
     (if curr_scheduler s = current_terminal s then
        let ct = current_terminal s;
            (t, m) = scroll_if_full VIDEO (put_glyph VIDEO c (terminal s ct, mem s))
        in set_hw_cursor (cursor_pos t) (s\<lparr>terminal := (terminal s)(ct := t), mem := m\<rparr>)
      else
        let cs = curr_scheduler s;
            (t, m) = scroll_if_full (vid_page cs) (put_glyph (vid_page cs) c (terminal s cs, mem s))
        in s\<lparr>terminal := (terminal s)(cs := t), mem := m\<rparr>)"

section \<open>puts and printf\<close>

text \<open>\<^term>\<open>None\<close>: the string never ends. The string is read while the screen is written.\<close>

partial_function (option) puts_loop :: "u32 \<Rightarrow> nat \<Rightarrow> 'a console_scheme \<Rightarrow> (i32 \<times> 'a console_scheme) option" where
  "puts_loop str index s =
     (if mem s (str + of_nat index) \<noteq> 0
      then puts_loop str (Suc index) (putc (mem s (str + of_nat index)) s)
      else Some (of_nat index, s))"

definition puts :: "u32 \<Rightarrow> 'a console_scheme \<Rightarrow> (i32 \<times> 'a console_scheme) option" where
  "puts str s = puts_loop str 0 s"

text \<open>
  \<open>printf\<close> reads its format, a NUL-terminated literal given here by its characters, and its
  further arguments, the words above the format pointer on the stack. Its conversion buffer
  is a local array at the address \<open>conv_buf\<close>. \<^term>\<open>None\<close>: more conversions than
  arguments, a string without end, or a lone \<open>%\<close> at the end, after which the loop reads
  past the terminator.
\<close>

definition put_hex_padded :: "u32 \<Rightarrow> u32 \<Rightarrow> 'a console_scheme \<Rightarrow> 'a console_scheme option" where
  "put_hex_padded conv_buf v s =
     (case itoa (mem s) v (conv_buf + 8) 16 of
        None \<Rightarrow> None
      | Some m \<Rightarrow> (case strlen (ptr m (conv_buf + 8)) of
            None \<Rightarrow> None
          | Some starting_index \<Rightarrow>
              let m' = fold (\<lambda>i m. m(conv_buf + of_nat i := 0x30)) [unat starting_index..<8] m
              in map_option snd (puts (conv_buf + starting_index) (s\<lparr>mem := m'\<rparr>))))"

definition put_number :: "u32 \<Rightarrow> u32 \<Rightarrow> u32 \<Rightarrow> 'a console_scheme \<Rightarrow> 'a console_scheme option" where
  "put_number conv_buf v radix s =
     (case itoa (mem s) v conv_buf radix of
        None \<Rightarrow> None
      | Some m \<Rightarrow> map_option snd (puts conv_buf (s\<lparr>mem := m\<rparr>)))"

definition put_signed :: "u32 \<Rightarrow> i32 \<Rightarrow> 'a console_scheme \<Rightarrow> 'a console_scheme option" where
  "put_signed conv_buf v s =
     (if sint v < 0 then
        (case itoa ((mem s)(conv_buf := 0x2D)) (- v) (conv_buf + 1) 10 of
           None \<Rightarrow> None
         | Some m \<Rightarrow> map_option snd (puts conv_buf (s\<lparr>mem := m\<rparr>)))
      else put_number conv_buf v 10 s)"

fun printf_loop :: "u32 \<Rightarrow> u8 list \<Rightarrow> bool \<Rightarrow> bool \<Rightarrow> u32 list \<Rightarrow> 'a console_scheme \<Rightarrow> 'a console_scheme option" where
  \<comment> \<open>the outer loop on \<open>*buf\<close>; the second flag is \<open>alternate\<close>\<close>
  "printf_loop cb [] False alt args s = Some s"
| "printf_loop cb (c # fmt) False alt args s =
     (if c = 0x25 then printf_loop cb fmt True False args s
      else printf_loop cb fmt False False args (putc c s))"
  \<comment> \<open>after a \<open>%\<close>: the label \<open>format_char_switch\<close>\<close>
| "printf_loop cb [] True alt args s = None"
| "printf_loop cb (c # fmt) True alt args s =
     (if c = 0x25 then printf_loop cb fmt False False args (putc 0x25 s)
      else if c = 0x23 then printf_loop cb fmt True True args s
      else if c \<in> {0x78, 0x75, 0x64, 0x63, 0x73} then
        (case args of
           [] \<Rightarrow> None
         | a # args' \<Rightarrow>
             (case (if c = 0x78 then (if alt then put_hex_padded cb a s else put_number cb a 16 s)
                    else if c = 0x75 then put_number cb a 10 s
                    else if c = 0x64 then put_signed cb a s
                    else if c = 0x63 then Some (putc (ucast a) s)
                    else map_option snd (puts a s)) of
                None \<Rightarrow> None
              | Some s' \<Rightarrow> printf_loop cb fmt False False args' s'))
      else printf_loop cb fmt False False args s)"

definition bytes_of :: "string \<Rightarrow> u8 list" where
  "bytes_of cs = map (\<lambda>c. of_nat (of_char c)) cs"

definition printf :: "u32 \<Rightarrow> string \<Rightarrow> u32 list \<Rightarrow> 'a console_scheme \<Rightarrow> (i32 \<times> 'a console_scheme) option" where
  "printf cb fmt args s =
     map_option (\<lambda>s'. (of_nat (length fmt), s')) (printf_loop cb (bytes_of fmt) False False args s)"

end
