(* ===== verification/Console_Spec.thy ===== *)
theory Console_Spec
  imports Console
begin

text \<open>
  Correctness of the console of \<open>Console\<close>: drawing stays inside the 4000 bytes of the page,
  the cursor stays on the screen, and \<open>putc\<close> refines an abstract terminal of 2000
  characters and a write position, with scrolling.
\<close>

section \<open>The abstract screen\<close>

definition screen :: "mem \<Rightarrow> u32 \<Rightarrow> u8 list" where
  "screen m base = map (\<lambda>k. m (cell base (of_nat k))) [0..<2000]"

definition in_page :: "u32 \<Rightarrow> u32 \<Rightarrow> bool" where
  "in_page base x \<longleftrightarrow> (\<exists>i < 4000. x = base + of_nat i)"

lemma length_screen [simp]: "length (screen m base) = 2000"
  by (simp add: screen_def)

lemma nth_screen: "k < 2000 \<Longrightarrow> screen m base ! k = m (cell base (of_nat k))"
  by (simp add: screen_def)

lemma cell_of_nat: "cell base (of_nat k) = base + of_nat (2 * k)"
  by (simp add: cell_def push_bit_eq_mult)

lemma cell_eq_iff: "k < 2000 \<Longrightarrow> j < 2000 \<Longrightarrow> cell base (of_nat k) = cell base (of_nat j) \<longleftrightarrow> k = j"
  using of_nat_u32_inj [of "2 * k" "2 * j"] by (simp only: cell_of_nat) auto

lemma cell_attr_neq: "k < 2000 \<Longrightarrow> j < 2000 \<Longrightarrow> cell base (of_nat k) \<noteq> cell base (of_nat j) + 1"
proof -
  assume "k < 2000" "j < 2000"
  then have "(of_nat (2 * k) :: u32) \<noteq> of_nat (2 * j + 1)"
    by (subst of_nat_u32_inj) (auto, presburger)
  then show ?thesis by (simp add: cell_of_nat ac_simps)
qed

lemma cell_in_page: "k < 2000 \<Longrightarrow> in_page base (cell base (of_nat k)) \<and> in_page base (cell base (of_nat k) + 1)"
  unfolding in_page_def cell_of_nat
  by (intro conjI exI [of _ "2 * k"] exI [of _ "2 * k + 1"]) (simp_all add: ac_simps)

lemma draw_outside: "k < 2000 \<Longrightarrow> \<not> in_page base x \<Longrightarrow> draw base (of_nat k) c m x = m x"
  using cell_in_page [of k base] by (auto simp: draw_def)

lemma draw_cell:
  "k < 2000 \<Longrightarrow> j < 2000 \<Longrightarrow>
     draw base (of_nat k) c m (cell base (of_nat j)) = (if j = k then c else m (cell base (of_nat j)))"
  using cell_attr_neq [of j k base] by (auto simp: draw_def cell_eq_iff)

lemma screen_draw: "k < 2000 \<Longrightarrow> screen (draw base (of_nat k) c m) base = (screen m base)[k := c]"
  by (rule nth_equalityI) (auto simp: nth_screen draw_cell nth_list_update)

section \<open>Loops over cells\<close>

text \<open>A loop that draws cells whose new character may depend on cells not drawn yet.\<close>

lemma fold_draw_outside:
  assumes "\<And>k. k \<in> set ks \<Longrightarrow> k < 2000" and "\<not> in_page base x"
  shows "fold (\<lambda>k m. draw base (of_nat k) (f m k) m) ks m x = m x"
  using assms(1) by (induction ks arbitrary: m) (simp_all add: draw_outside [OF _ assms(2)])

lemma fold_draw_const:
  assumes "\<And>k. k \<in> set ks \<Longrightarrow> k < 2000" and "j < 2000"
  shows "fold (\<lambda>k. draw base (of_nat k) c) ks m (cell base (of_nat j)) =
    (if j \<in> set ks then c else m (cell base (of_nat j)))"
  using assms(1) by (induction ks arbitrary: m) (auto simp: draw_cell [OF _ assms(2)])

lemma fold_nested: "fold (\<lambda>i. fold (\<lambda>j. g (w * i + j)) [0..<w]) [0..<n] = fold g [0..<w * n]"
proof (induction n)
  case (Suc n)
  have "[0..<w * n + w] = [0..<w * n] @ [w * n..<w * n + w]"
    by (rule upt_add_eq_append) simp
  moreover have "[w * n..<w * n + w] = map (\<lambda>j. w * n + j) [0..<w]"
    using map_add_upt [of "w * n" w] by (simp add: add.commute)
  ultimately have "fold g [0..<w * Suc n] = fold (\<lambda>j. g (w * n + j)) [0..<w] \<circ> fold g [0..<w * n]"
    by (simp add: fold_map comp_def add.commute [of w])
  then show ?case by (simp add: Suc)
qed simp

lemma shift_loop_cell:
  assumes "n + 80 \<le> 2000" and "j < 2000"
  shows "fold (\<lambda>k m. draw base (of_nat k) (m (cell base (of_nat (k + 80)))) m) [0..<n] m (cell base (of_nat j)) =
    (if j < n then m (cell base (of_nat (j + 80))) else m (cell base (of_nat j)))"
  using assms
proof (induction n arbitrary: j)
  case (Suc n)
  let ?m = "fold (\<lambda>k m. draw base (of_nat k) (m (cell base (of_nat (k + 80)))) m) [0..<n] m"
  have "?m (cell base (of_nat (n + 80))) = m (cell base (of_nat (n + 80)))"
    using Suc.IH [of "n + 80"] Suc.prems by simp
  moreover have "?m (cell base (of_nat j)) =
      (if j < n then m (cell base (of_nat (j + 80))) else m (cell base (of_nat j)))"
    using Suc by simp
  ultimately show ?case
    using Suc.prems by (auto simp: draw_cell less_Suc_eq simp del: of_nat_add)
qed simp

lemma scroll_rows_flat:
  "fold (scroll_row base) [0..<n] m =
     fold (\<lambda>k m. draw base (of_nat k) (m (cell base (of_nat (k + 80)))) m) [0..<80 * n] m"
proof -
  let ?g = "\<lambda>k m. draw base (of_nat k) (m (cell base (of_nat (k + 80)))) m"
  have row: "scroll_row base = (\<lambda>i. fold (\<lambda>j. ?g (80 * i + j)) [0..<80])"
    by (intro ext) (simp only: scroll_row_def, simp add: algebra_simps)
  show ?thesis unfolding row using fold_nested [of ?g 80 n] by metis
qed

lemma fold_offset: "fold (\<lambda>j. g (a + j)) [0..<n] = fold g [a..<a + n]"
  using fold_map [of g "\<lambda>j. j + a" "[0..<n]"] by (simp add: map_add_upt comp_def add.commute)

lemma scroll_flat:
  "scroll base m = fold (\<lambda>k. draw base (of_nat k) ASCII_SPACE) [1920..<1920 + 80]
     (fold (\<lambda>k m. draw base (of_nat k) (m (cell base (of_nat (k + 80)))) m) [0..<1920] m)"
  using fold_offset [of "\<lambda>k. draw base (of_nat k) ASCII_SPACE" 1920 80] scroll_rows_flat [of base 24 m]
  by (simp only: scroll_def) (simp add: upt_rec [of _ "80"])

lemma scroll_cell:
  assumes "j < 2000"
  shows "scroll base m (cell base (of_nat j)) =
    (if j < 1920 then m (cell base (of_nat (j + 80))) else ASCII_SPACE)"
proof -
  have "fold (\<lambda>k. draw base (of_nat k) ASCII_SPACE) [a..<b] m' (cell base (of_nat j)) =
      (if a \<le> j \<and> j < b then ASCII_SPACE else m' (cell base (of_nat j)))" if "b \<le> 2000" for a b m'
    using that assms by (subst fold_draw_const) auto
  from this [of "1920 + 80" 1920] show ?thesis
    using assms shift_loop_cell [of 1920 j base m] unfolding scroll_flat by simp
qed

lemma screen_scroll: "screen (scroll base m) base = drop 80 (screen m base) @ replicate 80 ASCII_SPACE"
  by (rule nth_equalityI) (auto simp: nth_screen scroll_cell nth_append add.commute)

lemma scroll_outside: "\<not> in_page base x \<Longrightarrow> scroll base m x = m x"
proof -
  assume x: "\<not> in_page base x"
  have "fold (\<lambda>j. draw base (of_nat (80 * (25 - 1) + j)) ASCII_SPACE) js m' x = m' x" if "set js \<subseteq> {0..<80}" for js m'
    using that by (induction js arbitrary: m') (auto simp: draw_outside [OF _ x] simp del: of_nat_add)
  then show ?thesis
    unfolding scroll_def scroll_rows_flat
    using fold_draw_outside [of "[0..<80 * (25 - 1)]" base x "\<lambda>m k. m (cell base (of_nat (k + 80)))" m] x
    by (simp del: of_nat_add)
qed


section \<open>The abstract terminal\<close>

text \<open>
  A terminal is its 2000 characters, the position the next one goes to, and whether the
  cursor is at the start of a line. A newline goes to the start of the next line; at the
  right margin the cursor already stands for the next line, so a newline there stays.
\<close>

type_synonym tty = "u8 list \<times> nat \<times> bool"

definition tty_newline :: "nat \<Rightarrow> bool \<Rightarrow> nat" where
  "tty_newline pos start = (if start then pos + 80 else 80 * ((pos + 79) div 80))"

definition tty_scroll :: "tty \<Rightarrow> tty" where
  "tty_scroll t =
     (case t of (cs, pos, start) \<Rightarrow>
        if pos \<ge> 2000 then (drop 80 cs @ replicate 80 ASCII_SPACE, pos - 80, start) else t)"

definition tty_putc :: "u8 \<Rightarrow> tty \<Rightarrow> tty" where
  "tty_putc c t =
     (case t of (cs, pos, start) \<Rightarrow>
        tty_scroll (if c = NEWLINE \<or> c = CARRIAGE_RETURN then (cs, tty_newline pos start, True)
                    else (cs[pos := c], pos + 1, False)))"

definition term_pos :: "terminal_t \<Rightarrow> nat" where
  "term_pos t = 80 * unat (screen_y t) + unat (screen_x t)"

definition cursor_ok :: "terminal_t \<Rightarrow> bool" where
  "cursor_ok t \<longleftrightarrow> term_pos t < 2000"

definition abs_tty :: "u32 \<Rightarrow> terminal_t \<times> mem \<Rightarrow> tty" where
  "abs_tty base tm = (case tm of (t, m) \<Rightarrow> (screen m base, term_pos t, screen_x t = 0))"

lemma term_pos_word: "80 * screen_y t + screen_x t = of_nat (term_pos t)"
  by (simp add: term_pos_def)

lemma wrap_rows_snd:
  "unat x + unat y < 2 ^ 32 \<Longrightarrow> unat (snd (wrap_rows x y)) = unat y + (unat x - 1) div 80"
proof (induction x y rule: wrap_rows.induct)
  case (1 x y)
  show ?case
  proof (cases "x > 80")
    case True
    then have x: "unat (x - 80) = unat x - 80" "80 < unat x"
      by (auto simp: unat_sub word_less_nat_alt word_le_nat_alt)
    then have y: "unat (y + 1) = unat y + 1"
      using 1(2) by (simp add: unat_word_ariths)
    have "unat (snd (wrap_rows (x - 80) (y + 1))) = unat (y + 1) + (unat (x - 80) - 1) div 80"
      using 1 True x y by simp
    also have "\<dots> = unat y + (unat x - 1) div 80" using x y by simp
    finally show ?thesis using True by (simp add: wrap_rows.simps [of x y])
  next
    case False
    then have "unat x \<le> 80" by (simp add: not_less word_le_nat_alt)
    with False show ?thesis by (simp add: wrap_rows.simps [of x y])
  qed
qed

lemma newline_rows: "0 < x \<Longrightarrow> (80 * y + x + 79) div 80 = y + (x - 1) div 80 + (1::nat)"
proof -
  assume "0 < x"
  then have "80 * y + x + 79 = (x - 1) + (y + 1) * 80" by simp
  then show ?thesis by (simp only: div_mult_self1)
qed

text \<open>The glyph step, before the scroll test: the position may have become 2000.\<close>

lemma put_glyph_refines:
  assumes "cursor_ok t" and "put_glyph base c (t, m) = (t', m')"
  shows "term_pos t' \<le> 2000" and "pcb t' = pcb t" and "unat (screen_x t') + unat (screen_y t') < 2 ^ 31"
    and "abs_tty base (t', m') =
      (if c = NEWLINE \<or> c = CARRIAGE_RETURN then (screen m base, tty_newline (term_pos t) (screen_x t = 0), True)
       else ((screen m base)[term_pos t := c], term_pos t + 1, False))"
    and "\<not> in_page base a \<Longrightarrow> m' a = m a"
proof -
  let ?X = "unat (screen_x t)" and ?Y = "unat (screen_y t)"
  have pos: "80 * ?Y + ?X < 2000" using assms(1) by (simp add: cursor_ok_def term_pos_def)
  have "term_pos t' \<le> 2000 \<and> pcb t' = pcb t \<and> unat (screen_x t') + unat (screen_y t') < 2 ^ 31 \<and>
      abs_tty base (t', m') =
      (if c = NEWLINE \<or> c = CARRIAGE_RETURN then (screen m base, tty_newline (term_pos t) (screen_x t = 0), True)
       else ((screen m base)[term_pos t := c], term_pos t + 1, False)) \<and> (\<not> in_page base a \<longrightarrow> m' a = m a)"
  proof (cases "c = NEWLINE \<or> c = CARRIAGE_RETURN")
    case True
    obtain x y where w: "wrap_rows (screen_x t) (screen_y t) = (x, y)" by fastforce
    have y: "unat y = ?Y + (?X - 1) div 80"
      using wrap_rows_snd [of "screen_x t" "screen_y t"] w pos by simp
    then have y1: "unat (y + 1) = ?Y + (?X - 1) div 80 + 1"
      using pos by (simp add: unat_word_ariths)
    have t': "t' = t\<lparr>screen_y := y + 1, screen_x := 0\<rparr>" "m' = m"
      using assms(2) True w by (auto simp: put_glyph_def)
    have "80 * (?Y + (?X - 1) div 80 + 1) = tty_newline (term_pos t) (screen_x t = 0)"
    proof (cases "?X = 0")
      case False
      then show ?thesis by (auto simp: tty_newline_def term_pos_def newline_rows)
    qed (simp add: tty_newline_def term_pos_def unat_eq_0)
    moreover have "?Y + (?X - 1) div 80 + 1 \<le> 25"
      using pos times_div_less_eq_dividend [of 80 "?X - 1"] by linarith
    ultimately show ?thesis
      using True pos by (auto simp: t' abs_tty_def term_pos_def y1)
  next
    case False
    have t': "t' = t\<lparr>screen_x := screen_x t + 1\<rparr>" "m' = draw base (of_nat (term_pos t)) c m"
      using assms(2) False by (auto simp: put_glyph_def term_pos_word simp del: of_nat_add of_nat_mult)
    have x1: "unat (screen_x t + 1) = ?X + 1" using pos by (simp add: unat_word_ariths)
    then have "screen_x t + 1 \<noteq> 0" by (metis add_is_0 unat_0 zero_neq_one)
    then show ?thesis
      using False pos x1 assms(1)
      by (auto simp: t' abs_tty_def term_pos_def [of "screen_x_update _ _"] screen_draw draw_outside cursor_ok_def)
        (simp_all add: term_pos_def)
  qed
  then show "term_pos t' \<le> 2000" "pcb t' = pcb t" "unat (screen_x t') + unat (screen_y t') < 2 ^ 31"
    "abs_tty base (t', m') =
      (if c = NEWLINE \<or> c = CARRIAGE_RETURN then (screen m base, tty_newline (term_pos t) (screen_x t = 0), True)
       else ((screen m base)[term_pos t := c], term_pos t + 1, False))"
    "\<not> in_page base a \<Longrightarrow> m' a = m a" by auto
qed


lemma scroll_if_full_refines:
  assumes "term_pos t \<le> 2000" and "unat (screen_x t) + unat (screen_y t) < 2 ^ 31"
    and "scroll_if_full base (t, m) = (t', m')" and "screen_x t = 0 \<longrightarrow> 0 < screen_y t"
  shows "cursor_ok t'" and "pcb t' = pcb t" and "abs_tty base (t', m') = tty_scroll (abs_tty base (t, m))"
    and "\<not> in_page base a \<Longrightarrow> m' a = m a"
proof -
  have word: "screen_y t * 80 + screen_x t = of_nat (term_pos t)"
    by (simp add: term_pos_word [symmetric] mult.commute)
  have full: "screen_y t * 80 + screen_x t \<ge> 80 * 25 \<longleftrightarrow> term_pos t \<ge> 2000"
    using assms(1) unfolding word by (simp add: word_le_nat_alt unat_of_nat)
  have "cursor_ok t' \<and> pcb t' = pcb t \<and> abs_tty base (t', m') = tty_scroll (abs_tty base (t, m)) \<and>
      (\<not> in_page base a \<longrightarrow> m' a = m a)"
  proof (cases "term_pos t \<ge> 2000")
    case False
    with full assms(3) show ?thesis
      by (auto simp: scroll_if_full_def cursor_ok_def abs_tty_def tty_scroll_def)
  next
    case True
    show ?thesis
    proof (cases "screen_y t > 0")
      case y: True
      then have "unat (screen_y t - 1) = unat (screen_y t) - 1" "0 < unat (screen_y t)"
        by (auto simp: unat_minus_one word_gt_0 unat_gt_0)
      with y True full assms(1,3) show ?thesis
        by (auto simp: scroll_if_full_def cursor_ok_def abs_tty_def tty_scroll_def term_pos_def
            screen_scroll scroll_outside)
    next
      case y: False
      then have y0: "screen_y t = 0" by (simp add: word_gt_0)
      then have x: "unat (screen_x t) = 2000" using True assms(1) by (simp add: term_pos_def)
      then have "unat (screen_x t - 80) = 1920" by (simp add: unat_sub word_le_nat_alt)
      moreover from this x have "screen_x t - 80 \<noteq> 0" "screen_x t \<noteq> 0" by auto
      ultimately show ?thesis
        using y y0 x True full assms(3)
        by (auto simp: scroll_if_full_def cursor_ok_def abs_tty_def tty_scroll_def term_pos_def
            screen_scroll scroll_outside)
    qed
  qed
  then show "cursor_ok t'" "pcb t' = pcb t" "abs_tty base (t', m') = tty_scroll (abs_tty base (t, m))"
    "\<not> in_page base a \<Longrightarrow> m' a = m a" by auto
qed

text \<open>Both steps together: what one branch of \<open>putc\<close> does to its terminal and page.\<close>

definition put_cell :: "u32 \<Rightarrow> u8 \<Rightarrow> terminal_t \<times> mem \<Rightarrow> terminal_t \<times> mem" where
  "put_cell base c tm = scroll_if_full base (put_glyph base c tm)"

lemma put_cell_refines:
  assumes "cursor_ok t" and "put_cell base c (t, m) = (t', m')"
  shows "cursor_ok t'" and "pcb t' = pcb t" and "abs_tty base (t', m') = tty_putc c (abs_tty base (t, m))"
    and "\<not> in_page base a \<Longrightarrow> m' a = m a"
proof -
  obtain t1 m1 where g: "put_glyph base c (t, m) = (t1, m1)" by fastforce
  note g1 = put_glyph_refines [OF assms(1) g]
  have s: "scroll_if_full base (t1, m1) = (t', m')" using assms(2) g by (simp add: put_cell_def)
  have nz: "screen_x t1 = 0 \<longrightarrow> 0 < screen_y t1"
  proof
    assume z: "screen_x t1 = 0"
    then have "term_pos t1 > 0"
      using g1(4) by (auto simp: abs_tty_def tty_newline_def term_pos_def newline_rows unat_gt_0
          split: if_splits)
    with z show "0 < screen_y t1" by (simp add: term_pos_def word_gt_0 unat_gt_0)
  qed
  note s1 = scroll_if_full_refines [OF g1(1,3) s nz]
  show "cursor_ok t'" "pcb t' = pcb t" using s1 g1 by auto
  show "abs_tty base (t', m') = tty_putc c (abs_tty base (t, m))"
    unfolding s1(3) g1(4) by (simp add: tty_putc_def abs_tty_def)
  show "\<not> in_page base a \<Longrightarrow> m' a = m a" using s1(4) g1(5) by simp
qed


section \<open>putc on the kernel state\<close>

text \<open>The page a terminal is drawn in: the video page when visible, its own page otherwise.\<close>

definition page_of :: "'a console_scheme \<Rightarrow> u8 \<Rightarrow> u32" where
  "page_of s t = (if t = current_terminal s then VIDEO else vid_page t)"

definition tty_of :: "'a console_scheme \<Rightarrow> u8 \<Rightarrow> tty" where
  "tty_of s t = abs_tty (page_of s t) (terminal s t, mem s)"

definition console_inv :: "'a console_scheme \<Rightarrow> bool" where
  "console_inv s \<longleftrightarrow> curr_scheduler s < 3 \<and> current_terminal s < 3 \<and>
     cursor_ok (terminal s 0) \<and> cursor_ok (terminal s 1) \<and> cursor_ok (terminal s 2)"

lemma u8_less_3: "(t :: u8) < 3 \<longleftrightarrow> t = 0 \<or> t = 1 \<or> t = 2"
proof
  assume "t < 3"
  then have "unat t < 3" by (simp add: word_less_nat_alt)
  then consider "unat t = 0" | "unat t = 1" | "unat t = 2" by linarith
  then show "t = 0 \<or> t = 1 \<or> t = 2"
    by cases (simp_all flip: word_unat_eq_iff add: word_unat_eq_iff)
qed auto

lemma console_inv_cursor: "console_inv s \<Longrightarrow> t < 3 \<Longrightarrow> cursor_ok (terminal s t)"
  by (auto simp: console_inv_def u8_less_3)

lemma console_inv_own_cursor: "console_inv s \<Longrightarrow> cursor_ok (terminal s (curr_scheduler s))"
  by (auto simp: console_inv_def intro: console_inv_cursor [unfolded console_inv_def])

lemma console_inv_terminal:
  "console_inv s \<Longrightarrow> cursor_ok t \<Longrightarrow> console_inv (s\<lparr>terminal := (terminal s)(u := t), mem := m\<rparr>)"
  by (simp add: console_inv_def)

lemma set_hw_cursor_fields [io_simps]:
  "mem (set_hw_cursor p s) = mem s" "terminal (set_hw_cursor p s) = terminal s"
  "current_terminal (set_hw_cursor p s) = current_terminal s"
  "curr_scheduler (set_hw_cursor p s) = curr_scheduler s"
  by (simp_all add: set_hw_cursor_def Let_def outb_def)

lemma set_hw_cursor_views [io_simps]:
  "console_inv (set_hw_cursor p s) = console_inv s" "page_of (set_hw_cursor p s) = page_of s"
  "tty_of (set_hw_cursor p s) = tty_of s"
  by (simp_all add: console_inv_def page_of_def tty_of_def io_simps fun_eq_iff)

lemma putc_eq:
  "putc c s =
     (case put_cell (page_of s (curr_scheduler s)) c (terminal s (curr_scheduler s), mem s) of
        (t, m) \<Rightarrow>
          let s' = s\<lparr>terminal := (terminal s)(curr_scheduler s := t), mem := m\<rparr>
          in if curr_scheduler s = current_terminal s then set_hw_cursor (cursor_pos t) s' else s')"
  by (auto simp: putc_def put_cell_def page_of_def Let_def split: prod.splits)

lemma pages_disjoint:
  assumes "t < 3" "u < 3" "t \<noteq> u" "in_page (page_of s t) x"
  shows "\<not> in_page (page_of s u) x"
proof -
  have sep: "\<not> in_page b x" if "in_page a x" "unat a + 4096 \<le> unat b \<or> unat b + 4096 \<le> unat a"
    "unat a < 2 ^ 31" "unat b < 2 ^ 31" for a b
  proof
    note h = that
    assume "in_page b x"
    then obtain i j where "i < 4000" "j < 4000" "x = a + of_nat i" "x = b + of_nat j"
      using h(1) unfolding in_page_def by blast
    then have "unat x = unat a + i" "unat x = unat b + j"
      using h(3,4) unat_run [of a 4000 i] unat_run [of b 4000 j] by auto
    with h(2) \<open>i < 4000\<close> \<open>j < 4000\<close> show False by linarith
  qed
  have "unat (page_of s t) + 4096 \<le> unat (page_of s u) \<or> unat (page_of s u) + 4096 \<le> unat (page_of s t)"
    and "unat (page_of s t) < 2 ^ 31" and "unat (page_of s u) < 2 ^ 31"
    using assms(1-3) by (auto simp: page_of_def vid_page_def u8_less_3)
  then show ?thesis by (rule sep [OF assms(4)])
qed

lemma screen_cong: "(\<And>x. in_page base x \<Longrightarrow> m x = m' x) \<Longrightarrow> screen m base = screen m' base"
  by (rule nth_equalityI) (auto simp: nth_screen cell_in_page)

lemma putc_frame [frame_simps]:
  "current_terminal (putc c s) = current_terminal s" "curr_scheduler (putc c s) = curr_scheduler s"
  "t \<noteq> curr_scheduler s \<Longrightarrow> terminal (putc c s) t = terminal s t"
  "page_of (putc c s) = page_of s"
  by (auto simp: putc_eq page_of_def Let_def io_simps fun_eq_iff split: prod.splits)

lemma putc_main:
  assumes "cursor_ok (terminal s (curr_scheduler s))"
  shows "tty_of (putc c s) (curr_scheduler s) = tty_putc c (tty_of s (curr_scheduler s))"
    and "cursor_ok (terminal (putc c s) (curr_scheduler s))"
    and "\<not> in_page (page_of s (curr_scheduler s)) a \<Longrightarrow> mem (putc c s) a = mem s a"
    and "pcb (terminal (putc c s) t) = pcb (terminal s t)"
proof -
  obtain t' m' where p: "put_cell (page_of s (curr_scheduler s)) c (terminal s (curr_scheduler s), mem s) = (t', m')"
    by fastforce
  note r = put_cell_refines [OF assms p]
  have eq: "terminal (putc c s) = (terminal s)(curr_scheduler s := t')" "mem (putc c s) = m'"
    by (simp_all add: putc_eq p Let_def io_simps)
  show "tty_of (putc c s) (curr_scheduler s) = tty_putc c (tty_of s (curr_scheduler s))"
    using r(3) by (simp add: tty_of_def frame_simps eq)
  show "cursor_ok (terminal (putc c s) (curr_scheduler s))"
    "pcb (terminal (putc c s) t) = pcb (terminal s t)"
    "\<not> in_page (page_of s (curr_scheduler s)) a \<Longrightarrow> mem (putc c s) a = mem s a"
    using r by (auto simp: eq)
qed

lemma putc_inv: "console_inv s \<Longrightarrow> console_inv (putc c s)"
  unfolding console_inv_def
  using putc_main(2) [of s c] putc_frame(3) [of _ s c]
  by (auto simp: frame_simps console_inv_def u8_less_3)

lemma putc_other_tty:
  assumes "console_inv s" "t < 3" "t \<noteq> curr_scheduler s"
  shows "tty_of (putc c s) t = tty_of s t"
proof -
  have "curr_scheduler s < 3" using assms(1) by (simp add: console_inv_def)
  then have "mem (putc c s) x = mem s x" if "in_page (page_of s t) x" for x
    using that assms pages_disjoint putc_main(3) console_inv_cursor by metis
  then have "screen (mem (putc c s)) (page_of s t) = screen (mem s) (page_of s t)"
    by (rule screen_cong)
  with assms show ?thesis by (simp add: tty_of_def abs_tty_def frame_simps)
qed


section \<open>Writing strings\<close>

text \<open>
  What a client of the console relies on: each character put changes the view as the
  abstract terminal says, and the invariant is kept. Writing a string is then the abstract
  writing of the string.
\<close>

locale char_sink =
  fixes put :: "u8 \<Rightarrow> 's \<Rightarrow> 's"
    and view :: "'s \<Rightarrow> 'v"
    and put_view :: "u8 \<Rightarrow> 'v \<Rightarrow> 'v"
    and inv :: "'s \<Rightarrow> bool"
  assumes view_put: "inv s \<Longrightarrow> view (put c s) = put_view c (view s)"
    and inv_put: "inv s \<Longrightarrow> inv (put c s)"
begin

lemma inv_fold: "inv s \<Longrightarrow> inv (fold put cs s)"
  by (induction cs arbitrary: s) (auto intro: inv_put)

lemma view_fold: "inv s \<Longrightarrow> view (fold put cs s) = fold put_view cs (view s)"
  by (induction cs arbitrary: s) (auto simp: view_put inv_put)

lemma view_snoc: "inv s \<Longrightarrow> view (fold put (cs @ [c]) s) = put_view c (view (fold put cs s))"
  by (simp add: view_put inv_fold)

end

text \<open>The view of the terminal that is being scheduled, and the view of any other one.\<close>

interpretation own_tty: char_sink putc "\<lambda>s. tty_of s (curr_scheduler s)" tty_putc console_inv
  by unfold_locales (simp_all add: frame_simps putc_main(1) console_inv_own_cursor putc_inv)

definition others :: "'a console_scheme \<Rightarrow> u8 \<Rightarrow> tty option" where
  "others s t = (if t < 3 \<and> t \<noteq> curr_scheduler s then Some (tty_of s t) else None)"

interpretation other_ttys: char_sink putc others "\<lambda>c v. v" console_inv
  by unfold_locales (auto simp: others_def frame_simps putc_other_tty putc_inv fun_eq_iff)

lemma fold_putc_frame [frame_simps]:
  "current_terminal (fold putc cs s) = current_terminal s"
  "curr_scheduler (fold putc cs s) = curr_scheduler s"
  "page_of (fold putc cs s) = page_of s"
  by (induction cs arbitrary: s) (simp_all add: frame_simps)

lemma fold_putc_outside:
  "console_inv s \<Longrightarrow> \<not> in_page (page_of s (curr_scheduler s)) a \<Longrightarrow> mem (fold putc cs s) a = mem s a"
proof (induction cs arbitrary: s)
  case (Cons c cs)
  have "cursor_ok (terminal s (curr_scheduler s))"
    using Cons.prems(1) by (rule console_inv_own_cursor)
  with Cons show ?case by (simp add: putc_inv frame_simps putc_main(3))
qed simp

lemma puts_loop_eq:
  assumes "console_inv s" and "cstr (ptr (mem s) a) bs"
    and "\<And>i. i \<le> length bs \<Longrightarrow> \<not> in_page (page_of s (curr_scheduler s)) (a + of_nat i)"
  shows "k \<le> length bs \<Longrightarrow>
    puts_loop a k (fold putc (take k bs) s) = Some (of_nat (length bs), fold putc bs s)"
proof (induction "length bs - k" arbitrary: k)
  case 0
  have "mem (fold putc bs s) (a + of_nat (length bs)) = mem s (a + of_nat (length bs))"
    using assms(1,3) by (intro fold_putc_outside) auto
  with 0 assms(2) show ?case by (simp add: puts_loop.simps cstr_def ptr_def)
next
  case (Suc d)
  then have k: "k < length bs" by simp
  let ?s = "fold putc (take k bs) s"
  have "mem ?s (a + of_nat k) = mem s (a + of_nat k)"
    using assms(1,3) k by (intro fold_putc_outside) auto
  then have c: "mem ?s (a + of_nat k) = bs ! k" "bs ! k \<noteq> 0"
    using cstr_nonzero [OF assms(2) k] by (auto simp: ptr_def)
  have "puts_loop a (Suc k) (fold putc (take (Suc k) bs) s) = Some (of_nat (length bs), fold putc bs s)"
    using Suc.hyps(2) k by (intro Suc.hyps(1)) auto
  with c k show ?case by (simp add: puts_loop.simps [of a k] take_Suc_conv_app_nth)
qed

lemma puts_cstr:
  assumes "console_inv s" and "cstr (ptr (mem s) a) bs"
    and "\<And>i. i \<le> length bs \<Longrightarrow> \<not> in_page (page_of s (curr_scheduler s)) (a + of_nat i)"
  shows "puts a s = Some (of_nat (length bs), fold putc bs s)"
  using puts_loop_eq [OF assms, of 0] by (simp add: puts_def)

section \<open>Properties\<close>

text \<open>C10. \<open>putc\<close> is one step of the abstract terminal: the scheduled terminal's text, position and
  scrolling change as specified, its cursor stays on the screen, no other terminal changes and
  no byte outside the page drawn on is written.\<close>

theorem putc_refines_tty:
  assumes "console_inv s"
  shows "tty_of (putc c s) (curr_scheduler s) = tty_putc c (tty_of s (curr_scheduler s)) \<and>
    console_inv (putc c s) \<and>
    (\<forall>t < 3. t \<noteq> curr_scheduler s \<longrightarrow> tty_of (putc c s) t = tty_of s t) \<and>
    (\<forall>a. \<not> in_page (page_of s (curr_scheduler s)) a \<longrightarrow> mem (putc c s) a = mem s a)"
  using assms putc_main(1,3) [OF console_inv_own_cursor [OF assms]] by (auto simp: putc_inv putc_other_tty)

text \<open>A console with blank terminals, for the witnesses.\<close>

definition sample_console :: console where
  "sample_console = \<lparr>mem = \<lambda>_. 0x20, io_log = [], io_dev = \<lambda>_ _. 0, if_flag = False, master_mask = 0xFF, slave_mask = 0xFF,
     rtc_interrupt_occurred = 0, terminal = \<lambda>_. \<lparr>pcb = 0, screen_x = 0, screen_y = 0\<rparr>,
     current_terminal = 0, curr_scheduler = 1\<rparr>"

lemma sample_console_inv: "console_inv sample_console"
  by (simp add: console_inv_def sample_console_def cursor_ok_def term_pos_def)

theorem putc_refines_tty_witness:
  "tty_of (putc 0x41 sample_console) 1 = tty_putc 0x41 (tty_of sample_console 1) \<and>
   tty_of (putc 0x41 sample_console) 0 = tty_of sample_console 0"
proof -
  have "curr_scheduler sample_console = 1" by (simp add: sample_console_def)
  then show ?thesis using putc_refines_tty [OF sample_console_inv, of "0x41"] by force
qed

text \<open>\<open>puts\<close> of a NUL-terminated string outside the page being drawn returns its length
  and types its characters on the scheduled terminal one after another, leaving the other
  terminals alone.\<close>

theorem puts_types_string:
  assumes "console_inv s" and "cstr (ptr (mem s) a) bs"
    and "\<forall>i \<le> length bs. \<not> in_page (page_of s (curr_scheduler s)) (a + of_nat i)"
  shows "\<exists>s'. puts a s = Some (of_nat (length bs), s') \<and>
    tty_of s' (curr_scheduler s) = fold tty_putc bs (tty_of s (curr_scheduler s)) \<and>
    (\<forall>t < 3. t \<noteq> curr_scheduler s \<longrightarrow> tty_of s' t = tty_of s t) \<and> console_inv s'"
proof -
  let ?s = "fold putc bs s"
  have "fold (\<lambda>c v. v) cs v = v" for cs and v :: "u8 \<Rightarrow> tty option" by (induction cs) simp_all
  then have "others ?s = others s" using other_ttys.view_fold [OF assms(1), of bs] by simp
  then have "others ?s t = others s t" for t by simp
  then have "tty_of ?s t = tty_of s t" if "t < 3" "t \<noteq> curr_scheduler s" for t
    using that by (metis fold_putc_frame(2) option.inject others_def)
  moreover have "tty_of ?s (curr_scheduler s) = fold tty_putc bs (tty_of s (curr_scheduler s))"
    using own_tty.view_fold [OF assms(1), of bs] by (simp add: frame_simps)
  moreover have "console_inv ?s" using own_tty.inv_fold [OF assms(1)] .
  ultimately show ?thesis using puts_cstr [OF assms(1,2)] assms(3) by blast
qed

theorem puts_types_string_witness:
  "\<exists>s'. puts 0x1000 (sample_console\<lparr>mem := (\<lambda>_. 0x20)(0x1000 := 0x68, 0x1001 := 0x69, 0x1002 := 0)\<rparr>) = Some (2, s')"
    (is "\<exists>s'. puts _ ?s = _")
proof -
  have "console_inv ?s" using sample_console_inv by (simp add: console_inv_def)
  moreover have "cstr (ptr (mem ?s) 0x1000) [0x68, 0x69]"
    by (simp add: cstr_def ptr_def less_Suc_eq)
  moreover have "\<forall>i \<le> length [0x68 :: u8, 0x69]. \<not> in_page (page_of ?s (curr_scheduler ?s)) (0x1000 + of_nat i)"
  proof (intro allI impI)
    fix i assume "i \<le> length [0x68 :: u8, 0x69]"
    then have i: "i < 3" by simp
    show "\<not> in_page (page_of ?s (curr_scheduler ?s)) (0x1000 + of_nat i)"
    proof
      assume "in_page (page_of ?s (curr_scheduler ?s)) (0x1000 + of_nat i)"
      then obtain j where "j < 4000" "(0x1000 :: u32) + of_nat i = 0xBA000 + of_nat j"
        by (auto simp: in_page_def page_of_def sample_console_def vid_page_def)
      then show False using unat_run [of "0x1000" 3 i] unat_run [of "0xBA000" 4000 j] i by simp
    qed
  qed
  ultimately show ?thesis using puts_types_string [of ?s "0x1000" "[0x68, 0x69]"] by auto
qed

end
