(* ===== verification/Pcb.thy ===== *)
theory Pcb
  imports Console_Spec
begin

text \<open>
  The process control blocks of \<^verbatim>\<open>student-distrib/pcb.h\<close>. A function pointer of a
  file-operations table is the name of the function it points to. A control block lives at
  an address (\<^verbatim>\<open>8MB - 8KB * (pid + 1)\<close>), so the blocks are a store from addresses to
  records, and pointers between them are addresses with 0 for \<^verbatim>\<open>NULL\<close>.
\<close>

datatype open_fn = Open_null | Terminal_open | Rtc_open | Dir_open | File_open
datatype close_fn = Close_null | Terminal_close | Rtc_close | Dir_close | File_close
datatype read_fn = Read_null | Terminal_read | Invalid_read_op | Rtc_read | Dir_read | File_read
datatype write_fn = Write_null | Invalid_write_op | Terminal_write | Rtc_write | Dir_write | File_write

record fops_t =
  fops_open :: open_fn
  fops_close :: close_fn
  fops_read :: read_fn
  fops_write :: write_fn

record file_array_t =
  pointer :: fops_t
  inode :: u32
  file_position :: u32
  flags :: u32

record pcb_t =
  pcb_pid :: i32
  parent_pid :: i32
  halt_ebp :: u32
  halt_esp :: u32
  ebp_val :: u32
  esp_val :: u32
  argument :: bytes
  file_descriptor :: "nat \<Rightarrow> file_array_t"
  parent_pcb :: u32

record process = console +
  pcbs :: "u32 \<Rightarrow> pcb_t"

text \<open>\<^verbatim>\<open>*terminal[curr_scheduler].pcb\<close> and an update through that pointer.\<close>

definition cur_pcb_addr :: "'a process_scheme \<Rightarrow> u32" where
  "cur_pcb_addr s = pcb (terminal s (curr_scheduler s))"

definition cur_pcb :: "'a process_scheme \<Rightarrow> pcb_t" where
  "cur_pcb s = pcbs s (cur_pcb_addr s)"

definition set_cur_pcb :: "pcb_t \<Rightarrow> 'a process_scheme \<Rightarrow> 'a process_scheme" where
  "set_cur_pcb p s = s\<lparr>pcbs := (pcbs s)(cur_pcb_addr s := p)\<rparr>"

definition fd_entry :: "nat \<Rightarrow> 'a process_scheme \<Rightarrow> file_array_t" where
  "fd_entry fd s = file_descriptor (cur_pcb s) fd"

definition set_fd :: "nat \<Rightarrow> file_array_t \<Rightarrow> 'a process_scheme \<Rightarrow> 'a process_scheme" where
  "set_fd fd f s = set_cur_pcb ((cur_pcb s)\<lparr>file_descriptor := (file_descriptor (cur_pcb s))(fd := f)\<rparr>) s"

lemma set_fd_frame [frame_simps]:
  "mem (set_fd fd f s) = mem s" "terminal (set_fd fd f s) = terminal s"
  "curr_scheduler (set_fd fd f s) = curr_scheduler s" "current_terminal (set_fd fd f s) = current_terminal s"
  "cur_pcb_addr (set_fd fd f s) = cur_pcb_addr s"
  by (simp_all add: set_fd_def set_cur_pcb_def cur_pcb_addr_def)

lemma fd_entry_set_fd: "fd_entry k (set_fd fd f s) = (if k = fd then f else fd_entry k s)"
  by (simp add: fd_entry_def set_fd_def set_cur_pcb_def cur_pcb_def cur_pcb_addr_def)

end
