(* ===== verification/File_Sys.thy ===== *)
theory File_Sys
  imports Pcb
begin

text \<open>
  The read-only file system \<^verbatim>\<open>student-distrib/file_sys.c\<close>. The image is the bytes the
  boot loader left in memory: a boot block with statistics and 63 directory entries, one
  block per index node, then the data blocks. Structures are read at their addresses, so an
  index past an array reads the bytes that follow it, and a buffer may overlap the image.
\<close>

record dentry_t =
  file_name :: "u8 list"
  file_type :: u32
  inode_num :: u32
  reserved :: "u32 list"

record filesys = process +
  boot_block_addr :: u32
  inode_addr :: u32
  data_block_addr :: u32
  directory_index :: int

definition load_dentry :: "mem \<Rightarrow> u32 \<Rightarrow> dentry_t" where
  "load_dentry m a =
     \<lparr>file_name = load_bytes m a 32, file_type = load32 m (a + 32), inode_num = load32 m (a + 36),
      reserved = map (\<lambda>i. load32 m (a + 40 + 4 * of_nat i)) [0..<6]\<rparr>"

definition stat_dir_entry_num :: "'a filesys_scheme \<Rightarrow> u32" where
  "stat_dir_entry_num s = load32 (mem s) (boot_block_addr s)"

definition stat_inode_num :: "'a filesys_scheme \<Rightarrow> u32" where
  "stat_inode_num s = load32 (mem s) (boot_block_addr s + 4)"

definition stat_data_block_num :: "'a filesys_scheme \<Rightarrow> u32" where
  "stat_data_block_num s = load32 (mem s) (boot_block_addr s + 8)"

definition dir_dentry_addr :: "'a filesys_scheme \<Rightarrow> u32" where
  "dir_dentry_addr s = boot_block_addr s + 64"

definition dentry_addr :: "'a filesys_scheme \<Rightarrow> u32 \<Rightarrow> u32" where
  "dentry_addr s i = boot_block_addr s + 128 + 64 * i"

definition inode_length :: "mem \<Rightarrow> u32 \<Rightarrow> u32" where
  "inode_length m inode_ptr = load32 m inode_ptr"

definition inode_data_block :: "mem \<Rightarrow> u32 \<Rightarrow> u32 \<Rightarrow> u32" where
  "inode_data_block m inode_ptr k = load32 m (inode_ptr + 4 + 4 * k)"

definition file_sys_init :: "u32 \<Rightarrow> 'a filesys_scheme \<Rightarrow> 'a filesys_scheme" where
  "file_sys_init start_addr s0 =
     (let s = s0\<lparr>boot_block_addr := start_addr\<rparr>;
          s = s\<lparr>inode_addr := start_addr + 4096\<rparr>;
          inode_n = stat_inode_num s
      in s\<lparr>data_block_addr := inode_addr s + 4096 * inode_n\<rparr>)"

section \<open>Directory entries\<close>

text \<open>The local copy \<open>temp\<close> of an entry's name: 32 bytes by \<open>strncpy\<close>, then a NUL.\<close>

definition dentry_name :: "'a filesys_scheme \<Rightarrow> nat \<Rightarrow> bytes" where
  "dentry_name s i =
     ptr ((strncpy (\<lambda>_. ptr (mem s) (dentry_addr s (of_nat i))) (\<lambda>_. 0) 0 32)(32 := 0)) 0"

definition read_dentry_by_name :: "bytes \<Rightarrow> 'a filesys_scheme \<Rightarrow> dentry_t option" where
  "read_dentry_by_name fname s =
     (if strncmp fname (lit ''.'') 32 = 0 then Some (load_dentry (mem s) (dir_dentry_addr s))
      else map_option (\<lambda>i. load_dentry (mem s) (dentry_addr s (of_nat i)))
             (List.find (\<lambda>i. strncmp (dentry_name s i) fname 33 = 0) [0..<62]))"

definition read_dentry_by_index :: "u32 \<Rightarrow> 'a filesys_scheme \<Rightarrow> dentry_t option" where
  "read_dentry_by_index index s =
     (if index \<ge> stat_dir_entry_num s then None
      else if index = 0 then Some (load_dentry (mem s) (dir_dentry_addr s))
      else Some (load_dentry (mem s) (dentry_addr s (index - 1))))"

section \<open>File data\<close>

text \<open>A \<open>printf\<close> of a literal without conversions.\<close>

definition print_literal :: "string \<Rightarrow> 'a console_scheme \<Rightarrow> 'a console_scheme" where
  "print_literal str s = (case printf 0 str [] s of Some (_, s') \<Rightarrow> s' | None \<Rightarrow> s)"

record read_locals =
  data_counter :: u32
  block_index :: u32
  curr_block_ptr :: u32
  offset :: u32

text \<open>The loop of \<open>read_data\<close> from its \<open>i\<close>-th iteration.\<close>

function read_data_loop ::
  "u32 \<Rightarrow> u32 \<Rightarrow> u32 \<Rightarrow> u32 \<Rightarrow> nat \<Rightarrow> read_locals \<Rightarrow> 'a filesys_scheme \<Rightarrow> i32 \<times> 'a filesys_scheme" where
  "read_data_loop inode_ptr max_data_block buf len i l s =
     (if i < unat len then
        if data_counter l = len \<or> block_index l = 1024 - 2 then (data_counter l, s)
        else if max_data_block \<le> block_index l then
          (data_counter l, print_literal (''invalid data block!'' @ [CHR 0x0A]) s)
        else
          let l1 = (if offset l = 4096 then
                      let b = block_index l + 1
                      in l\<lparr>offset := 0, block_index := b,
                           curr_block_ptr := data_block_addr s + 4096 * inode_data_block (mem s) inode_ptr b\<rparr>
                    else l);
              s1 = s\<lparr>mem := memcpy (mem s) (buf + data_counter l1) (curr_block_ptr l1 + offset l1) 1\<rparr>;
              l2 = l1\<lparr>data_counter := data_counter l1 + 1, offset := offset l1 + 1\<rparr>
          in read_data_loop inode_ptr max_data_block buf len (Suc i) l2 s1
      else (data_counter l, s))"
  by pat_completeness auto
termination
  by (relation "measure (\<lambda>(p, d, b, n, i, l, s). unat n - i)") auto

declare read_data_loop.simps [simp del]

definition read_data :: "u32 \<Rightarrow> u32 \<Rightarrow> u32 \<Rightarrow> u32 \<Rightarrow> 'a filesys_scheme \<Rightarrow> i32 \<times> 'a filesys_scheme" where
  "read_data ino off buf len s =
     (let max_data_block = stat_data_block_num s;
          max_inode = stat_inode_num s;
          inode_ptr = inode_addr s + 4096 * ino;
          file_size = inode_length (mem s) inode_ptr
      in if ino \<ge> max_inode \<or> buf = 0 then (FAILURE, s)
         else
           let b = off div 4096
           in if off \<ge> file_size then (0, s)
              else
                let l = \<lparr>data_counter = 0, block_index = b,
                          curr_block_ptr = data_block_addr s + 4096 * inode_data_block (mem s) inode_ptr b,
                          offset = off - b * 4096\<rparr>
                in read_data_loop inode_ptr max_data_block buf len 0 l s)"

section \<open>The operations of files and of the directory\<close>

definition file_open :: "'a filesys_scheme \<Rightarrow> i32 \<times> 'a filesys_scheme" where
  "file_open s = (SUCCESS, s)"

definition file_close :: "'a filesys_scheme \<Rightarrow> i32 \<times> 'a filesys_scheme" where
  "file_close s = (SUCCESS, s)"

definition file_write :: "u32 \<Rightarrow> i32 \<Rightarrow> 'a filesys_scheme \<Rightarrow> i32 \<times> 'a filesys_scheme" where
  "file_write buf nbytes s = (FAILURE, s)"

definition file_read :: "i32 \<Rightarrow> u32 \<Rightarrow> i32 \<Rightarrow> 'a filesys_scheme \<Rightarrow> i32 \<times> 'a filesys_scheme" where
  "file_read fd buf nbytes s =
     (let f = fd_entry (unat fd) s in read_data (inode f) (file_position f) buf nbytes s)"

definition dir_open :: "'a filesys_scheme \<Rightarrow> i32 \<times> 'a filesys_scheme" where
  "dir_open s = (SUCCESS, s)"

definition dir_close :: "'a filesys_scheme \<Rightarrow> i32 \<times> 'a filesys_scheme" where
  "dir_close s = (SUCCESS, s)"

definition dir_write :: "u32 \<Rightarrow> i32 \<Rightarrow> 'a filesys_scheme \<Rightarrow> i32 \<times> 'a filesys_scheme" where
  "dir_write buf nbytes s = (FAILURE, s)"

text \<open>\<^term>\<open>None\<close>: a string copy or the final \<open>strlen\<close> does not end.\<close>

definition dir_read :: "u32 \<Rightarrow> i32 \<Rightarrow> 'a filesys_scheme \<Rightarrow> (i32 \<times> 'a filesys_scheme) option" where
  "dir_read buf nbytes s =
     (let num_file = sint (stat_dir_entry_num s)
      in if buf = 0 then Some (FAILURE, s)
         else if directory_index s \<ge> num_file - 1 then Some (SUCCESS, s\<lparr>directory_index := - 1\<rparr>)
         else
           case (if directory_index s = - 1 then strcpy (\<lambda>_. lit ''.'') (mem s) buf
                 else Some ((strncpy (\<lambda>m. ptr m (dentry_addr s (of_int (directory_index s)))) (mem s) buf 32)(buf + 32 := 0))) of
             None \<Rightarrow> None
           | Some m \<Rightarrow>
               let s' = s\<lparr>mem := m, directory_index := directory_index s + 1\<rparr>
               in map_option (\<lambda>n. (n, s')) (strlen (ptr m buf)))"

definition invalid_write_op :: "u32 \<Rightarrow> i32 \<Rightarrow> 'a filesys_scheme \<Rightarrow> i32 \<times> 'a filesys_scheme" where
  "invalid_write_op buf nbytes s = (FAILURE, s)"

definition invalid_read_op :: "u32 \<Rightarrow> i32 \<Rightarrow> 'a filesys_scheme \<Rightarrow> i32 \<times> 'a filesys_scheme" where
  "invalid_read_op buf nbytes s = (FAILURE, s)"

end
