(* ===== verification/File_Sys_Spec.thy ===== *)
theory File_Sys_Spec
  imports File_Sys
begin

text \<open>
  Correctness of the file system: names are compared exactly, \<open>read_data\<close> delivers the bytes
  of the file block by block, and the directory is enumerated entry by entry.
\<close>

section \<open>Looking names up\<close>

lemma strncmp_0_sym: "strncmp s1 s2 n = 0 \<Longrightarrow> strncmp s2 s1 n = 0"
proof -
  assume "strncmp s1 s2 n = 0"
  then have eq: "s1 k = s2 k" if "k < unat n" "\<forall>j<k. s1 j \<noteq> 0" for k
    using that by (simp add: strncmp_eq_0)
  have "s2 k = s1 k" if "k < unat n" "\<forall>j<k. s2 j \<noteq> 0" for k
    using that
  proof (induction k rule: less_induct)
    case (less k)
    have "s1 j \<noteq> 0" if "j < k" for j
      using less.IH [OF that] less.prems that by (metis less_trans)
    then show ?case using eq less.prems(1) by metis
  qed
  then show ?thesis by (auto simp: strncmp_eq_0)
qed

lemma strncmp_cstr_eq_0':
  assumes "cstr s1 xs" and "cstr s2 ys" and "length ys < unat n"
  shows "strncmp s1 s2 n = 0 \<longleftrightarrow> xs = ys"
  using strncmp_cstr_eq_0 [OF assms(2,1,3)] strncmp_0_sym by blast

lemma cstr_lit: "0 \<notin> set (bytes_of cs) \<Longrightarrow> cstr (lit cs) (bytes_of cs)"
  by (simp add: cstr_def lit_def bytes_of_def)

lemma cstr_takeWhile:
  assumes "s n = 0"
  shows "cstr s (takeWhile (\<lambda>x. x \<noteq> 0) (map s [0..<n]))" (is "cstr s ?cs")
proof -
  have le: "length ?cs \<le> n" using length_takeWhile_le [of _ "map s [0..<n]"] by simp
  have "s i = ?cs ! i" if "i < length ?cs" for i
    using that le by (simp add: takeWhile_nth)
  moreover have "0 \<notin> set ?cs" by (auto dest: set_takeWhileD)
  moreover have "s (length ?cs) = 0"
    using nth_length_takeWhile [of "\<lambda>x. x \<noteq> 0" "map s [0..<n]"] le assms by (cases "length ?cs = n") auto
  ultimately show ?thesis by (simp add: cstr_def)
qed

definition entry_name :: "'a filesys_scheme \<Rightarrow> nat \<Rightarrow> u8 list" where
  "entry_name s i = takeWhile (\<lambda>x. x \<noteq> 0) (load_bytes (mem s) (dentry_addr s (of_nat i)) 32)"

lemma entry_name_length: "length (entry_name s i) \<le> 32"
  using length_takeWhile_le [of _ "load_bytes (mem s) (dentry_addr s (of_nat i)) 32"]
  by (simp add: entry_name_def)

lemma cstr_dentry_name: "cstr (dentry_name s i) (entry_name s i)"
proof -
  let ?b = "ptr (mem s) (dentry_addr s (of_nat i))"
  have d: "dentry_name s i k = (if k = 32 then 0 else str_field ?b 32 ! k)" if "k \<le> 32" for k
  proof (cases "k = 32")
    case False
    then have "k < 32" using that by simp
    moreover have "(of_nat k :: u32) \<noteq> 32" using \<open>k < 32\<close> of_nat_u32_inj [of k 32] by simp
    ultimately show ?thesis
      using store_bytes_inside [of k "str_field ?b 32" "\<lambda>_. 0" 0]
      by (simp add: dentry_name_def ptr_def strncpy_const_eq)
  qed (simp add: dentry_name_def ptr_def)
  have e: "entry_name s i = takeWhile (\<lambda>x. x \<noteq> 0) (map ?b [0..<32])"
    by (simp only: entry_name_def load_bytes_def ptr_def)
  have f: "str_field ?b 32 = entry_name s i @ replicate (32 - length (entry_name s i)) 0"
    by (simp add: str_field_def Let_def e)
  have "dentry_name s i k = entry_name s i ! k" if "k < length (entry_name s i)" for k
    using that entry_name_length [of s i] by (simp add: d f nth_append)
  moreover have "0 \<notin> set (entry_name s i)" by (auto simp: entry_name_def dest: set_takeWhileD)
  moreover have "dentry_name s i (length (entry_name s i)) = 0"
    using entry_name_length [of s i] by (simp add: d f nth_append)
  ultimately show ?thesis by (simp add: cstr_def)
qed

lemma read_dentry_by_name_eq:
  assumes "cstr fname bs"
  shows "read_dentry_by_name fname s =
    (if bs = [0x2E] then Some (load_dentry (mem s) (dir_dentry_addr s))
     else map_option (\<lambda>i. load_dentry (mem s) (dentry_addr s (of_nat i)))
            (List.find (\<lambda>i. entry_name s i = bs) [0..<62]))"
proof -
  have dot: "cstr (lit ''.'') [0x2E]" using cstr_lit [of "''.''"] by (simp add: bytes_of_def)
  have "strncmp fname (lit ''.'') 32 = 0 \<longleftrightarrow> bs = [0x2E]"
    using strncmp_cstr_eq_0' [OF assms dot, of 32] by simp
  moreover have "strncmp (dentry_name s i) fname 33 = 0 \<longleftrightarrow> entry_name s i = bs" for i
    using strncmp_cstr_eq_0 [OF cstr_dentry_name assms, of s i 33] entry_name_length [of s i] by simp
  ultimately show ?thesis by (simp add: read_dentry_by_name_def)
qed

lemma find_upt_Some: "List.find P [0..<n] = Some i \<longleftrightarrow> i < n \<and> P i \<and> (\<forall>j<i. \<not> P j)"
  by (auto simp: find_Some_iff) 

lemma find_upt_None: "List.find P [0..<n] = None \<longleftrightarrow> (\<forall>i<n. \<not> P i)"
  by (auto simp: find_None_iff)

section \<open>Reading file data\<close>

text \<open>The address and the byte of position \<open>k\<close> of the file with index node \<open>ino\<close>.\<close>

definition inode_ptr :: "'a filesys_scheme \<Rightarrow> u32 \<Rightarrow> u32" where
  "inode_ptr s ino = inode_addr s + 4096 * ino"

definition file_byte_addr :: "'a filesys_scheme \<Rightarrow> u32 \<Rightarrow> nat \<Rightarrow> u32" where
  "file_byte_addr s ino k =
     data_block_addr s + 4096 * inode_data_block (mem s) (inode_ptr s ino) (of_nat (k div 4096)) + of_nat (k mod 4096)"

definition file_bytes :: "'a filesys_scheme \<Rightarrow> u32 \<Rightarrow> nat \<Rightarrow> nat \<Rightarrow> u8 list" where
  "file_bytes s ino off n = map (\<lambda>i. mem s (file_byte_addr s ino (off + i))) [0..<n]"

text \<open>
  The image as \<open>file_sys_init\<close> lays it out, a file whose blocks exist, and a buffer outside
  the image. \<open>image_size\<close> counts the boot block, the index nodes and the data blocks.
\<close>

definition fs_layout :: "'a filesys_scheme \<Rightarrow> bool" where
  "fs_layout s \<longleftrightarrow> inode_addr s = boot_block_addr s + 4096 \<and>
     data_block_addr s = inode_addr s + 4096 * stat_inode_num s"

definition image_size :: "'a filesys_scheme \<Rightarrow> nat" where
  "image_size s = 4096 * (1 + unat (stat_inode_num s) + unat (stat_data_block_num s))"

definition max_blocks :: "'a filesys_scheme \<Rightarrow> nat" where
  "max_blocks s = min 1022 (unat (stat_data_block_num s))"

definition blocks_ok :: "'a filesys_scheme \<Rightarrow> u32 \<Rightarrow> bool" where
  "blocks_ok s ino \<longleftrightarrow>
     (\<forall>k < max_blocks s. inode_data_block (mem s) (inode_ptr s ino) (of_nat k) < stat_data_block_num s)"

lemma file_sys_init_layout: "fs_layout (file_sys_init a s)"
  by (simp add: fs_layout_def file_sys_init_def stat_inode_num_def Let_def)

lemma length_file_bytes [simp]: "length (file_bytes s ino off n) = n"
  by (simp add: file_bytes_def)

lemma file_bytes_Suc: "file_bytes s ino off (Suc n) = file_bytes s ino off n @ [mem s (file_byte_addr s ino (off + n))]"
  by (simp add: file_bytes_def)

lemma load32_cong:
  assumes "\<And>j. j < 4 \<Longrightarrow> m (a + of_nat j) = m' (a + of_nat j)"
  shows "load32 m a = load32 m' a"
  using assms [of 0] assms [of 1] assms [of 2] assms [of 3] by (simp add: load32_def)

text \<open>What the loop reads lies in the image, so the buffer does not reach it.\<close>

definition in_image :: "'a filesys_scheme \<Rightarrow> u32 \<Rightarrow> bool" where
  "in_image s x \<longleftrightarrow> (\<exists>i < image_size s. x = boot_block_addr s + of_nat i)"

lemma inode_entry_in_image:
  assumes "fs_layout s" "ino < stat_inode_num s" "k < 1023" "j < 4"
  shows "in_image s (inode_ptr s ino + 4 + 4 * of_nat k + of_nat j)"
proof -
  have "unat ino < unat (stat_inode_num s)" using assms(2) by (simp add: word_less_nat_alt)
  then have "4096 + 4096 * unat ino + 4 + 4 * k + j < image_size s"
    using assms(3,4) by (simp add: image_size_def)
  moreover have "inode_ptr s ino + 4 + 4 * of_nat k + of_nat j =
      boot_block_addr s + of_nat (4096 + 4096 * unat ino + 4 + 4 * k + j)"
    using assms(1) by (simp add: inode_ptr_def fs_layout_def algebra_simps)
  ultimately show ?thesis unfolding in_image_def by blast
qed

lemma data_byte_in_image:
  assumes "fs_layout s" "n < stat_data_block_num s" "k < 4096"
  shows "in_image s (data_block_addr s + 4096 * n + of_nat k)"
proof -
  have "unat n < unat (stat_data_block_num s)" using assms(2) by (simp add: word_less_nat_alt)
  then have "4096 + 4096 * unat (stat_inode_num s) + 4096 * unat n + k < image_size s"
    using assms(3) by (simp add: image_size_def)
  moreover have "data_block_addr s + 4096 * n + of_nat k =
      boot_block_addr s + of_nat (4096 + 4096 * unat (stat_inode_num s) + 4096 * unat n + k)"
    using assms(1) by (simp add: fs_layout_def algebra_simps)
  ultimately show ?thesis unfolding in_image_def by blast
qed

lemma inode_data_block_cong:
  assumes "fs_layout s" "ino < stat_inode_num s" "k < 1023" "\<And>x. in_image s x \<Longrightarrow> m x = mem s x"
  shows "inode_data_block m (inode_ptr s ino) (of_nat k) = inode_data_block (mem s) (inode_ptr s ino) (of_nat k)"
  unfolding inode_data_block_def
  by (rule load32_cong) (rule assms(4), rule inode_entry_in_image [OF assms(1-3)])

text \<open>The locals when the loop stands in block \<open>b\<close>, which it leaves only when it needs a byte of the next.\<close>

definition read_locals_at :: "'a filesys_scheme \<Rightarrow> u32 \<Rightarrow> nat \<Rightarrow> nat \<Rightarrow> nat \<Rightarrow> read_locals" where
  "read_locals_at s ino off b i =
     \<lparr>data_counter = of_nat i, block_index = of_nat b,
      curr_block_ptr = data_block_addr s + 4096 * inode_data_block (mem s) (inode_ptr s ino) (of_nat b),
      offset = of_nat (off + i - 4096 * b)\<rparr>"

definition next_locals :: "'a filesys_scheme \<Rightarrow> u32 \<Rightarrow> read_locals \<Rightarrow> read_locals" where
  "next_locals s ip l =
     (if offset l = 4096 then
        l\<lparr>offset := 0, block_index := block_index l + 1,
          curr_block_ptr := data_block_addr s + 4096 * inode_data_block (mem s) ip (block_index l + 1)\<rparr>
      else l)"

lemma read_data_loop_step:
  assumes "i < unat len" "data_counter l \<noteq> len" "block_index l \<noteq> 1022" "\<not> mx \<le> block_index l"
  shows "read_data_loop ip mx buf len i l s =
    (let l1 = next_locals s ip l
     in read_data_loop ip mx buf len (Suc i) (l1\<lparr>data_counter := data_counter l1 + 1, offset := offset l1 + 1\<rparr>)
          (s\<lparr>mem := (mem s)(buf + data_counter l1 := mem s (curr_block_ptr l1 + offset l1))\<rparr>))"
  using assms
  by (subst read_data_loop.simps) (simp add: next_locals_def memcpy_one Let_def)

lemma next_locals_at:
  assumes "4096 * b \<le> off + i" "off + i \<le> 4096 * b + 4096" "b < 1022" "fs_layout s" "ino < stat_inode_num s"
    and img: "\<And>x. in_image s x \<Longrightarrow> m x = mem s x"
  shows "next_locals (s\<lparr>mem := m\<rparr>) (inode_ptr s ino) (read_locals_at s ino off b i) =
    read_locals_at s ino off ((off + i) div 4096) i"
proof (cases "off + i = 4096 * b + 4096")
  case True
  then have o: "off + i - 4096 * b = 4096" and b: "(off + i) div 4096 = Suc b" by simp_all
  moreover have "inode_data_block m (inode_ptr s ino) (of_nat (Suc b)) =
      inode_data_block (mem s) (inode_ptr s ino) (of_nat (Suc b))"
    using assms by (intro inode_data_block_cong) simp_all
  ultimately show ?thesis
    using True by (simp add: next_locals_def read_locals_at_def ac_simps)
next
  case False
  then have r: "off + i - 4096 * b < 4096" and "(off + i) div 4096 = b" using assms(1,2) by simp_all
  moreover have "(of_nat (off + i - 4096 * b) :: u32) \<noteq> 4096"
    using r of_nat_u32_inj [of "off + i - 4096 * b" 4096] by (simp del: of_nat_diff of_nat_add)
  ultimately show ?thesis by (simp add: next_locals_def read_locals_at_def del: of_nat_diff of_nat_add)
qed

lemma read_data_loop_eq:
  assumes lay: "fs_layout s" "ino < stat_inode_num s" "blocks_ok s ino"
    and buf: "disjoint_runs buf (unat len) (boot_block_addr s) (image_size s)"
    and fit: "off + unat len \<le> 4096 * max_blocks s"
    and i: "i \<le> unat len" "4096 * b \<le> off + i" "off + i \<le> 4096 * b + 4096"
  shows "read_data_loop (inode_ptr s ino) (stat_data_block_num s) buf len i (read_locals_at s ino off b i)
      (s\<lparr>mem := store_bytes (mem s) buf (file_bytes s ino off i)\<rparr>) =
    (len, s\<lparr>mem := store_bytes (mem s) buf (file_bytes s ino off (unat len))\<rparr>)"
  using i
proof (induction "unat len - i" arbitrary: i b)
  case 0
  then have "i = unat len" by simp
  then show ?case by (simp add: read_data_loop.simps read_locals_at_def)
next
  case (Suc d)
  let ?n = "unat len" and ?b = "(off + i) div 4096" and ?m = "store_bytes (mem s) buf (file_bytes s ino off i)"
  have i: "i < ?n" using Suc.hyps(2) by simp
  have img: "?m x = mem s x" if "in_image s x" for x
  proof (rule store_bytes_outside)
    fix j assume "j < length (file_bytes s ino off i)"
    then have "j < ?n" using i by simp
    then show "x \<noteq> buf + of_nat j" using that disjoint_runsD [OF buf] unfolding in_image_def by metis
  qed
  have bs: "b < max_blocks s" "?b < max_blocks s" "max_blocks s \<le> 1022"
    "max_blocks s \<le> unat (stat_data_block_num s)"
    using Suc.prems(2) i fit by (auto simp: max_blocks_def)
  have cont: "(of_nat i :: u32) \<noteq> len" "(of_nat b :: u32) \<noteq> 1022" "\<not> stat_data_block_num s \<le> of_nat b"
    using i unsigned_less [of len, where ?'a = nat] of_nat_u32_inj [of i ?n] bs of_nat_u32_inj [of b 1022]
    by (simp_all add: word_le_nat_alt unat_of_nat take_bit_nat_eq_self)
  let ?l = "read_locals_at s ino off b i" and ?l1 = "read_locals_at s ino off ?b i"
  have nl: "next_locals (s\<lparr>mem := ?m\<rparr>) (inode_ptr s ino) ?l = ?l1"
    using Suc.prems bs lay img by (intro next_locals_at) auto
  have l2: "?l1\<lparr>data_counter := data_counter ?l1 + 1, offset := offset ?l1 + 1\<rparr> = read_locals_at s ino off ?b (Suc i)"
    by (simp add: read_locals_at_def Suc_diff_le ac_simps)
  have addr: "curr_block_ptr ?l1 + offset ?l1 = file_byte_addr s ino (off + i)"
    by (simp add: read_locals_at_def file_byte_addr_def minus_mult_div_eq_mod del: of_nat_diff of_nat_add)
  have "in_image s (file_byte_addr s ino (off + i))"
    unfolding file_byte_addr_def using lay bs by (intro data_byte_in_image) (auto simp: blocks_ok_def)
  then have byte: "?m (curr_block_ptr ?l1 + offset ?l1) = mem s (file_byte_addr s ino (off + i))"
    unfolding addr by (rule img)
  have m2: "?m(buf + data_counter ?l1 := ?m (curr_block_ptr ?l1 + offset ?l1)) =
      store_bytes (mem s) buf (file_bytes s ino off (Suc i))"
    unfolding byte by (simp add: file_bytes_Suc store_bytes_append read_locals_at_def)
  have "read_data_loop (inode_ptr s ino) (stat_data_block_num s) buf len i ?l (s\<lparr>mem := ?m\<rparr>) =
      read_data_loop (inode_ptr s ino) (stat_data_block_num s) buf len (Suc i) (read_locals_at s ino off ?b (Suc i))
        (s\<lparr>mem := store_bytes (mem s) buf (file_bytes s ino off (Suc i))\<rparr>)"
    using i cont
    by (subst read_data_loop_step) (simp_all add: nl l2 m2 Let_def, simp_all add: read_locals_at_def)
  then show ?case using Suc.hyps(1) [of "Suc i" ?b] Suc.hyps(2) i by simp
qed

section \<open>Listing the directory\<close>

text \<open>The name the next \<open>dir_read\<close> delivers: the directory itself first, then the entries.\<close>

definition dir_name :: "'a filesys_scheme \<Rightarrow> int \<Rightarrow> u8 list" where
  "dir_name s idx = (if idx = - 1 then [0x2E] else entry_name s (nat idx))"

lemma cstr_store_field:
  fixes m :: mem and buf :: u32 and b :: bytes
  defines "m' \<equiv> (store_bytes m buf (str_field b 32))(buf + 32 := 0)"
  shows "cstr (ptr m' buf) (takeWhile (\<lambda>x. x \<noteq> 0) (map b [0..<32]))" (is "cstr _ ?cs")
proof -
  have le: "length ?cs \<le> 32" using length_takeWhile_le [of _ "map b [0..<32]"] by simp
  have f: "str_field b 32 = ?cs @ replicate (32 - length ?cs) 0" by (simp only: str_field_def Let_def)
  have d: "m' (buf + of_nat k) = (if k = 32 then 0 else str_field b 32 ! k)" if "k \<le> 32" for k
    using that store_bytes_inside [of k "str_field b 32" m buf] of_nat_u32_inj [of k 32]
    by (auto simp: m'_def le_less)
  have "m' (buf + of_nat k) = ?cs ! k" if "k < length ?cs" for k
    using that le d [of k] unfolding f by (simp add: nth_append)
  moreover have "0 \<notin> set ?cs" by (auto dest: set_takeWhileD)
  moreover have "m' (buf + of_nat (length ?cs)) = 0"
    using le d [of "length ?cs"] unfolding f by (auto simp: nth_append)
  ultimately show ?thesis by (simp add: cstr_def ptr_def)
qed

lemma store_field_outside:
  fixes m :: mem and buf :: u32
  assumes "\<And>i. i < 33 \<Longrightarrow> x \<noteq> buf + of_nat i"
  shows "((store_bytes m buf (str_field b 32))(buf + 32 := 0)) x = m x"
proof -
  have "store_bytes m buf (str_field b 32) x = m x"
    using assms by (intro store_bytes_outside) simp
  then show ?thesis using assms [of 32] by simp
qed

lemma strcpy_dot: "strcpy (\<lambda>_. lit ''.'') m d = Some (m(d := 0x2E, d + 1 := 0))"
  by (simp add: strcpy_def strcpy_loop.simps lit_def)

lemma dir_read_dot:
  assumes "buf \<noteq> 0" "directory_index s = - 1" "1 \<le> sint (stat_dir_entry_num s)"
  shows "dir_read buf n s = Some (1, s\<lparr>mem := (mem s)(buf := 0x2E, buf + 1 := 0), directory_index := 0\<rparr>)"
proof -
  have "strlen (ptr ((mem s)(buf := 0x2E, buf + 1 := 0)) buf) = Some (of_nat (length [0x2E :: u8]))"
    by (rule strlen_cstr) (simp add: cstr_def ptr_def)
  with assms show ?thesis by (simp add: dir_read_def strcpy_dot Let_def)
qed

lemma dir_read_entry:
  assumes "buf \<noteq> 0" "0 \<le> directory_index s" "directory_index s < sint (stat_dir_entry_num s) - 1"
    and disj: "disjoint_runs buf 32 (dentry_addr s (of_int (directory_index s))) 32"
  defines "nm \<equiv> entry_name s (nat (directory_index s))"
  shows "\<exists>m'. dir_read buf n s = Some (of_nat (length nm), s\<lparr>mem := m', directory_index := directory_index s + 1\<rparr>) \<and>
    cstr (ptr m' buf) nm \<and> (\<forall>x. (\<forall>i < 33. x \<noteq> buf + of_nat i) \<longrightarrow> m' x = mem s x)"
proof -
  let ?a = "dentry_addr s (of_int (directory_index s))"
  let ?m = "(store_bytes (mem s) buf (str_field (ptr (mem s) ?a) 32))(buf + 32 := 0)"
  have a: "?a = dentry_addr s (of_nat (nat (directory_index s)))" using assms(2) by simp
  have "nm = takeWhile (\<lambda>x. x \<noteq> 0) (map (ptr (mem s) ?a) [0..<32])"
    unfolding nm_def entry_name_def a load_bytes_def ptr_def ..
  then have c: "cstr (ptr ?m buf) nm" using cstr_store_field by metis
  have "strncpy (\<lambda>m. ptr m ?a) (mem s) buf 32 = store_bytes (mem s) buf (str_field (ptr (mem s) ?a) 32)"
    using strncpy_ptr_eq [of buf 32 ?a "mem s"] disj by simp
  then have "dir_read buf n s = Some (of_nat (length nm), s\<lparr>mem := ?m, directory_index := directory_index s + 1\<rparr>)"
    using assms(1-3) strlen_cstr [OF c] by (simp add: dir_read_def Let_def)
  then show ?thesis using c store_field_outside [of _ buf "mem s" "ptr (mem s) ?a"] by blast
qed

lemma dir_read_next:
  assumes "buf \<noteq> 0" and "- 1 \<le> directory_index s" and "directory_index s < sint (stat_dir_entry_num s) - 1"
    and "disjoint_runs buf 32 (dentry_addr s (of_int (directory_index s))) 32"
  shows "\<exists>m'. dir_read buf n s = Some (of_nat (length (dir_name s (directory_index s))),
      s\<lparr>mem := m', directory_index := directory_index s + 1\<rparr>) \<and>
    cstr (ptr m' buf) (dir_name s (directory_index s)) \<and>
    (\<forall>x. (\<forall>i < 33. x \<noteq> buf + of_nat i) \<longrightarrow> m' x = mem s x)"
proof (cases "directory_index s = - 1")
  case True
  let ?m = "(mem s)(buf := 0x2E, buf + 1 := 0)"
  have "?m x = mem s x" if "\<forall>i < 33. x \<noteq> buf + of_nat i" for x
    using that [rule_format, of 0] that [rule_format, of 1] by simp
  moreover have "cstr (ptr ?m buf) [0x2E]" by (simp add: cstr_def ptr_def)
  ultimately show ?thesis
    using dir_read_dot [OF assms(1) True, of n] True assms(3) by (intro exI [of _ ?m]) (auto simp: dir_name_def)
next
  case False
  then have "0 \<le> directory_index s" using assms(2) by simp
  from dir_read_entry [OF assms(1) this assms(3,4), of n] show ?thesis
    using False by (simp add: dir_name_def)
qed

text \<open>\<open>k\<close> reads in a row, as a program listing the directory makes them, and the names they deliver.\<close>

fun dir_reads :: "nat \<Rightarrow> u32 \<Rightarrow> i32 \<Rightarrow> 'a filesys_scheme \<Rightarrow> (u8 list list \<times> 'a filesys_scheme) option" where
  "dir_reads 0 buf n s = Some ([], s)"
| "dir_reads (Suc k) buf n s =
     (case dir_read buf n s of
        None \<Rightarrow> None
      | Some (c, s1) \<Rightarrow> map_option (\<lambda>(nms, s2). (load_bytes (mem s1) buf (unat c) # nms, s2)) (dir_reads k buf n s1))"

text \<open>The boot block and the state a listing does not change.\<close>

definition same_boot :: "'a filesys_scheme \<Rightarrow> 'a filesys_scheme \<Rightarrow> bool" where
  "same_boot s t \<longleftrightarrow> boot_block_addr t = boot_block_addr s \<and>
     (\<forall>i < 4096. mem t (boot_block_addr s + of_nat i) = mem s (boot_block_addr s + of_nat i))"

lemma same_boot_names:
  assumes "same_boot s t"
  shows "stat_dir_entry_num t = stat_dir_entry_num s" and "i < 62 \<Longrightarrow> entry_name t i = entry_name s i"
proof -
  have eq: "mem t (boot_block_addr s + of_nat i) = mem s (boot_block_addr s + of_nat i)" if "i < 4096" for i
    using assms that by (simp add: same_boot_def)
  have b: "boot_block_addr t = boot_block_addr s" using assms by (simp add: same_boot_def)
  show "stat_dir_entry_num t = stat_dir_entry_num s"
    unfolding stat_dir_entry_num_def b by (rule load32_cong) (simp add: eq)
  assume i: "i < 62"
  have "load_bytes (mem t) (dentry_addr t (of_nat i)) 32 = load_bytes (mem s) (dentry_addr s (of_nat i)) 32"
  proof (rule nth_equalityI)
    fix k assume "k < length (load_bytes (mem t) (dentry_addr t (of_nat i)) 32)"
    then have "k < 32" by simp
    then show "load_bytes (mem t) (dentry_addr t (of_nat i)) 32 ! k = load_bytes (mem s) (dentry_addr s (of_nat i)) 32 ! k"
      using eq [of "128 + 64 * i + k"] i by (simp add: dentry_addr_def b ac_simps)
  qed simp
  then show "entry_name t i = entry_name s i" by (simp add: entry_name_def)
qed

lemma entry_in_boot:
  assumes "- 1 \<le> i" "i < 62" "disjoint_runs buf 33 (boot_block_addr s) 4096"
  shows "disjoint_runs buf 32 (dentry_addr s (of_int i)) 32"
proof -
  have "dentry_addr s (of_int i) = boot_block_addr s + of_nat (nat (128 + 64 * i))"
    using assms(1) by (simp add: dentry_addr_def)
  then show ?thesis
    using disjoint_runs_shift [OF assms(3), of 0 32 "nat (128 + 64 * i)" 32] assms(1,2) by simp
qed

lemma load_bytes_cstr: "cstr (ptr m a) cs \<Longrightarrow> load_bytes m a (length cs) = cs"
  by (rule nth_equalityI) (auto simp: cstr_def ptr_def)

lemma dir_name_length: "length (dir_name s i) < 2 ^ 32"
  using entry_name_length [of s "nat i"] by (simp add: dir_name_def)

lemma dir_reads_from:
  assumes "buf \<noteq> 0" "disjoint_runs buf 33 (boot_block_addr s) 4096" "sint (stat_dir_entry_num s) \<le> 63"
    "- 1 \<le> directory_index s" "directory_index s + int k \<le> sint (stat_dir_entry_num s) - 1"
  shows "\<exists>t. dir_reads k buf n s = Some (map (\<lambda>j. dir_name s (directory_index s + int j)) [0..<k], t) \<and>
    directory_index t = directory_index s + int k \<and> same_boot s t"
  using assms
proof (induction k arbitrary: s)
  case 0
  then show ?case by (simp add: same_boot_def)
next
  case (Suc k)
  let ?i = "directory_index s"
  have "disjoint_runs buf 32 (dentry_addr s (of_int ?i)) 32"
    using Suc.prems by (intro entry_in_boot) auto
  then obtain m' where r: "dir_read buf n s = Some (of_nat (length (dir_name s ?i)), s\<lparr>mem := m', directory_index := ?i + 1\<rparr>)"
    and c: "cstr (ptr m' buf) (dir_name s ?i)" and o: "\<forall>x. (\<forall>i < 33. x \<noteq> buf + of_nat i) \<longrightarrow> m' x = mem s x"
    using dir_read_next [of buf s n] Suc.prems by auto
  let ?s = "s\<lparr>mem := m', directory_index := ?i + 1\<rparr>"
  have sb: "same_boot s ?s"
    using o disjoint_runsD [OF Suc.prems(2)] by (auto simp: same_boot_def) metis
  then obtain t where t: "dir_reads k buf n ?s = Some (map (\<lambda>j. dir_name ?s (?i + 1 + int j)) [0..<k], t)"
    "directory_index t = ?i + 1 + int k" "same_boot ?s t"
    using Suc.IH [of ?s] Suc.prems same_boot_names(1) [OF sb] by auto
  have "dir_name ?s (?i + 1 + int j) = dir_name s (?i + int (Suc j))" if "j < k" for j
    using that Suc.prems same_boot_names(2) [OF sb, of "nat (?i + 1 + int j)"] by (simp add: dir_name_def ac_simps)
  then have "map (\<lambda>j. dir_name ?s (?i + 1 + int j)) [0..<k] = map (\<lambda>j. dir_name s (?i + int j)) (map Suc [0..<k])"
    by (simp add: comp_def)
  moreover have "unat (of_nat (length (dir_name s ?i)) :: u32) = length (dir_name s ?i)"
    using dir_name_length [of s ?i] by (simp add: unat_of_nat take_bit_nat_eq_self)
  moreover have "[0..<Suc k] = 0 # map Suc [0..<k]" by (simp add: map_Suc_upt upt_conv_Cons)
  ultimately have "dir_reads (Suc k) buf n s = Some (map (\<lambda>j. dir_name s (?i + int j)) [0..<Suc k], t)"
    by (simp add: r t(1) load_bytes_cstr [OF c] del: upt_Suc)
  moreover have "same_boot s t" using sb t(3) by (auto simp: same_boot_def)
  ultimately show ?case using t(2) by auto
qed

lemma dir_reads_snoc:
  "dir_reads k buf n s = Some (nms, t) \<Longrightarrow> dir_read buf n t = Some (c, u) \<Longrightarrow>
     dir_reads (Suc k) buf n s = Some (nms @ [load_bytes (mem u) buf (unat c)], u)"
proof (induction k arbitrary: s nms)
  case (Suc k)
  from Suc.prems(1) obtain d v nms' where v: "dir_read buf n s = Some (d, v)" "dir_reads k buf n v = Some (nms', t)"
    "nms = load_bytes (mem v) buf (unat d) # nms'" by (auto split: option.splits)
  from Suc.IH [OF v(2) Suc.prems(2)] have "dir_reads (Suc k) buf n v = Some (nms' @ [load_bytes (mem u) buf (unat c)], u)" .
  then show ?case using v(1,3) dir_reads.simps(2) [of "Suc k" buf n s] by (simp del: dir_reads.simps)
qed simp

section \<open>Properties\<close>

text \<open>C7. Looking a name up finds the directory itself for ".", otherwise the first of the 62
  entries whose name, up to its first NUL or its 32 bytes, is exactly the wanted name; it fails
  exactly when no entry has that name.\<close>

theorem read_dentry_by_name_exact:
  assumes "cstr fname bs" and "bs \<noteq> [0x2E]"
  shows "(read_dentry_by_name fname s = None \<longleftrightarrow> (\<forall>i<62. entry_name s i \<noteq> bs)) \<and>
    (\<forall>d. read_dentry_by_name fname s = Some d \<longrightarrow>
       (\<exists>i<62. entry_name s i = bs \<and> (\<forall>j<i. entry_name s j \<noteq> bs) \<and>
          d = load_dentry (mem s) (dentry_addr s (of_nat i))))"
  using assms by (auto simp: read_dentry_by_name_eq find_upt_Some find_upt_None)

text \<open>A small image for the witnesses: one index node of 5000 bytes, whose first data block is
  block 1 and whose second is block 0, and one directory entry, \<open>shell\<close>, an executable.\<close>

definition sample_image :: mem where
  "sample_image x =
     (if x = 0 then 2 else if x = 4 then 1 else if x = 8 then 2
      else if x = 128 then 0x73 else if x = 129 then 0x68 else if x = 130 then 0x65
      else if x = 131 then 0x6C else if x = 132 then 0x6C else if x = 160 then 2
      else if x = 12288 then 0x7F else if x = 12289 then 0x45 else if x = 12290 then 0x4C else if x = 12291 then 0x46
      else if x = 12312 then 0x94 else if x = 12313 then 0x80 else if x = 12314 then 4 else if x = 12315 then 8
      else if x = 4096 then 0x88 else if x = 4097 then 0x13 else if x = 4100 then 1
      else if x = 8192 then 0x42 else if x = 16383 then 0x41 else 0)"

definition sample_fs :: filesys where
  "sample_fs = file_sys_init 0 \<lparr>mem = sample_image, io_log = [], io_dev = \<lambda>_ _. 0, if_flag = False,
     master_mask = 0xFF, slave_mask = 0xFF, rtc_interrupt_occurred = 0,
     terminal = \<lambda>_. \<lparr>pcb = 0, screen_x = 0, screen_y = 0\<rparr>, current_terminal = 0, curr_scheduler = 0,
     pcbs = \<lambda>_. \<lparr>pcb_pid = 0, parent_pid = - 1, halt_ebp = 0, halt_esp = 0, ebp_val = 0, esp_val = 0,
       argument = \<lambda>_. 0, file_descriptor = \<lambda>_. \<lparr>pointer = \<lparr>fops_open = Open_null, fops_close = Close_null,
         fops_read = Read_null, fops_write = Write_null\<rparr>, inode = 0, file_position = 0, flags = 0\<rparr>,
       parent_pcb = 0\<rparr>,
     boot_block_addr = 0, inode_addr = 0, data_block_addr = 0, directory_index = - 1\<rparr>"

lemma sample_fs_fields:
  "mem sample_fs = sample_image" "boot_block_addr sample_fs = 0" "inode_addr sample_fs = 4096"
  "data_block_addr sample_fs = 8192" "directory_index sample_fs = - 1"
  "stat_inode_num sample_fs = 1" "stat_data_block_num sample_fs = 2" "stat_dir_entry_num sample_fs = 2"
  by (simp_all add: sample_fs_def file_sys_init_def Let_def stat_inode_num_def stat_data_block_num_def
      stat_dir_entry_num_def load32_def sample_image_def)

theorem read_dentry_by_name_exact_witness:
  "read_dentry_by_name (lit ''shell'') sample_fs \<noteq> None"
proof -
  have "cstr (lit ''shell'') [0x73, 0x68, 0x65, 0x6C, 0x6C]" using cstr_lit [of "''shell''"] by (simp add: bytes_of_def)
  moreover have "entry_name sample_fs 0 = [0x73, 0x68, 0x65, 0x6C, 0x6C]"
    by (simp add: entry_name_def dentry_addr_def sample_fs_fields load_bytes_def upt_rec sample_image_def)
  ultimately show ?thesis
    using read_dentry_by_name_exact [of "lit ''shell''" "[0x73, 0x68, 0x65, 0x6C, 0x6C]" sample_fs] by fastforce
qed

lemma read_data_eq:
  assumes "fs_layout s" and "blocks_ok s ino"
    and "disjoint_runs buf (unat len) (boot_block_addr s) (image_size s)"
    and "unat off + unat len \<le> 4096 * max_blocks s"
  shows "read_data ino off buf len s =
    (if stat_inode_num s \<le> ino \<or> buf = 0 then (FAILURE, s)
     else if inode_length (mem s) (inode_ptr s ino) \<le> off then (0, s)
     else (len, s\<lparr>mem := store_bytes (mem s) buf (file_bytes s ino (unat off) (unat len))\<rparr>))"
proof (cases "stat_inode_num s \<le> ino \<or> buf = 0 \<or> inode_length (mem s) (inode_ptr s ino) \<le> off")
  case True
  then show ?thesis by (auto simp: read_data_def inode_ptr_def Let_def)
next
  case False
  let ?b = "unat off div 4096"
  have b: "off div 4096 = of_nat ?b" by (simp add: word_arith_nat_div)
  have o: "off - off div 4096 * 4096 = of_nat (unat off - 4096 * ?b)"
    unfolding b by (simp add: mult.commute)
  have "read_data ino off buf len s = read_data_loop (inode_ptr s ino) (stat_data_block_num s) buf len 0
      (read_locals_at s ino (unat off) ?b 0) (s\<lparr>mem := store_bytes (mem s) buf (file_bytes s ino (unat off) 0)\<rparr>)"
    using False
    by (simp add: read_data_def Let_def inode_ptr_def [symmetric] read_locals_at_def file_bytes_def o) (simp add: b)
  moreover have "ino < stat_inode_num s" using False by (simp add: not_le)
  ultimately have "read_data ino off buf len s =
      (len, s\<lparr>mem := store_bytes (mem s) buf (file_bytes s ino (unat off) (unat len))\<rparr>)"
    using assms by (simp add: read_data_loop_eq)
  with False show ?thesis by presburger
qed

text \<open>C6. \<open>read_data\<close> inside the image: -1 for an index node that does not exist or a null
  buffer, 0 at or past the end of the file; otherwise a read that stays within the blocks the
  loop accepts returns the number of bytes asked for, puts exactly the bytes of those positions
  of the file into the buffer and changes nothing else. The file's length bounds only the
  start: a read may run past it and still reports the full count.\<close>

theorem read_data_correct:
  assumes "fs_layout s" and "blocks_ok s ino"
    and "disjoint_runs buf (unat len) (boot_block_addr s) (image_size s)"
    and "unat off + unat len \<le> 4096 * max_blocks s"
  shows "read_data ino off buf len s =
    (if stat_inode_num s \<le> ino \<or> buf = 0 then (FAILURE, s)
     else if inode_length (mem s) (inode_ptr s ino) \<le> off then (0, s)
     else (len, s\<lparr>mem := store_bytes (mem s) buf (file_bytes s ino (unat off) (unat len))\<rparr>))"
  using assms by (rule read_data_eq)

theorem read_data_correct_witness:
  "fst (read_data 0 4095 0x100000 2 sample_fs) = 2 \<and>
   mem (snd (read_data 0 4095 0x100000 2 sample_fs)) 0x100000 = 0x41 \<and>
   mem (snd (read_data 0 4095 0x100000 2 sample_fs)) 0x100001 = 0x42"
proof -
  have "fs_layout sample_fs" by (simp add: fs_layout_def sample_fs_fields)
  moreover have "max_blocks sample_fs = 2" by (simp add: max_blocks_def sample_fs_fields)
  moreover have "blocks_ok sample_fs 0"
    unfolding blocks_ok_def \<open>max_blocks sample_fs = 2\<close>
  proof (intro allI impI)
    fix k :: nat assume "k < 2"
    then consider "k = 0" | "k = 1" by linarith
    then show "inode_data_block (mem sample_fs) (inode_ptr sample_fs 0) (of_nat k) < stat_data_block_num sample_fs"
      by cases (simp_all add: inode_data_block_def inode_ptr_def sample_fs_fields load32_def sample_image_def)
  qed
  moreover have "disjoint_runs 0x100000 (unat (2 :: u32)) (boot_block_addr sample_fs) (image_size sample_fs)"
    by (rule disjoint_runs_ordered) (simp_all add: image_size_def sample_fs_fields)
  ultimately have "read_data 0 4095 0x100000 2 sample_fs =
      (2, sample_fs\<lparr>mem := store_bytes sample_image 0x100000 (file_bytes sample_fs 0 4095 2)\<rparr>)"
    using read_data_correct [of sample_fs 0 "0x100000" 2 4095]
    by (simp add: sample_fs_fields inode_length_def inode_ptr_def load32_def sample_image_def)
  moreover have "file_bytes sample_fs 0 4095 2 = [0x41, 0x42]"
  proof -
    have "inode_data_block sample_image 4096 0 = 1" "inode_data_block sample_image 4096 1 = 0"
      by (simp_all add: inode_data_block_def load32_def sample_image_def)
    then have a: "file_byte_addr sample_fs 0 (4095 + 0) = 16383" "file_byte_addr sample_fs 0 (4095 + 1) = 8192"
      by (simp_all add: file_byte_addr_def inode_ptr_def sample_fs_fields)
    have "[0..<2 :: nat] = [0, 1]" by (simp add: upt_rec)
    then have "file_bytes sample_fs 0 4095 2 = [sample_image 16383, sample_image 8192]"
      unfolding file_bytes_def by (simp only: list.map a sample_fs_fields)
    then show ?thesis by (simp add: sample_image_def)
  qed
  ultimately show ?thesis by simp
qed

text \<open>C8. A program that lists the directory: from the start of a listing, reading once more than the
  directory has entries delivers ".", then the name of every entry in order, then an empty
  read, after which the next listing starts over. The image is not disturbed, and every read
  writes at most the 33 bytes of the buffer, whatever count it was asked for.\<close>

theorem dir_listing:
  assumes "buf \<noteq> 0" and "disjoint_runs buf 33 (boot_block_addr s) 4096"
    and "1 \<le> sint (stat_dir_entry_num s)" and "sint (stat_dir_entry_num s) \<le> 63"
    and "directory_index s = - 1"
  shows "\<exists>t. dir_reads (Suc (nat (sint (stat_dir_entry_num s)))) buf n s =
      Some ([0x2E] # map (entry_name s) [0..<nat (sint (stat_dir_entry_num s)) - 1] @ [[]], t) \<and>
    directory_index t = - 1 \<and> same_boot s t"
proof -
  let ?N = "nat (sint (stat_dir_entry_num s))"
  obtain t where t: "dir_reads ?N buf n s = Some (map (\<lambda>j. dir_name s (- 1 + int j)) [0..<?N], t)"
    "directory_index t = - 1 + int ?N" "same_boot s t"
    using dir_reads_from [of buf s ?N n] assms by auto
  have "dir_read buf n t = Some (0, t\<lparr>directory_index := - 1\<rparr>)"
    using t(2) assms(1,3) same_boot_names(1) [OF t(3)] by (simp add: dir_read_def Let_def)
  from dir_reads_snoc [OF t(1) this]
  have "dir_reads (Suc ?N) buf n s = Some (map (\<lambda>j. dir_name s (- 1 + int j)) [0..<?N] @ [[]], t\<lparr>directory_index := - 1\<rparr>)"
    by simp
  moreover obtain K where K: "?N = Suc K" using assms(3) by (cases ?N) auto
  moreover have "map (\<lambda>j. dir_name s (- 1 + int j)) [0..<Suc K] = [0x2E] # map (entry_name s) [0..<K]"
  proof -
    have "[0..<Suc K] = 0 # map Suc [0..<K]" by (simp add: map_Suc_upt upt_conv_Cons)
    then show ?thesis by (simp add: dir_name_def del: upt_Suc)
  qed
  moreover have "same_boot s (t\<lparr>directory_index := - 1\<rparr>)" using t(3) by (simp add: same_boot_def)
  ultimately show ?thesis by auto
qed

theorem dir_listing_witness:
  "\<exists>t. dir_reads 3 0x100000 32 sample_fs = Some ([[0x2E], [0x73, 0x68, 0x65, 0x6C, 0x6C], []], t)"
proof -
  have "entry_name sample_fs 0 = [0x73, 0x68, 0x65, 0x6C, 0x6C]"
    by (simp add: entry_name_def dentry_addr_def sample_fs_fields load_bytes_def upt_rec sample_image_def)
  moreover have "disjoint_runs 0x100000 33 (boot_block_addr sample_fs) 4096"
    by (rule disjoint_runs_ordered) (simp_all add: sample_fs_fields)
  ultimately show ?thesis
    using dir_listing [of "0x100000" sample_fs 32] by (simp add: sample_fs_fields numeral_3_eq_3) blast
qed

end
