(* ===== verification/Paging.thy ===== *)
theory Paging
  imports File_Sys_Spec
begin

text \<open>
  Paging, \<^verbatim>\<open>student-distrib/paging.c\<close>, \<open>flush_tlb\<close> of
  \<^verbatim>\<open>student-distrib/system_call_asm.S\<close>, and the address translation the processor performs
  with the tables. The kernel keeps one page directory and one page table; the four megabytes
  at 128 MB (directory entry 32) are the window through which the running program's frame is
  seen. \<^const>\<open>mem\<close> is memory as the processor sees it, so reloading the translation buffer
  exchanges the bytes of the window: the frame mapped so far is put back among the frames and
  the frame the directory now names is brought in.
\<close>

record paging = filesys +
  page_directory :: "u32 \<Rightarrow> u32"
  page_table_video :: "u32 \<Rightarrow> u32"
  page_vid_mem :: "u32 \<Rightarrow> u32"
  page_directory_addr :: u32
  page_table_video_addr :: u32
  cr0 :: u32
  cr3 :: u32
  cr4 :: u32
  tlb_user :: u32
  frames :: "u32 \<Rightarrow> mem"

abbreviation (input) initial_flag_vid :: u32 where "initial_flag_vid \<equiv> 0x03"
abbreviation (input) initial_flag_ker :: u32 where "initial_flag_ker \<equiv> 0x83"
abbreviation (input) vid_mem_flag :: u32 where "vid_mem_flag \<equiv> 0x07"
abbreviation (input) PAGING_USER_ON :: u32 where "PAGING_USER_ON \<equiv> 0x87"
abbreviation (input) kernel_address :: u32 where "kernel_address \<equiv> 0x00400000"
abbreviation (input) MB4 :: u32 where "MB4 \<equiv> 0x400000"

definition user_window :: "u32 \<Rightarrow> bool" where
  "user_window a = (drop_bit 22 a = 32)"

definition frame_of :: "u32 \<Rightarrow> u32" where
  "frame_of pde = pde AND 0xFFC00000"

definition flush_tlb :: "'a paging_scheme \<Rightarrow> 'a paging_scheme" where
  "flush_tlb s =
     (let old = frame_of (tlb_user s); new = frame_of (page_directory s 32);
          fr = (frames s)(old := mem s)
      in s\<lparr>tlb_user := page_directory s 32, frames := fr,
           mem := (\<lambda>a. if user_window a then fr new a else mem s a)\<rparr>)"

definition paging_init :: "'a paging_scheme \<Rightarrow> 'a paging_scheme" where
  "paging_init s0 =
     (let s = s0\<lparr>page_directory := (\<lambda>i. if i < 1024 then 0 else page_directory s0 i),
                 page_table_video := (\<lambda>i. if i < 1024 then 0 else page_table_video s0 i),
                 page_vid_mem := (\<lambda>i. if i < 1024 then 0 else page_vid_mem s0 i)\<rparr>;
          s = s\<lparr>page_directory := (page_directory s)(0 := page_table_video_addr s OR initial_flag_vid)\<rparr>;
          s = s\<lparr>page_table_video := (page_table_video s)
                 (0xB8 := 0xB8000 OR initial_flag_vid,
                  0xB9 := 0xB9000 OR initial_flag_vid,
                  0xBA := 0xBA000 OR initial_flag_vid,
                  0xBB := 0xBB000 OR initial_flag_vid)\<rparr>;
          s = s\<lparr>page_directory := (page_directory s)(1 := kernel_address OR initial_flag_ker)\<rparr>
      in s\<lparr>cr3 := page_directory_addr s, cr4 := cr4 s OR 0x10, cr0 := cr0 s OR 0x80000001\<rparr>)"

definition map_video_memory :: "u32 \<Rightarrow> u32 \<Rightarrow> 'a paging_scheme \<Rightarrow> 'a paging_scheme" where
  "map_video_memory virtual_addr phys_addr s0 =
     (let s = s0\<lparr>page_directory := (page_directory s0)
                   (virtual_addr div MB4 := page_table_video_addr s0 OR vid_mem_flag)\<rparr>;
          s = s\<lparr>page_table_video := (page_table_video s)(0 := phys_addr OR vid_mem_flag)\<rparr>
      in flush_tlb s)"

section \<open>Address translation\<close>

text \<open>
  The two-level walk of the processor with 4 MB pages enabled: bit 0 of an entry is
  present, bit 1 writable, bit 2 user, bit 7 of a directory entry a 4 MB page. \<open>None\<close> is a
  page fault. A directory entry that points to a table other than \<open>page_table_video\<close> (the
  kernel has none) has no translation here.
\<close>

definition pte_allows :: "bool \<Rightarrow> bool \<Rightarrow> u32 \<Rightarrow> bool" where
  "pte_allows user wr e = (bit e 0 \<and> (user \<longrightarrow> bit e 2 \<and> (wr \<longrightarrow> bit e 1)))"

definition translate :: "'a paging_scheme \<Rightarrow> bool \<Rightarrow> bool \<Rightarrow> u32 \<Rightarrow> u32 option" where
  "translate s user wr a =
     (let pde = page_directory s (drop_bit 22 a)
      in if \<not> pte_allows user wr pde then None
         else if bit pde 7 then Some (frame_of pde OR (a AND 0x003FFFFF))
         else if pde AND 0xFFFFF000 \<noteq> page_table_video_addr s then None
         else
           let pte = page_table_video s (drop_bit 12 a AND 0x3FF)
           in if \<not> pte_allows user wr pte then None
              else Some ((pte AND 0xFFFFF000) OR (a AND 0xFFF)))"

definition aligned_tables :: "'a paging_scheme \<Rightarrow> bool" where
  "aligned_tables s \<longleftrightarrow> page_table_video_addr s AND 0xFFF = 0"

section \<open>Splitting an address\<close>

lemma unat_drop_bit_u32: "unat (drop_bit n (a :: u32)) = unat a div 2 ^ n"
proof -
  have "take_bit 32 (unat a) = unat a"
    using unsigned_less [of a, where ?'a = nat] by (simp add: take_bit_nat_eq_self)
  then show ?thesis by (simp add: unsigned_drop_bit_eq flip: drop_bit_eq_div)
qed

lemma drop_bit_range:
  "drop_bit n (a :: u32) = k \<longleftrightarrow> 2 ^ n * unat k \<le> unat a \<and> unat a < 2 ^ n * (unat k + 1)"
proof -
  have "drop_bit n a = k \<longleftrightarrow> unat a div 2 ^ n = unat k"
    by (simp only: word_unat_eq_iff unat_drop_bit_u32)
  also have "\<dots> \<longleftrightarrow> 2 ^ n * unat k \<le> unat a \<and> unat a < 2 ^ n * (unat k + 1)"
  proof
    assume "unat a div 2 ^ n = unat k"
    then show "2 ^ n * unat k \<le> unat a \<and> unat a < 2 ^ n * (unat k + 1)"
      using dividend_less_times_div [of "2 ^ n" "unat a"] times_div_less_eq_dividend [of "2 ^ n" "unat a"] by auto
  qed (auto intro: div_nat_eqI)
  finally show ?thesis .
qed

lemma page_split: "((a :: u32) AND 0xFFFFF000) OR (a AND 0xFFF) = a"
proof -
  have "(0xFFFFF000 :: u32) = NOT 0xFFF" by simp
  then show ?thesis by (metis and.commute bit.conj_disj_distrib bit.disj_cancel_left bit.conj_one_right)
qed

lemma frame_split: "((a :: u32) AND 0xFFC00000) OR (a AND 0x3FFFFF) = a"
proof -
  have "(0xFFC00000 :: u32) = NOT 0x3FFFFF" by simp
  then show ?thesis by (metis and.commute bit.conj_disj_distrib bit.disj_cancel_left bit.conj_one_right)
qed

lemma page_base: "(a :: u32) AND 0xFFFFF000 = push_bit 12 (drop_bit 12 a)"
proof -
  have m: "(0xFFFFF000 :: u32) = NOT (mask 12)" by (simp add: mask_eq_exp_minus_1)
  show ?thesis unfolding m by (auto intro!: bit_word_eqI simp: bit_simps)
qed

lemma frame_base: "(a :: u32) AND 0xFFC00000 = push_bit 22 (drop_bit 22 a)"
proof -
  have m: "(0xFFC00000 :: u32) = NOT (mask 22)" by (simp add: mask_eq_exp_minus_1)
  show ?thesis unfolding m by (auto intro!: bit_word_eqI simp: bit_simps)
qed

lemma dir_index_less: "drop_bit 22 (a :: u32) < 1024"
  using unsigned_less [of a, where ?'a = nat] by (simp add: word_less_nat_alt unat_drop_bit_u32)

lemma low_table_index:
  assumes "drop_bit 22 (a :: u32) = 0"
  shows "drop_bit 12 a AND 0x3FF = drop_bit 12 a"
proof -
  have m: "(0x3FF :: u32) = mask 10" by (simp add: mask_eq_exp_minus_1)
  have "drop_bit 10 (drop_bit 12 a) = 0" using assms by simp
  then show ?thesis unfolding m by (metis take_bit_eq_mask take_bit_eq_self_iff_drop_bit_eq_0)
qed

section \<open>What the tables map\<close>

lemma pte_bits:
  "pte_allows u w (0x400083 :: u32) = (\<not> u)" "pte_allows u w (0xB8003 :: u32) = (\<not> u)"
  "pte_allows u w (0xB9003 :: u32) = (\<not> u)" "pte_allows u w (0xBA003 :: u32) = (\<not> u)"
  "pte_allows u w (0xBB003 :: u32) = (\<not> u)" "\<not> pte_allows u w 0"
  by (simp_all add: pte_allows_def)

lemma table_entry:
  assumes "aligned_tables s" and "f = 3 \<or> f = 7"
  shows "pte_allows u w (page_table_video_addr s OR f) = pte_allows u w f"
    "\<not> bit (page_table_video_addr s OR f) 7"
    "(page_table_video_addr s OR f) AND 0xFFFFF000 = page_table_video_addr s"
proof -
  let ?t = "page_table_video_addr s"
  have t0: "?t AND 0xFFF = 0" using assms(1) by (simp add: aligned_tables_def)
  have m: "(0xFFF :: u32) = mask 12" by (simp add: mask_eq_exp_minus_1)
  have tb: "\<not> bit ?t k" if "k < 12" for k
  proof -
    have "\<not> bit (?t AND mask 12) k" using t0 unfolding m by simp
    then show ?thesis using that by (simp add: bit_simps)
  qed
  show "pte_allows u w (?t OR f) = pte_allows u w f" by (simp add: pte_allows_def bit_or_iff tb)
  show "\<not> bit (?t OR f) 7" using assms(2) by (auto simp: bit_or_iff tb)
  have "f AND 0xFFFFF000 = 0" using assms(2) by auto
  moreover have "?t AND 0xFFFFF000 = ?t" using page_split [of ?t] t0 by simp
  ultimately show "(?t OR f) AND 0xFFFFF000 = ?t" by (simp add: bit.conj_disj_distrib2)
qed

lemma range_video:
  "(0xB8000 \<le> a \<and> a < 0xBC000) \<longleftrightarrow>
     (drop_bit 12 a = 0xB8 \<or> drop_bit 12 a = 0xB9 \<or> drop_bit 12 a = 0xBA \<or> drop_bit 12 (a :: u32) = 0xBB)"
  unfolding drop_bit_range word_le_nat_alt word_less_nat_alt by (simp, linarith)

lemma range_kernel: "(0x400000 \<le> a \<and> a < 0x800000) \<longleftrightarrow> drop_bit 22 (a :: u32) = 1"
  unfolding drop_bit_range word_le_nat_alt word_less_nat_alt by simp

lemma drop_12_22: "drop_bit 12 (a :: u32) = k \<Longrightarrow> k < 1024 \<Longrightarrow> drop_bit 22 a = 0"
  unfolding drop_bit_range word_less_nat_alt by simp

lemma paging_init_tables:
  "k < 1024 \<Longrightarrow> page_directory (paging_init s) k =
     (if k = 0 then page_table_video_addr s OR 3 else if k = 1 then 0x400083 else 0)"
  "k < 1024 \<Longrightarrow> page_table_video (paging_init s) k =
     (if k = 0xB8 \<or> k = 0xB9 \<or> k = 0xBA \<or> k = 0xBB then push_bit 12 k OR 3 else 0)"
  "page_table_video_addr (paging_init s) = page_table_video_addr s"
  by (auto simp: paging_init_def Let_def)

lemma translate_table_page:
  assumes "aligned_tables s" "drop_bit 22 a = d" "page_directory s d = page_table_video_addr s OR f" "f = 3 \<or> f = 7"
  shows "translate s u w a =
    (let pte = page_table_video s (drop_bit 12 a AND 0x3FF)
     in if pte_allows u w f \<and> pte_allows u w pte then Some ((pte AND 0xFFFFF000) OR (a AND 0xFFF)) else None)"
  using assms by (simp add: translate_def table_entry Let_def)

lemma translate_big_page:
  assumes "drop_bit 22 a = d" "bit (page_directory s d) 7"
  shows "translate s u w a =
    (if pte_allows u w (page_directory s d) then Some (frame_of (page_directory s d) OR (a AND 0x3FFFFF)) else None)"
  using assms by (simp add: translate_def Let_def)

lemma paging_init_aligned [simp]: "aligned_tables (paging_init s) = aligned_tables s"
  by (simp add: aligned_tables_def paging_init_tables)

lemma translate_paging_init:
  assumes "aligned_tables s"
  shows "translate (paging_init s) u w a =
    (if \<not> u \<and> (0xB8000 \<le> a \<and> a < 0xBC000 \<or> 0x400000 \<le> a \<and> a < 0x800000) then Some a else None)"
proof -
  let ?d = "drop_bit 22 a" and ?t = "drop_bit 12 a"
  have d: "?d < 1024" by (rule dir_index_less)
  consider "?d = 0" | "?d = 1" | "?d \<noteq> 0" "?d \<noteq> 1" by blast
  then show ?thesis
  proof cases
    case 1
    let ?p = "push_bit 12 ?t OR 3"
    have t: "?t < 1024"
      using 1 by (simp add: drop_bit_range word_less_nat_alt unat_drop_bit_u32)
    have e: "(?p AND 0xFFFFF000) OR (a AND 0xFFF) = a"
      using page_split [of a] by (simp add: bit.conj_disj_distrib2 page_base [symmetric] and.assoc)
    have al: "pte_allows u w ?p = (\<not> u)" if "?t = 0xB8 \<or> ?t = 0xB9 \<or> ?t = 0xBA \<or> ?t = 0xBB"
      using that by (auto simp: pte_bits)
    have "pte_allows u w 3 = (\<not> u)" by (simp add: pte_allows_def)
    then have "translate (paging_init s) u w a =
        (let pte = (if ?t = 0xB8 \<or> ?t = 0xB9 \<or> ?t = 0xBA \<or> ?t = 0xBB then ?p else 0)
         in if \<not> u \<and> pte_allows u w pte then Some ((pte AND 0xFFFFF000) OR (a AND 0xFFF)) else None)"
      using translate_table_page [of "paging_init s" a 0 3 u w] assms 1 t
      by (simp add: paging_init_tables low_table_index Let_def)
    moreover have "\<not> (0x400000 \<le> a \<and> a < 0x800000)" using 1 range_kernel [of a] by simp
    ultimately show ?thesis
      using al e range_video [of a] by (simp add: Let_def pte_bits)
  next
    case 2
    have "frame_of 0x400083 = (a AND 0xFFC00000)"
      unfolding frame_base 2 by (simp add: frame_of_def)
    then have "translate (paging_init s) u w a = (if \<not> u then Some a else None)"
      using translate_big_page [of a 1 "paging_init s" u w] 2 frame_split [of a]
      by (simp add: paging_init_tables pte_bits)
    then show ?thesis using 2 range_kernel [of a] by auto
  next
    case 3
    then have "translate (paging_init s) u w a = None"
      using d by (simp add: translate_def paging_init_tables pte_bits Let_def)
    moreover have "\<not> (0xB8000 \<le> a \<and> a < 0xBC000)"
      using 3(1) drop_12_22 [of a] range_video [of a] by fastforce
    moreover have "\<not> (0x400000 \<le> a \<and> a < 0x800000)" using 3(2) range_kernel [of a] by simp
    ultimately show ?thesis by auto
  qed
qed

section \<open>The frames of the programs\<close>

text \<open>The directory entry and the physical frame of the program with identifier \<open>p\<close>.\<close>

definition user_pde :: "i32 \<Rightarrow> u32" where
  "user_pde p = (0x800000 + p * MB4) OR PAGING_USER_ON"

definition user_frame :: "i32 \<Rightarrow> u32" where
  "user_frame p = 0x800000 + p * MB4"

lemma u32_less_6: "(p :: u32) < 6 \<longleftrightarrow> p = 0 \<or> p = 1 \<or> p = 2 \<or> p = 3 \<or> p = 4 \<or> p = 5"
proof
  assume "p < 6"
  then have "unat p < 6" by (simp add: word_less_nat_alt)
  then consider "unat p = 0" | "unat p = 1" | "unat p = 2" | "unat p = 3" | "unat p = 4" | "unat p = 5" by linarith
  then show "p = 0 \<or> p = 1 \<or> p = 2 \<or> p = 3 \<or> p = 4 \<or> p = 5"
    by cases (simp_all add: word_unat_eq_iff)
qed auto

lemma user_pde_frame:
  assumes "p < 6"
  shows "frame_of (user_pde p) = user_frame p" "bit (user_pde p) 7" "pte_allows u w (user_pde p)"
  using assms by (auto simp: u32_less_6 user_pde_def user_frame_def frame_of_def pte_allows_def)

lemma user_frame_inj: "p < 6 \<Longrightarrow> q < 6 \<Longrightarrow> user_frame p = user_frame q \<longleftrightarrow> p = q"
  by (auto simp: u32_less_6 user_frame_def)

lemma translate_user_window:
  assumes "page_directory s 32 = user_pde p" "p < 6" "user_window a"
  shows "translate s u w a = Some (user_frame p OR (a AND 0x3FFFFF))"
  using assms translate_big_page [of a 32 s u w] by (simp add: user_window_def user_pde_frame)

lemma drop_frame: "p < 6 \<Longrightarrow> drop_bit 22 (user_frame p OR (a AND 0x3FFFFF)) = p + 2"
  by (auto simp: u32_less_6 user_frame_def)

definition switch_user :: "i32 \<Rightarrow> 'a paging_scheme \<Rightarrow> 'a paging_scheme" where
  "switch_user p s = flush_tlb (s\<lparr>page_directory := (page_directory s)(32 := user_pde p)\<rparr>)"

lemma switch_user_fields [frame_simps]:
  "tlb_user (switch_user p s) = user_pde p" "page_directory (switch_user p s) 32 = user_pde p"
  "k \<noteq> 32 \<Longrightarrow> page_directory (switch_user p s) k = page_directory s k"
  "page_table_video (switch_user p s) = page_table_video s"
  "terminal (switch_user p s) = terminal s" "current_terminal (switch_user p s) = current_terminal s"
  "curr_scheduler (switch_user p s) = curr_scheduler s" "pcbs (switch_user p s) = pcbs s"
  "boot_block_addr (switch_user p s) = boot_block_addr s" "inode_addr (switch_user p s) = inode_addr s"
  "data_block_addr (switch_user p s) = data_block_addr s" "directory_index (switch_user p s) = directory_index s"
  by (simp_all add: switch_user_def flush_tlb_def Let_def)

lemma switch_user_mem [mem_simps]:
  "mem (switch_user p s) a =
     (if user_window a \<and> frame_of (tlb_user s) \<noteq> frame_of (user_pde p)
      then frames s (frame_of (user_pde p)) a else mem s a)"
  by (simp add: switch_user_def flush_tlb_def Let_def)

lemma switch_user_frames [mem_simps]:
  "frames (switch_user p s) = (frames s)(frame_of (tlb_user s) := mem s)"
  by (simp add: switch_user_def flush_tlb_def Let_def)

section \<open>What a program can reach\<close>

text \<open>
  \<open>user_tables p s\<close>: the tables as the kernel keeps them after \<open>paging_init\<close> while program \<open>p\<close> runs.
  Only three entries ever change: directory entry 32, the program's frame; directory entry 34,
  which \<open>vidmap\<close> points to the page table; and entry 0 of that table, one of the text pages.
\<close>

definition text_base :: "u32 \<Rightarrow> bool" where
  "text_base a \<longleftrightarrow> a = 0xB8000 \<or> a = 0xB9000 \<or> a = 0xBA000 \<or> a = 0xBB000"

definition user_tables :: "i32 \<Rightarrow> 'a paging_scheme \<Rightarrow> bool" where
  "user_tables p s \<longleftrightarrow> p < 6 \<and> aligned_tables s \<and> page_directory s 32 = user_pde p \<and>
     (page_directory s 34 = 0 \<or> page_directory s 34 = page_table_video_addr s OR 7) \<and>
     (\<forall>k < 1024. k \<noteq> 32 \<and> k \<noteq> 34 \<longrightarrow> page_directory s k = (if k = 0 then page_table_video_addr s OR 3 else if k = 1 then 0x400083 else 0)) \<and>
     (page_table_video s 0 = 0 \<or> (\<exists>v. text_base v \<and> page_table_video s 0 = v OR 7)) \<and>
     (\<forall>k < 1024. k \<noteq> 0 \<longrightarrow> page_table_video s k =
       (if k = 0xB8 then 0xB8003 else if k = 0xB9 then 0xB9003 else if k = 0xBA then 0xBA003 else if k = 0xBB then 0xBB003 else 0))"

lemma user_tables_cong:
  assumes "page_directory s' = page_directory s" "page_table_video s' = page_table_video s"
    "page_table_video_addr s' = page_table_video_addr s"
  shows "user_tables p s' = user_tables p s"
  using assms by (simp add: user_tables_def aligned_tables_def)

lemma user_tables_init: "p < 6 \<Longrightarrow> aligned_tables s \<Longrightarrow> user_tables p (switch_user p (paging_init s))"
  by (simp add: user_tables_def aligned_tables_def frame_simps paging_init_tables)
    (simp add: switch_user_def flush_tlb_def Let_def paging_init_tables)

lemma user_tables_switch: "user_tables p s \<Longrightarrow> q < 6 \<Longrightarrow> user_tables q (switch_user q s)"
  by (simp add: user_tables_def aligned_tables_def frame_simps) (simp add: switch_user_def flush_tlb_def Let_def)

lemma user_tables_vidmap: "user_tables p s \<Longrightarrow> text_base v \<Longrightarrow> user_tables p (map_video_memory 0x8800000 v s)"
  by (simp add: user_tables_def aligned_tables_def map_video_memory_def flush_tlb_def Let_def) blast

lemma vidmap_page_index:
  "drop_bit 12 (a :: u32) = 0x8800 \<longleftrightarrow> drop_bit 22 a = 34 \<and> drop_bit 12 a AND 0x3FF = 0"
proof -
  have m: "(0x3FF :: u32) = mask 10" by (simp add: mask_eq_exp_minus_1)
  have t: "unat (drop_bit 12 a AND 0x3FF) = unat a div 4096 mod 1024"
    unfolding m take_bit_eq_mask [symmetric] unsigned_take_bit_eq unat_drop_bit_u32 by (simp add: take_bit_eq_mod)
  have i: "drop_bit 12 a AND 0x3FF = 0 \<longleftrightarrow> unat a div 4096 mod 1024 = 0" unfolding t [symmetric] by (simp only: unsigned_eq_0_iff)
  have d: "drop_bit 22 a = 34 \<longleftrightarrow> unat a div 4096 div 1024 = 34"
    by (simp add: word_unat_eq_iff unat_drop_bit_u32 flip: div_mult2_eq)
  have p: "drop_bit 12 a = 0x8800 \<longleftrightarrow> unat a div 4096 = 34816"
    by (simp add: word_unat_eq_iff unat_drop_bit_u32)
  have "n = 34816 \<longleftrightarrow> n div 1024 = 34 \<and> n mod 1024 = 0" for n :: nat
    using div_mult_mod_eq [of n 1024] by auto
  then show ?thesis unfolding i d p .
qed

lemma text_frame:
  assumes "text_base v"
  shows "(v OR 7) AND 0xFFFFF000 = v" "(v OR (c AND 0xFFF)) AND 0xFFFFF000 = v" "drop_bit 22 (v OR (c AND 0xFFF)) = 0"
proof -
  show "(v OR 7) AND 0xFFFFF000 = v" using assms by (auto simp: text_base_def)
  have v: "v AND 0xFFFFF000 = v" "drop_bit 22 v = 0" using assms by (auto simp: text_base_def)
  have m: "(0xFFF :: u32) = mask 12" "(0xFFFFF000 :: u32) = NOT (mask 12)" by (simp_all add: mask_eq_exp_minus_1)
  have "(c AND 0xFFF) AND 0xFFFFF000 = 0" unfolding m by (auto intro!: bit_word_eqI simp: bit_simps)
  then show "(v OR (c AND 0xFFF)) AND 0xFFFFF000 = v" using v(1) by (simp only: bit.conj_disj_distrib2 bit.disj_zero_right)
  have "drop_bit 22 (c AND 0xFFF) = 0" unfolding m by (auto intro!: bit_word_eqI simp: bit_simps)
  then show "drop_bit 22 (v OR (c AND 0xFFF)) = 0" using v(2) by simp
qed

lemma translate_user:
  assumes "user_tables p s"
  shows "translate s True w a =
    (if user_window a then Some (user_frame p OR (a AND 0x3FFFFF))
     else if drop_bit 12 a = 0x8800 \<and> page_directory s 34 \<noteq> 0 \<and> page_table_video s 0 \<noteq> 0
     then Some ((page_table_video s 0 AND 0xFFFFF000) OR (a AND 0xFFF)) else None)"
proof -
  note ut = assms [unfolded user_tables_def]
  let ?d = "drop_bit 22 a" and ?k = "drop_bit 12 a AND 0x3FF"
  have al: "aligned_tables s" using ut by blast
  have d: "?d < 1024" by (rule dir_index_less)
  have k: "?k < 1024"
  proof -
    have "?k \<le> 0x3FF" by (rule word_and_le1)
    then show ?thesis by (rule order_le_less_trans) simp
  qed
  consider (window) "?d = 32" | (vid) "?d = 34" | (table) "?d = 0" | (other) "?d \<noteq> 32" "?d \<noteq> 34" "?d \<noteq> 0" by blast
  then show ?thesis
  proof cases
    case window
    then have "user_window a" by (simp add: user_window_def)
    then show ?thesis using translate_user_window [of s p a] ut by simp
  next
    case vid
    then have nw: "\<not> user_window a" by (simp add: user_window_def)
    show ?thesis
    proof (cases "page_directory s 34 = 0")
      case True
      then show ?thesis using vid nw by (simp add: translate_def pte_bits)
    next
      case False
      then have e: "page_directory s 34 = page_table_video_addr s OR 7" using ut by blast
      have p7: "pte_allows True w 7" by (simp add: pte_allows_def)
      have v: "pte_allows True w (page_table_video s ?k) \<longleftrightarrow> ?k = 0 \<and> page_table_video s 0 \<noteq> 0"
      proof (cases "?k = 0")
        case True
        have "pte_allows True w (v OR 7)" "v OR 7 \<noteq> 0" if "text_base v" for v
          using that by (auto simp: text_base_def pte_allows_def)
        then show ?thesis using True ut pte_bits(6) by auto
      next
        case False
        then have "page_table_video s ?k \<in> {0, 0xB8003, 0xB9003, 0xBA003, 0xBB003}" using ut k by simp
        then have "\<not> pte_allows True w (page_table_video s ?k)" by (elim insertE emptyE) (simp_all only: pte_bits simp_thms)
        then show ?thesis using False by blast
      qed
      show ?thesis
        using translate_table_page [OF al vid e, of True w] p7 v vidmap_page_index [of a] vid nw False
        by (auto simp: Let_def)
    qed
  next
    case table
    then have "page_directory s ?d = page_table_video_addr s OR 3" using ut by simp
    moreover have "\<not> pte_allows True w 3" by (simp add: pte_allows_def)
    ultimately have "translate s True w a = None" using table_entry(1) [OF al, of 3] by (simp add: translate_def)
    then show ?thesis using table vidmap_page_index [of a] by (simp add: user_window_def)
  next
    case other
    then have "page_directory s ?d = (if ?d = 1 then 0x400083 else 0)" using ut d by simp
    then have "translate s True w a = None" by (simp add: translate_def pte_bits)
    then show ?thesis using other vidmap_page_index [of a] by (simp add: user_window_def)
  qed
qed

text \<open>The two kinds of access of a program.\<close>

lemma translate_user_cases:
  assumes ut: "user_tables p s" and x: "translate s True w a = Some x"
  shows "user_window a \<and> drop_bit 22 x = p + 2 \<or>
    drop_bit 12 a = 0x8800 \<and> text_base (x AND 0xFFFFF000) \<and> drop_bit 22 x = 0"
proof (cases "user_window a")
  case True
  then have "x = user_frame p OR (a AND 0x3FFFFF)" using x by (simp add: translate_user [OF ut])
  then show ?thesis using True drop_frame ut unfolding user_tables_def by blast
next
  case False
  then have c: "drop_bit 12 a = 0x8800" "page_table_video s 0 \<noteq> 0" "x = (page_table_video s 0 AND 0xFFFFF000) OR (a AND 0xFFF)"
    using x unfolding translate_user [OF ut] by (auto split: if_splits)
  then obtain v where v: "text_base v" "page_table_video s 0 = v OR 7" using ut unfolding user_tables_def by blast
  then have "x = v OR (a AND 0xFFF)" using c(3) text_frame(1) by simp
  then show ?thesis using text_frame(2,3) [OF v(1), of a] v(1) c(1) by simp
qed

text \<open>The kernel's own accesses below 4 MB: only the text pages and, after \<open>vidmap\<close>, page 0.\<close>

lemma translate_kernel_low:
  assumes "user_tables p s" and "drop_bit 12 a = k" and "k < 1024" and "k \<noteq> 0"
    and "\<not> (k = 0xB8 \<or> k = 0xB9 \<or> k = 0xBA \<or> k = 0xBB)"
  shows "translate s False w a = None"
proof -
  note ut = assms(1) [unfolded user_tables_def]
  have d: "drop_bit 22 a = 0" by (rule drop_12_22 [OF assms(2,3)])
  have "page_directory s 0 = page_table_video_addr s OR 3" "page_table_video s k = 0" using ut assms(3-5) by simp_all
  then show ?thesis
    using translate_table_page [of s a 0 3 False w] d ut low_table_index [OF d] assms(2)
    by (simp add: Let_def pte_bits)
qed

section \<open>Properties\<close>

text \<open>A state with the page tables at \<^verbatim>\<open>0x406000\<close>, for the witnesses.\<close>

definition sample_paging :: paging where
  "sample_paging = paging_init (filesys.extend sample_fs
     (paging.fields (\<lambda>_. 0) (\<lambda>_. 0) (\<lambda>_. 0) 0x405000 0x406000 0x11 0 0 0 (\<lambda>_ _. 0)))"

lemma sample_paging_fields:
  "page_table_video_addr sample_paging = 0x406000" "frames sample_paging = (\<lambda>_ _. 0)" "tlb_user sample_paging = 0"
  "mem sample_paging = sample_image"
  using sample_fs_fields(1)
  by (simp_all add: sample_paging_def paging_init_def Let_def filesys.extend_def paging.fields_def)

text \<open>After \<open>paging_init\<close> exactly the four text pages and the kernel's four megabytes are mapped,
  to themselves, for the kernel only; every other access, and every access of a user
  program, faults.\<close>

theorem paging_init_maps:
  assumes "page_table_video_addr s AND 0xFFF = 0"
  shows "translate (paging_init s) user wr a =
    (if \<not> user \<and> (0xB8000 \<le> a \<and> a < 0xBC000 \<or> 0x400000 \<le> a \<and> a < 0x800000) then Some a else None)"
  using assms by (simp only: translate_paging_init aligned_tables_def)

theorem paging_init_maps_witness:
  "translate (paging_init sample_paging) False True 0x400123 = Some 0x400123 \<and>
   translate (paging_init sample_paging) True True 0x400123 = None \<and>
   translate (paging_init sample_paging) False False 0 = None"
  using paging_init_maps [of sample_paging False True "0x400123"] paging_init_maps [of sample_paging True True "0x400123"]
    paging_init_maps [of sample_paging False False 0]
  by (simp add: sample_paging_fields)



text \<open>C14. A program that is switched away and back finds its window as it left it, whatever the
  programs in between did to theirs.\<close>

theorem switch_user_preserves:
  assumes "p < 6" and "q < 6" and "p \<noteq> q" and "tlb_user s = user_pde p" and "user_window a"
  shows "mem (switch_user p ((switch_user q s)\<lparr>mem := m\<rparr>)) a = mem s a"
  using assms user_frame_inj [of p q]
  by (simp add: mem_simps frame_simps user_pde_frame)

theorem switch_user_preserves_witness:
  "mem (switch_user 0 ((switch_user 1 (switch_user 0 sample_paging))\<lparr>mem := \<lambda>_. 9\<rparr>)) 0x8048000 =
   mem (switch_user 0 sample_paging) 0x8048000"
  using switch_user_preserves [of 0 1 "switch_user 0 sample_paging" "0x8048000" "\<lambda>_. 9"]
  by (simp add: frame_simps user_window_def)

end
