(* ===== verification/Terminal.thy ===== *)
theory Terminal
  imports Paging
begin

text \<open>
  The terminal half of \<^verbatim>\<open>student-distrib/keyboard.c\<close>: the line buffers the keyboard fills, the
  terminal driver behind the standard descriptors, and switching the visible terminal.
\<close>

record keyboard = paging +
  shift :: u8
  capslock :: u8
  capsChecker :: u8
  control :: u8
  left_alt :: u8
  keybufferCount :: "u8 \<Rightarrow> u8"
  cursor :: "u8 \<Rightarrow> u16"
  keyBuf :: "u8 \<Rightarrow> nat \<Rightarrow> u8"
  readFlag :: "u8 \<Rightarrow> u8"

abbreviation (input) ON :: u8 where "ON \<equiv> 1"
abbreviation (input) OFF :: u8 where "OFF \<equiv> 0"
abbreviation (input) KEYBOARD_CONTROLLER_IRQ :: u32 where "KEYBOARD_CONTROLLER_IRQ \<equiv> 1"

definition keyboard_init :: "'a keyboard_scheme \<Rightarrow> 'a keyboard_scheme" where
  "keyboard_init s0 =
     (let s = s0\<lparr>shift := OFF, capslock := OFF, capsChecker := OFF, control := OFF, left_alt := OFF,
                 keybufferCount := (keybufferCount s0)(0 := OFF, 1 := OFF, 2 := OFF),
                 readFlag := (readFlag s0)(0 := UNLOCK, 1 := UNLOCK, 2 := UNLOCK),
                 cursor := (cursor s0)(0 := 0, 1 := 0, 2 := 0)\<rparr>
      in enable_irq KEYBOARD_CONTROLLER_IRQ (enable_cursor 0 25 s))"

definition terminal_open :: "'a keyboard_scheme \<Rightarrow> i32 \<times> 'a keyboard_scheme" where
  "terminal_open s = (SUCCESS, s)"

definition terminal_close :: "'a keyboard_scheme \<Rightarrow> i32 \<times> 'a keyboard_scheme" where
  "terminal_close s = (SUCCESS, s)"

text \<open>The copy loop of \<open>terminal_read\<close> from its \<open>i\<close>-th iteration, of \<open>n\<close> at most.\<close>

function terminal_read_loop :: "u32 \<Rightarrow> nat \<Rightarrow> nat \<Rightarrow> 'a keyboard_scheme \<Rightarrow> i32 \<times> 'a keyboard_scheme" where
  "terminal_read_loop buf n i s =
     (if i < n then
        if i = n - 1 then (of_nat (i + 1), s\<lparr>mem := (mem s)(buf + of_nat i := NEWLINE)\<rparr>)
        else
          let c = keyBuf s (curr_scheduler s) i;
              s' = s\<lparr>mem := (mem s)(buf + of_nat i := c)\<rparr>
          in if c = NEWLINE then (of_nat (i + 1), s') else terminal_read_loop buf n (i + 1) s'
      else (of_nat i, s))"
  by pat_completeness auto
termination
  by (relation "measure (\<lambda>(b, n, i, s). n - i)") auto

declare terminal_read_loop.simps [simp del]

definition terminal_locked :: "'a keyboard_scheme \<Rightarrow> bool" where
  "terminal_locked s = (readFlag s (curr_scheduler s) = LOCK)"

definition terminal_read ::
  "('e \<Rightarrow> 'a keyboard_scheme \<Rightarrow> 'a keyboard_scheme) \<Rightarrow> 'e list \<Rightarrow> u32 \<Rightarrow> i32 \<Rightarrow> 'a keyboard_scheme
     \<Rightarrow> (i32 \<times> 'a keyboard_scheme \<times> 'e list) option" where
  "terminal_read isr es buf nbytes s0 =
     (let s = s0\<lparr>readFlag := (readFlag s0)(curr_scheduler s0 := LOCK)\<rparr>
      in if buf = 0 \<or> sint nbytes < 0 then Some (FAILURE, s, es)
         else case spin terminal_locked isr es s of
             None \<Rightarrow> None
           | Some (s', es') \<Rightarrow>
               (case terminal_read_loop buf (nat (sint nbytes)) 0 s' of (n, s'') \<Rightarrow> Some (n, s'', es')))"

definition terminal_write :: "u32 \<Rightarrow> i32 \<Rightarrow> 'a keyboard_scheme \<Rightarrow> i32 \<times> 'a keyboard_scheme" where
  "terminal_write buf nbytes s =
     (if buf = 0 \<or> sint nbytes < 0 then (FAILURE, s)
      else (nbytes, fold (\<lambda>i s. putc (mem s (buf + of_nat i)) s) [0..<nat (sint nbytes)] s))"

definition swap_vid_mem :: "i32 \<Rightarrow> 'a keyboard_scheme \<Rightarrow> 'a keyboard_scheme" where
  "swap_vid_mem new_terminal s0 =
     (let s = s0\<lparr>mem := memcpy (mem s0) (0xB9000 + ucast (current_terminal s0) * 4096) VIDEO 4096\<rparr>;
          s = clear s
      in s\<lparr>mem := memcpy (mem s) VIDEO (0xB9000 + new_terminal * 4096) 4096\<rparr>)"

definition swap_kb_cursor :: "i32 \<Rightarrow> 'a keyboard_scheme \<Rightarrow> 'a keyboard_scheme" where
  "swap_kb_cursor new_terminal s = snd (change_terminal_cursor (ucast new_terminal) s)"

text \<open>Where user programs of the scheduled terminal see the screen.\<close>

definition map_screen :: "'a paging_scheme \<Rightarrow> 'a paging_scheme" where
  "map_screen s =
     (if curr_scheduler s = current_terminal s
      then s\<lparr>page_table_video := (page_table_video s)(0 := VIDEO OR vid_mem_flag)\<rparr>
      else s\<lparr>page_table_video := (page_table_video s)(0 := vid_page (curr_scheduler s) OR vid_mem_flag)\<rparr>)"

definition terminal_switch :: "i32 \<Rightarrow> 'a keyboard_scheme \<Rightarrow> i32 \<times> 'a keyboard_scheme" where
  "terminal_switch new_terminal s0 =
     (let s = swap_vid_mem new_terminal s0;
          s = swap_kb_cursor new_terminal s;
          s = s\<lparr>current_terminal := ucast new_terminal\<rparr>;
          s = map_screen s
      in (0, flush_tlb s))"

definition terminal_init :: "'a keyboard_scheme \<Rightarrow> 'a keyboard_scheme" where
  "terminal_init s =
     s\<lparr>terminal := (terminal s)(0 := (terminal s 0)\<lparr>pcb := 0\<rparr>, 1 := (terminal s 1)\<lparr>pcb := 0\<rparr>,
                               2 := (terminal s 2)\<lparr>pcb := 0\<rparr>)\<rparr>"

section \<open>Reading a line\<close>

text \<open>The line a read of at most \<open>n\<close> bytes delivers: up to the newline, cut to end with one.\<close>

definition read_line :: "(nat \<Rightarrow> u8) \<Rightarrow> nat \<Rightarrow> u8 list" where
  "read_line kb n = (if n = 0 then [] else takeWhile (\<lambda>c. c \<noteq> NEWLINE) (map kb [0..<n - 1]) @ [NEWLINE])"

lemma terminal_read_loop_eq:
  "i < n \<Longrightarrow> terminal_read_loop buf n i s =
     (let l = takeWhile (\<lambda>c. c \<noteq> NEWLINE) (map (keyBuf s (curr_scheduler s)) [i..<n - 1]) @ [NEWLINE]
      in (of_nat (i + length l), s\<lparr>mem := store_bytes (mem s) (buf + of_nat i) l\<rparr>))"
proof (induction "n - i" arbitrary: i s)
  case (Suc d)
  let ?c = "keyBuf s (curr_scheduler s) i"
  show ?case
  proof (cases "i = n - 1")
    case True
    then show ?thesis using Suc.prems by (simp add: terminal_read_loop.simps)
  next
    case False
    then have u: "[i..<n - Suc 0] = i # [Suc i..<n - Suc 0]" and "Suc i < n"
      using Suc.prems by (auto simp: upt_conv_Cons)
    show ?thesis
    proof (cases "?c = NEWLINE")
      case True
      then show ?thesis using False Suc.prems
        by (subst terminal_read_loop.simps) (simp add: u)
    next
      case neq: False
      let ?s = "s\<lparr>mem := (mem s)(buf + of_nat i := ?c)\<rparr>"
      have "terminal_read_loop buf n i s = terminal_read_loop buf n (Suc i) ?s"
        using neq False Suc.prems by (subst terminal_read_loop.simps) (simp add: Let_def)
      also have "\<dots> = (let l = takeWhile (\<lambda>c. c \<noteq> NEWLINE) (map (keyBuf s (curr_scheduler s)) [Suc i..<n - 1]) @ [NEWLINE]
          in (of_nat (Suc i + length l), s\<lparr>mem := store_bytes ((mem s)(buf + of_nat i := ?c)) (buf + of_nat (Suc i)) l\<rparr>))"
        using Suc.hyps(1) [of "Suc i" ?s] Suc.hyps(2) \<open>Suc i < n\<close> by simp
      finally show ?thesis using neq by (simp add: u Let_def ac_simps)
    qed
  qed
qed simp

lemma terminal_read_loop_line:
  "terminal_read_loop buf n 0 s =
     (of_nat (length (read_line (keyBuf s (curr_scheduler s)) n)),
      s\<lparr>mem := store_bytes (mem s) buf (read_line (keyBuf s (curr_scheduler s)) n)\<rparr>)"
proof (cases n)
  case 0
  then show ?thesis by (simp add: terminal_read_loop.simps read_line_def)
next
  case (Suc k)
  then show ?thesis using terminal_read_loop_eq [of 0 n buf s] by (simp add: read_line_def Let_def)
qed

section \<open>Writing\<close>

text \<open>As long as the buffer is outside the page that is written, the bytes of the buffer go to \<open>putc\<close> one by one.\<close>

lemma terminal_write_fold:
  assumes "console_inv s" and "\<And>i. i < n \<Longrightarrow> \<not> in_page (page_of s (curr_scheduler s)) (buf + of_nat i)"
  shows "fold (\<lambda>i s. putc (mem s (buf + of_nat i)) s) [0..<n] s = fold putc (load_bytes (mem s) buf n) s"
  using assms(2)
proof (induction n)
  case (Suc n)
  let ?bs = "load_bytes (mem s) buf n"
  have "mem (fold putc ?bs s) (buf + of_nat n) = mem s (buf + of_nat n)"
    using assms(1) Suc.prems by (intro fold_putc_outside) auto
  moreover have "load_bytes (mem s) buf (Suc n) = ?bs @ [mem s (buf + of_nat n)]"
    by (simp add: load_bytes_def)
  ultimately show ?case using Suc by simp
qed simp

section \<open>Switching the visible terminal\<close>

lemma vid_page_eq: "t < 3 \<Longrightarrow> vid_page t = 0xB9000 + ucast t * 4096"
  by (auto simp: u8_less_3 vid_page_def)

lemma clear_cell_frame: "\<not> in_page VIDEO x \<Longrightarrow> mem (clear s) x = mem s x"
  using fold_draw_outside [of "[0..<25 * 80]" VIDEO x "\<lambda>_ _. ASCII_SPACE"] by (simp add: clear_def)

lemma clear_fields [frame_simps]:
  "terminal (clear s) = terminal s" "current_terminal (clear s) = current_terminal s"
  "curr_scheduler (clear s) = curr_scheduler s"
  by (simp_all add: clear_def)

lemma in_page_run: "in_page base (base + of_nat i)" if "i < 4000"
  using that by (auto simp: in_page_def)

lemma vid_pages_disjoint:
  "t < 3 \<Longrightarrow> disjoint_runs VIDEO 4096 (vid_page t) 4096"
  "t < 3 \<Longrightarrow> disjoint_runs (vid_page t) 4096 VIDEO 4096"
  "t < 3 \<Longrightarrow> u < 3 \<Longrightarrow> t \<noteq> u \<Longrightarrow> disjoint_runs (vid_page t) 4096 (vid_page u) 4096"
proof -
  show "disjoint_runs VIDEO 4096 (vid_page t) 4096" if "t < 3"
    using that by (intro disjoint_runs_ordered(1)) (auto simp: u8_less_3 vid_page_def)
  then show "disjoint_runs (vid_page t) 4096 VIDEO 4096" if "t < 3"
    using that disjoint_runs_sym by blast
  assume h: "t < 3" "u < 3" "t \<noteq> u"
  then consider "unat (vid_page t) + 4096 \<le> unat (vid_page u)" | "unat (vid_page u) + 4096 \<le> unat (vid_page t)"
    by (auto simp: u8_less_3 vid_page_def)
  moreover have "unat (vid_page t) + 4096 \<le> 2 ^ 32" "unat (vid_page u) + 4096 \<le> 2 ^ 32"
    using h by (auto simp: u8_less_3 vid_page_def)
  ultimately show "disjoint_runs (vid_page t) 4096 (vid_page u) 4096"
    by cases (auto intro: disjoint_runs_ordered(1) disjoint_runs_ordered(2))
qed

lemma swap_vid_mem_eq:
  assumes "current_terminal s < 3" "new < 3"
  defines "m \<equiv> mem (clear (s\<lparr>mem := copy_bytes (mem s) (vid_page (current_terminal s)) VIDEO 4096\<rparr>))"
  shows "mem (swap_vid_mem (ucast new) s) = copy_bytes m VIDEO (vid_page new) 4096"
proof -
  have "memcpy (mem s) (0xB9000 + ucast (current_terminal s) * 4096) VIDEO 4096 =
      copy_bytes (mem s) (vid_page (current_terminal s)) VIDEO 4096"
    using memcpy_eq_copy_bytes [of "vid_page (current_terminal s)" 4096 VIDEO "mem s"] vid_pages_disjoint(2) [OF assms(1)]
    by (simp add: vid_page_eq [OF assms(1)])
  moreover have "memcpy m VIDEO (0xB9000 + ucast new * 4096) 4096 = copy_bytes m VIDEO (vid_page new) 4096"
    using memcpy_eq_copy_bytes [of VIDEO 4096 "vid_page new" m] vid_pages_disjoint(1) [OF assms(2)]
    by (simp add: vid_page_eq [OF assms(2)])
  ultimately show ?thesis by (simp add: swap_vid_mem_def m_def Let_def)
qed

lemma clear_page:
  assumes "t < 3" "i < 4096"
  shows "mem (clear s) (vid_page t + of_nat i) = mem s (vid_page t + of_nat i)"
proof (rule clear_cell_frame)
  show "\<not> in_page VIDEO (vid_page t + of_nat i)"
  proof
    assume "in_page VIDEO (vid_page t + of_nat i)"
    then obtain j where "j < 4000" "vid_page t + of_nat i = VIDEO + of_nat j" by (auto simp: in_page_def)
    then show False using disjoint_runsD [OF vid_pages_disjoint(1) [OF assms(1)], of j i] assms(2) by simp
  qed
qed

lemma swap_vid_mem_page:
  assumes "current_terminal s < 3" "new < 3" "i < 4096"
  shows "mem (swap_vid_mem (ucast new) s) (VIDEO + of_nat i) =
      (if new = current_terminal s then mem s (VIDEO + of_nat i) else mem s (vid_page new + of_nat i))"
    and "t < 3 \<Longrightarrow> mem (swap_vid_mem (ucast new) s) (vid_page t + of_nat i) =
      (if t = current_terminal s then mem s (VIDEO + of_nat i) else mem s (vid_page t + of_nat i))"
proof -
  let ?c = "current_terminal s"
  let ?m = "copy_bytes (mem s) (vid_page ?c) VIDEO 4096"
  have p: "mem (clear (s\<lparr>mem := ?m\<rparr>)) (vid_page t + of_nat i) =
      (if t = ?c then mem s (VIDEO + of_nat i) else mem s (vid_page t + of_nat i))" if "t < 3" for t
    using that assms vid_pages_disjoint(3) [of ?c t]
    by (simp add: clear_page copy_bytes_inside copy_bytes_other [of "vid_page ?c" 4096 "vid_page t" 4096])
  show "mem (swap_vid_mem (ucast new) s) (VIDEO + of_nat i) =
      (if new = ?c then mem s (VIDEO + of_nat i) else mem s (vid_page new + of_nat i))"
    using assms p [of new] by (simp add: swap_vid_mem_eq copy_bytes_inside)
  show "mem (swap_vid_mem (ucast new) s) (vid_page t + of_nat i) =
      (if t = ?c then mem s (VIDEO + of_nat i) else mem s (vid_page t + of_nat i))" if "t < 3"
    using that assms p [of t] vid_pages_disjoint(1) [of t]
    by (simp add: swap_vid_mem_eq copy_bytes_other [of VIDEO 4096 "vid_page t" 4096])
qed

lemma flush_tlb_mem: "\<not> user_window a \<Longrightarrow> mem (flush_tlb s) a = mem s a"
  by (simp add: flush_tlb_def Let_def)

lemma flush_tlb_frame [frame_simps]:
  "terminal (flush_tlb s) = terminal s" "current_terminal (flush_tlb s) = current_terminal s"
  "curr_scheduler (flush_tlb s) = curr_scheduler s" "page_table_video (flush_tlb s) = page_table_video s"
  "page_directory (flush_tlb s) = page_directory s" "pcbs (flush_tlb s) = pcbs s"
  by (simp_all add: flush_tlb_def Let_def)

lemma map_screen_frame [frame_simps]:
  "terminal (map_screen s) = terminal s" "current_terminal (map_screen s) = current_terminal s"
  "curr_scheduler (map_screen s) = curr_scheduler s" "mem (map_screen s) = mem s"
  "page_directory (map_screen s) = page_directory s"
  "page_table_video (map_screen s) = (page_table_video s)(0 := page_of s (curr_scheduler s) OR vid_mem_flag)"
  by (simp_all add: map_screen_def page_of_def)

lemma screen_not_window: "unat base < 0x400000 - 4096 \<Longrightarrow> in_page base x \<Longrightarrow> \<not> user_window x"
proof -
  assume b: "unat base < 0x400000 - 4096" and "in_page base x"
  then obtain i where "i < 4000" "x = base + of_nat i" by (auto simp: in_page_def)
  then have "unat x < 0x400000" using b unat_run [of base 4000 i] by simp
  then show ?thesis by (simp add: user_window_def drop_bit_range)
qed

lemma page_of_low: "t < 3 \<Longrightarrow> unat (page_of s t) < 0x400000 - 4096"
  by (auto simp: page_of_def u8_less_3 vid_page_def)

lemma swap_vid_mem_frame [frame_simps]:
  "terminal (swap_vid_mem n s) = terminal s" "current_terminal (swap_vid_mem n s) = current_terminal s"
  "curr_scheduler (swap_vid_mem n s) = curr_scheduler s"
  by (simp_all add: swap_vid_mem_def Let_def frame_simps)

lemma terminal_switch_views:
  assumes "console_inv s" and "new < 3"
  defines "s' \<equiv> snd (terminal_switch (ucast new) s)"
  shows "t < 3 \<Longrightarrow> tty_of s' t = tty_of s t" and "console_inv s'" and "current_terminal s' = new"
    and "page_table_video s' 0 = page_of s' (curr_scheduler s') OR vid_mem_flag"
    and "terminal s' = terminal s" and "curr_scheduler s' = curr_scheduler s"
proof -
  have c: "current_terminal s < 3" using assms(1) by (simp add: console_inv_def)
  have f: "terminal s' = terminal s" "curr_scheduler s' = curr_scheduler s" "current_terminal s' = new"
    "page_table_video s' 0 = page_of s' (curr_scheduler s') OR vid_mem_flag"
    by (simp_all add: s'_def terminal_switch_def swap_kb_cursor_def change_terminal_cursor_def Let_def frame_simps
        io_simps page_of_def)
  show "terminal s' = terminal s" "curr_scheduler s' = curr_scheduler s" "current_terminal s' = new"
    "page_table_video s' 0 = page_of s' (curr_scheduler s') OR vid_mem_flag" by (rule f)+
  show "console_inv s'" using assms(1,2) f(1-3) by (simp add: console_inv_def)
  have m: "mem s' x = mem (swap_vid_mem (ucast new) s) x" if "\<not> user_window x" for x
    using that by (simp add: s'_def terminal_switch_def swap_kb_cursor_def change_terminal_cursor_def Let_def
        flush_tlb_mem frame_simps io_simps)
  show "tty_of s' t = tty_of s t" if "t < 3"
  proof -
    have "screen (mem s') (page_of s' t) = screen (mem s) (page_of s t)"
    proof (rule nth_equalityI)
      fix k assume "k < length (screen (mem s') (page_of s' t))"
      then have k: "k < 2000" by simp
      have "mem s' (page_of s' t + of_nat (2 * k)) = mem (swap_vid_mem (ucast new) s) (page_of s' t + of_nat (2 * k))"
        using k by (intro m screen_not_window [OF page_of_low [OF that, of s']] in_page_run) simp
      also have "\<dots> = mem s (page_of s t + of_nat (2 * k))"
        using swap_vid_mem_page [OF c assms(2), of "2 * k"] k that f(3) by (simp add: page_of_def)
      finally show "screen (mem s') (page_of s' t) ! k = screen (mem s) (page_of s t) ! k"
        using k by (simp add: nth_screen cell_of_nat)
    qed simp
    then show ?thesis by (simp add: tty_of_def abs_tty_def f(1))
  qed
qed

section \<open>Properties\<close>

definition sample_kb :: keyboard where
  "sample_kb = paging.extend sample_paging
     (keyboard.fields 0 0 0 0 0 (\<lambda>_. 0) (\<lambda>_. 0) (\<lambda>_ i. if i = 2 then NEWLINE else 0x78) (\<lambda>_. 0))"

lemma sample_kb_fields:
  "terminal sample_kb = (\<lambda>_. \<lparr>pcb = 0, screen_x = 0, screen_y = 0\<rparr>)" "current_terminal sample_kb = 0"
  "curr_scheduler sample_kb = 0" "mem sample_kb = sample_image"
  "keyBuf sample_kb = (\<lambda>_ i. if i = 2 then NEWLINE else 0x78)"
  by (simp_all add: sample_kb_def paging.extend_def keyboard.fields_def sample_paging_def paging_init_def Let_def
      filesys.extend_def paging.fields_def sample_fs_def file_sys_init_def)

lemma sample_kb_inv: "console_inv sample_kb"
  by (simp add: console_inv_def sample_kb_fields cursor_ok_def term_pos_def)

text \<open>C11. Switching the visible terminal loses nothing: whichever terminal is chosen, each of the three
  terminals shows the same text with the same cursor as before, the chosen one now on the
  video page, and programs of the scheduled terminal see their own page through the shared
  table entry.\<close>

theorem terminal_switch_keeps_screens:
  assumes "console_inv s" and "new < 3"
  shows "console_inv (snd (terminal_switch (ucast new) s)) \<and>
    current_terminal (snd (terminal_switch (ucast new) s)) = new \<and>
    (\<forall>t < 3. tty_of (snd (terminal_switch (ucast new) s)) t = tty_of s t) \<and>
    page_of (snd (terminal_switch (ucast new) s)) new = VIDEO \<and>
    page_table_video (snd (terminal_switch (ucast new) s)) 0 =
      page_of (snd (terminal_switch (ucast new) s)) (curr_scheduler s) OR vid_mem_flag"
  using terminal_switch_views [OF assms] by (simp add: page_of_def)

theorem terminal_switch_keeps_screens_witness:
  "tty_of (snd (terminal_switch 2 sample_kb)) 0 = tty_of sample_kb 0 \<and>
   tty_of (snd (terminal_switch 2 sample_kb)) 2 = tty_of sample_kb 2 \<and>
   page_of (snd (terminal_switch 2 sample_kb)) 2 = VIDEO"
  using terminal_switch_keeps_screens [OF sample_kb_inv, of 2] by simp

text \<open>\<open>terminal_read\<close> returns as soon as the interrupts that arrive complete a line, with that
  line up to its newline, or its first bytes closed by a newline when the buffer is shorter.\<close>

theorem terminal_read_line:
  assumes "buf \<noteq> 0" and "0 \<le> sint nbytes"
    and "\<not> terminal_locked (fold isr ds (s\<lparr>readFlag := (readFlag s)(curr_scheduler s := LOCK)\<rparr>))"
  shows "\<exists>ds' es' s'. ds @ es = ds' @ es' \<and> s' = fold isr ds' (s\<lparr>readFlag := (readFlag s)(curr_scheduler s := LOCK)\<rparr>) \<and>
    \<not> terminal_locked s' \<and>
    terminal_read isr (ds @ es) buf nbytes s =
      Some (of_nat (length (read_line (keyBuf s' (curr_scheduler s')) (nat (sint nbytes)))),
            s'\<lparr>mem := store_bytes (mem s') buf (read_line (keyBuf s' (curr_scheduler s')) (nat (sint nbytes)))\<rparr>, es')"
proof -
  let ?s = "s\<lparr>readFlag := (readFlag s)(curr_scheduler s := LOCK)\<rparr>"
  obtain s' es' where sp: "spin terminal_locked isr (ds @ es) ?s = Some (s', es')"
    using spin_terminates [of terminal_locked isr ds ?s es] assms(3) by blast
  from spin_Some [OF sp] obtain ds' where "\<not> terminal_locked s'" "ds @ es = ds' @ es'" "s' = fold isr ds' ?s"
    by blast
  moreover have "terminal_read isr (ds @ es) buf nbytes s =
      Some (of_nat (length (read_line (keyBuf s' (curr_scheduler s')) (nat (sint nbytes)))),
            s'\<lparr>mem := store_bytes (mem s') buf (read_line (keyBuf s' (curr_scheduler s')) (nat (sint nbytes)))\<rparr>, es')"
    using assms(1,2) sp by (simp add: terminal_read_def terminal_read_loop_line Let_def)
  ultimately show ?thesis by blast
qed

theorem terminal_read_line_witness:
  "\<exists>s' es'. terminal_read (\<lambda>_ s. s\<lparr>readFlag := \<lambda>_. UNLOCK\<rparr>) [()] 0x100000 128 sample_kb = Some (3, s', es') \<and>
     load_bytes (mem s') 0x100000 3 = [0x78, 0x78, NEWLINE]"
proof -
  let ?isr = "\<lambda>(_ :: unit) (s :: keyboard). s\<lparr>readFlag := \<lambda>_. UNLOCK\<rparr>"
  let ?kb = "\<lambda>i :: nat. if i = 2 then NEWLINE else 0x78"
  have "\<not> terminal_locked (fold ?isr [()] (sample_kb\<lparr>readFlag := (readFlag sample_kb)(curr_scheduler sample_kb := LOCK)\<rparr>))"
    by (simp add: terminal_locked_def)
  from terminal_read_line [of "0x100000" 128, OF _ _ this, of "[]"] obtain ds' es' s' where
    r: "[()] = ds' @ es'" "s' = fold ?isr ds' (sample_kb\<lparr>readFlag := (readFlag sample_kb)(curr_scheduler sample_kb := LOCK)\<rparr>)"
      "terminal_read ?isr [()] 0x100000 128 sample_kb =
        Some (of_nat (length (read_line (keyBuf s' (curr_scheduler s')) (nat (sint (128 :: i32))))),
          s'\<lparr>mem := store_bytes (mem s') 0x100000 (read_line (keyBuf s' (curr_scheduler s')) (nat (sint (128 :: i32))))\<rparr>, es')"
    by auto
  have "keyBuf (fold ?isr ds s) = keyBuf s" for ds s by (induction ds arbitrary: s) simp_all
  then have kb: "keyBuf s' = (\<lambda>_. ?kb)" unfolding r(2) by (simp add: sample_kb_fields fun_eq_iff)
  have "read_line ?kb (Suc n) = [0x78, 0x78, NEWLINE]" if "3 \<le> n" for n
  proof -
    have "[0..<n] = [0, 1, 2] @ [3..<n]"
      using that by (simp add: upt_conv_Cons numeral_3_eq_3 numeral_2_eq_2)
    then show ?thesis by (simp add: read_line_def)
  qed
  from this [of 127] have "read_line ?kb 128 = [0x78, 0x78, NEWLINE]" by (simp del: One_nat_def)
  then show ?thesis using r(3) load_store_bytes_same [of "[0x78, 0x78, NEWLINE]" "mem s'" "0x100000"]
    by (simp add: kb numeral_3_eq_3)
qed

text \<open>C12. \<open>terminal_write\<close> from a buffer outside the page being drawn reports every byte written and types the
  bytes of the buffer on the scheduled terminal.\<close>

theorem terminal_write_types:
  assumes "console_inv s" and "buf \<noteq> 0" and "0 \<le> sint nbytes"
    and "\<forall>i < nat (sint nbytes). \<not> in_page (page_of s (curr_scheduler s)) (buf + of_nat i)"
  shows "\<exists>s'. terminal_write buf nbytes s = (nbytes, s') \<and> console_inv s' \<and>
    tty_of s' (curr_scheduler s) =
      fold tty_putc (load_bytes (mem s) buf (nat (sint nbytes))) (tty_of s (curr_scheduler s))"
proof -
  let ?bs = "load_bytes (mem s) buf (nat (sint nbytes))"
  have "terminal_write buf nbytes s = (nbytes, fold putc ?bs s)"
    using assms terminal_write_fold [of s "nat (sint nbytes)" buf] by (simp add: terminal_write_def)
  moreover have "tty_of (fold putc ?bs s) (curr_scheduler s) = fold tty_putc ?bs (tty_of s (curr_scheduler s))"
    using own_tty.view_fold [OF assms(1), of ?bs] by (simp add: frame_simps)
  ultimately show ?thesis using own_tty.inv_fold [OF assms(1), of ?bs] by blast
qed

theorem terminal_write_types_witness:
  "\<exists>s'. terminal_write 0x100000 3 (sample_kb\<lparr>mem := store_bytes (\<lambda>_. 0) 0x100000 [0x68, 0x69, NEWLINE]\<rparr>) = (3, s') \<and> console_inv s' \<and>
     tty_of s' (curr_scheduler sample_kb) = fold tty_putc [0x68, 0x69, NEWLINE]
       (tty_of (sample_kb\<lparr>mem := store_bytes (\<lambda>_. 0) 0x100000 [0x68, 0x69, NEWLINE]\<rparr>) (curr_scheduler sample_kb))"
proof -
  let ?s = "sample_kb\<lparr>mem := store_bytes (\<lambda>_. 0) 0x100000 [0x68, 0x69, NEWLINE]\<rparr>"
  have inv: "console_inv ?s" using sample_kb_inv by (simp add: console_inv_def)
  have "\<not> in_page (page_of ?s (curr_scheduler ?s)) (0x100000 + of_nat i)" if "i < nat (sint (3 :: i32))" for i
  proof
    assume "in_page (page_of ?s (curr_scheduler ?s)) (0x100000 + of_nat i)"
    then obtain j where j: "j < 4000" "0x100000 + of_nat i = page_of ?s (curr_scheduler ?s) + of_nat j" unfolding in_page_def by blast
    have p: "unat (page_of ?s (curr_scheduler ?s)) \<le> 0xBB000" by (auto simp: page_of_def vid_page_def)
    have "unat (0x100000 + of_nat i :: u32) = 0x100000 + i" using unat_run [of "0x100000" 3 i] that by simp
    moreover have "unat (page_of ?s (curr_scheduler ?s) + of_nat j) = unat (page_of ?s (curr_scheduler ?s)) + j"
      using unat_run [of "page_of ?s (curr_scheduler ?s)" 4000 j] j(1) p by simp
    ultimately show False using j p by simp
  qed
  then have "\<forall>i < nat (sint (3 :: i32)). \<not> in_page (page_of ?s (curr_scheduler ?s)) (0x100000 + of_nat i)" by blast
  moreover have "load_bytes (mem ?s) 0x100000 3 = [0x68, 0x69, NEWLINE]"
    using load_store_bytes_same [of "[0x68, 0x69, NEWLINE]" "\<lambda>_. 0" "0x100000"] by (simp add: numeral_3_eq_3)
  ultimately show ?thesis using terminal_write_types [OF inv, of "0x100000" 3] by simp
qed

end
