(* ===== verification/System_Call.thy ===== *)
theory System_Call
  imports Terminal
begin

text \<open>
  The system calls, \<^verbatim>\<open>student-distrib/system_call.c\<close>, and their dispatch in
  \<^verbatim>\<open>student-distrib/system_call_asm.S\<close>. A call that blocks takes the interrupts that arrive
  while it waits. The outcomes that are not a return are values: entering a user program at
  its entry point, resuming the parent's pending \<open>execute\<close>, following a null control-block
  pointer. \<^term>\<open>None\<close> is a call that never comes back: a loop over a string without end, a
  wait no interrupt ends, a jump through a null function pointer.
\<close>

record kernel = keyboard +
  pid :: "i32 \<Rightarrow> i32"
  global_halt :: u32
  global_status :: u8
  process_counter :: i32
  stdin_fops :: fops_t
  stdout_fops :: fops_t
  rtc_fops :: fops_t
  dir_fops :: fops_t
  file_fops :: fops_t
  tss_ss0 :: u16
  tss_esp0 :: u32
  ebp :: u32
  esp :: u32
  user_cs :: u16
  user_ss :: u16
  user_esp :: u32

text \<open>
  What the compiler chooses of the local arrays of \<open>execute\<close> and \<open>isExe\<close>: what the arrays
  \<open>filename\<close> and \<open>arg\<close> hold on entry, and the addresses of \<open>buf\<close> and \<open>entry_point\<close>.
\<close>

record locals =
  filename0 :: bytes
  arg0 :: bytes
  exe_buf :: u32
  entry_point :: u32

datatype exec_result = Ret i32 | To_user u32
datatype halt_result = Resume_parent i32 | Restarted u32 | Null_pcb

abbreviation (input) VACANT :: i32 where "VACANT \<equiv> - 1"
abbreviation (input) OCCUPIED :: i32 where "OCCUPIED \<equiv> 1"
abbreviation (input) EIGHT_MB :: u32 where "EIGHT_MB \<equiv> 0x800000"
abbreviation (input) FOUR_MB :: u32 where "FOUR_MB \<equiv> 0x400000"
abbreviation (input) EIGHT_KB :: u32 where "EIGHT_KB \<equiv> 0x2000"
abbreviation (input) PROGRAM_IMG :: u32 where "PROGRAM_IMG \<equiv> 0x08048000"
abbreviation (input) KERNEL_DS :: u16 where "KERNEL_DS \<equiv> 0x18"
abbreviation (input) USER_CS :: u16 where "USER_CS \<equiv> 0x23"
abbreviation (input) USER_DS :: u16 where "USER_DS \<equiv> 0x2B"
abbreviation (input) USER_STACK :: u32 where "USER_STACK \<equiv> 0x83FFFFC"
abbreviation (input) MB136 :: u32 where "MB136 \<equiv> 0x8800000"

section \<open>Parsing a command\<close>

partial_function (option) skip_spaces :: "bytes \<Rightarrow> nat \<Rightarrow> nat option" where
  "skip_spaces command i = (if command i = 0x20 then skip_spaces command (Suc i) else Some i)"

text \<open>\<^term>\<open>Inl\<close>: the early \<open>return FAILURE\<close> of the loop.\<close>

function parse_name :: "bytes \<Rightarrow> nat \<Rightarrow> nat \<Rightarrow> bytes \<Rightarrow> bytes + nat \<times> nat \<times> bytes" where
  "parse_name command i len filename =
     (if command i \<noteq> 0x20 \<and> command i \<noteq> 0 then
        if len \<ge> 32 then Inl filename
        else parse_name command (Suc i) (Suc len) (filename(len := command i))
      else Inr (i, len, filename))"
  by pat_completeness auto
termination
  by (relation "measure (\<lambda>(c, i, len, f). 32 - len)") auto

declare parse_name.simps [simp del]

function parse_arg :: "bytes \<Rightarrow> nat \<Rightarrow> nat \<Rightarrow> nat \<Rightarrow> bytes \<Rightarrow> bytes + nat \<times> bytes" where
  "parse_arg command i lim argLen arg =
     (if command i \<noteq> 0 then
        if argLen \<ge> lim then Inl arg
        else parse_arg command (Suc i) lim (Suc argLen) (arg(argLen := command i))
      else Inr (argLen, arg))"
  by pat_completeness auto
termination
  by (relation "measure (\<lambda>(c, i, lim, n, a). lim - n)") auto

declare parse_arg.simps [simp del]

definition parse :: "bytes option \<Rightarrow> bytes \<Rightarrow> bytes \<Rightarrow> (i32 \<times> bytes \<times> bytes) option" where
  "parse command_opt filename arg =
     (case command_opt of
        None \<Rightarrow> Some (FAILURE, filename, arg)
      | Some command \<Rightarrow>
          let arg = arg(0 := 0)
          in case skip_spaces command 0 of
               None \<Rightarrow> None
             | Some i \<Rightarrow>
                 (case parse_name command i 0 filename of
                    Inl filename \<Rightarrow> Some (FAILURE, filename, arg)
                  | Inr (i, len, filename) \<Rightarrow>
                      let filename = filename(len := 0)
                      in if command i = 0x20 then
                           (case skip_spaces command i of
                              None \<Rightarrow> None
                            | Some i \<Rightarrow>
                                (case parse_arg command i (128 - len) 0 arg of
                                   Inl arg \<Rightarrow> Some (FAILURE, filename, arg)
                                 | Inr (argLen, arg) \<Rightarrow> Some (SUCCESS, filename, arg(argLen := 0))))
                         else Some (SUCCESS, filename, arg)))"

section \<open>Processes\<close>

definition magic_identifiers :: bytes where
  "magic_identifiers i = (if i = 0 then 0x7F else if i = 1 then 0x45 else if i = 2 then 0x4C else if i = 3 then 0x46 else 0)"

definition isExe :: "locals \<Rightarrow> bytes \<Rightarrow> 'a kernel_scheme \<Rightarrow> i32 \<times> 'a kernel_scheme" where
  "isExe lo filename s0 =
     (case read_dentry_by_name filename s0 of
        None \<Rightarrow> (FAILURE, s0)
      | Some temp \<Rightarrow>
          let (_, s) = read_data (inode_num temp) 0 (exe_buf lo) 4 s0
          in if strncmp (ptr (mem s) (exe_buf lo)) magic_identifiers 4 \<noteq> 0 then (FAILURE, s) else (SUCCESS, s))"

definition find_pid :: "'a kernel_scheme \<Rightarrow> i32" where
  "find_pid s =
     (case List.find (\<lambda>i. pid s (of_nat i) = VACANT) [0..<6] of Some i \<Rightarrow> of_nat i | None \<Rightarrow> FAILURE)"

text \<open>
  The source stores in the control block the address of \<open>execute\<close>'s local array \<open>arg\<close>, which stays
  as it is as long as the frame of the suspended \<open>execute\<close> is not overwritten; the model stores the
  bytes of the array.
\<close>

definition init_pcb :: "u32 \<Rightarrow> bytes \<Rightarrow> i32 \<Rightarrow> 'a kernel_scheme \<Rightarrow> 'a kernel_scheme" where
  "init_pcb pcb_process arg this_pid s0 =
     (let cs = curr_scheduler s0;
          p = pcbs s0 pcb_process;
          p = (if pcb (terminal s0 cs) = 0
               then p\<lparr>parent_pcb := 0, pcb_pid := this_pid, parent_pid := - 1\<rparr>
               else p\<lparr>parent_pcb := pcb (terminal s0 cs), pcb_pid := this_pid, parent_pid := pcb_pid (cur_pcb s0)\<rparr>);
          s = s0\<lparr>pid := (pid s0)(this_pid := OCCUPIED)\<rparr>;
          p = p\<lparr>argument := arg\<rparr>;
          s = s\<lparr>terminal := (terminal s)(cs := (terminal s cs)\<lparr>pcb := pcb_process\<rparr>)\<rparr>;
          fds = file_descriptor p;
          fds = fds(0 := \<lparr>pointer = stdin_fops s, inode = 0, file_position = 0, flags = 1\<rparr>,
                    1 := \<lparr>pointer = stdout_fops s, inode = 0, file_position = 0, flags = 1\<rparr>);
          fds = fold (\<lambda>i fds. fds(i := (fds i)\<lparr>flags := 0\<rparr>)) [2..<7] fds
      in s\<lparr>pcbs := (pcbs s)(pcb_process := p\<lparr>file_descriptor := fds\<rparr>)\<rparr>)"

definition pcb_addr :: "i32 \<Rightarrow> u32" where
  "pcb_addr this_pid = EIGHT_MB - EIGHT_KB * (this_pid + 1)"

text \<open>
  The frame of the \<^verbatim>\<open>iret\<close>: the user program's stack segment and stack pointer, the flags with
  interrupts enabled, the code segment and the entry point.
\<close>

definition context_switch :: "u32 \<Rightarrow> 'a kernel_scheme \<Rightarrow> exec_result \<times> 'a kernel_scheme" where
  "context_switch entry s =
     (To_user entry, s\<lparr>user_ss := USER_DS, user_esp := USER_STACK, if_flag := True, user_cs := USER_CS\<rparr>)"

text \<open>
  The part of \<open>execute\<close> after its checks: create the process, load its image, set up the
  return frame and enter it.
\<close>

definition load_program :: "locals \<Rightarrow> bytes \<Rightarrow> dentry_t \<Rightarrow> i32 \<Rightarrow> 'a kernel_scheme \<Rightarrow> 'a kernel_scheme" where
  "load_program lo arg temp_dentry this_pid s0 =
     (let s = s0\<lparr>page_directory := (page_directory s0)(32 := (EIGHT_MB + this_pid * FOUR_MB) OR PAGING_USER_ON)\<rparr>;
          s = flush_tlb s;
          s = init_pcb (pcb_addr this_pid) arg this_pid s;
          (_, s) = read_data (inode_num temp_dentry) 24 (entry_point lo) 4 s;
          (_, s) = read_data (inode_num temp_dentry) 0 PROGRAM_IMG
                     (inode_length (mem s) (inode_addr s + 4096 * inode_num temp_dentry)) s
      in s)"

definition enter_program :: "locals \<Rightarrow> i32 \<Rightarrow> 'a kernel_scheme \<Rightarrow> exec_result \<times> 'a kernel_scheme" where
  "enter_program lo this_pid s0 =
     (let s = s0\<lparr>tss_ss0 := KERNEL_DS, tss_esp0 := (EIGHT_MB - this_pid * EIGHT_KB) - 4\<rparr>;
          par = parent_pcb (pcbs s (pcb_addr this_pid));
          s = (if par \<noteq> 0 then s\<lparr>pcbs := (pcbs s)(par := (pcbs s par)\<lparr>halt_ebp := ebp s, halt_esp := esp s\<rparr>)\<rparr> else s)
      in context_switch (load32 (mem s) (entry_point lo)) s)"

definition launch :: "locals \<Rightarrow> bytes \<Rightarrow> dentry_t \<Rightarrow> 'a kernel_scheme \<Rightarrow> exec_result \<times> 'a kernel_scheme" where
  "launch lo arg temp_dentry s0 =
     (let s = s0\<lparr>process_counter := process_counter s0 + 1\<rparr>;
          this_pid = find_pid s
      in enter_program lo this_pid (load_program lo arg temp_dentry this_pid s))"

definition execute :: "locals \<Rightarrow> bytes option \<Rightarrow> 'a kernel_scheme \<Rightarrow> (exec_result \<times> 'a kernel_scheme) option" where
  "execute lo command s0 =
     (let s = cli s0
      in case parse command (filename0 lo) (arg0 lo) of
           None \<Rightarrow> None
         | Some (r, filename, arg) \<Rightarrow>
             if r = FAILURE then Some (Ret FAILURE, s)
             else if pcb (terminal s (curr_scheduler s)) \<noteq> 0 \<and> process_counter s = 5 \<and>
                     strncmp filename (lit ''exit'') 5 \<noteq> 0 then
               Some (Ret FAILURE, print_literal (''Maximum number of process reached. Exit please'' @ [CHR 0x0A]) s)
             else case read_dentry_by_name filename s of
               None \<Rightarrow> Some (Ret FAILURE, s)
             | Some temp_dentry \<Rightarrow>
                 (case isExe lo filename s of
                    (r, s) \<Rightarrow> if r = FAILURE then Some (Ret FAILURE, s) else Some (launch lo arg temp_dentry s)))"

text \<open>The tail of \<open>execute\<close> at the label \<open>return\<close>, which \<open>halt\<close> jumps to.\<close>

definition execute_return :: "'a kernel_scheme \<Rightarrow> i32 \<times> 'a kernel_scheme" where
  "execute_return s = (if global_halt s = 1 then (256, s\<lparr>global_halt := 0\<rparr>) else (0, s))"

section \<open>Files\<close>

definition open_op :: "open_fn \<Rightarrow> 'a kernel_scheme \<Rightarrow> (i32 \<times> 'a kernel_scheme) option" where
  "open_op f s =
     (case f of
        Open_null \<Rightarrow> None
      | Terminal_open \<Rightarrow> Some (terminal_open s)
      | Rtc_open \<Rightarrow> Some (rtc_open s)
      | Dir_open \<Rightarrow> Some (dir_open s)
      | File_open \<Rightarrow> Some (file_open s))"

definition close_op :: "close_fn \<Rightarrow> 'a kernel_scheme \<Rightarrow> (i32 \<times> 'a kernel_scheme) option" where
  "close_op f s =
     (case f of
        Close_null \<Rightarrow> None
      | Terminal_close \<Rightarrow> Some (terminal_close s)
      | Rtc_close \<Rightarrow> Some (rtc_close s)
      | Dir_close \<Rightarrow> Some (dir_close s)
      | File_close \<Rightarrow> Some (file_close s))"

definition read_op ::
  "('e \<Rightarrow> 'a kernel_scheme \<Rightarrow> 'a kernel_scheme) \<Rightarrow> 'e list \<Rightarrow> read_fn \<Rightarrow> i32 \<Rightarrow> u32 \<Rightarrow> i32 \<Rightarrow> 'a kernel_scheme
     \<Rightarrow> (i32 \<times> 'a kernel_scheme \<times> 'e list) option" where
  "read_op isr es f fd buf nbytes s =
     (case f of
        Read_null \<Rightarrow> None
      | Terminal_read \<Rightarrow> terminal_read isr es buf nbytes s
      | Invalid_read_op \<Rightarrow> (case invalid_read_op buf nbytes s of (r, s') \<Rightarrow> Some (r, s', es))
      | Rtc_read \<Rightarrow> rtc_read isr es s
      | Dir_read \<Rightarrow> (case dir_read buf nbytes s of None \<Rightarrow> None | Some (r, s') \<Rightarrow> Some (r, s', es))
      | File_read \<Rightarrow> (case file_read fd buf nbytes s of (r, s') \<Rightarrow> Some (r, s', es)))"

definition write_op :: "write_fn \<Rightarrow> i32 \<Rightarrow> u32 \<Rightarrow> i32 \<Rightarrow> 'a kernel_scheme \<Rightarrow> (i32 \<times> 'a kernel_scheme) option" where
  "write_op f fd buf nbytes s =
     (case f of
        Write_null \<Rightarrow> None
      | Invalid_write_op \<Rightarrow> Some (invalid_write_op buf nbytes s)
      | Terminal_write \<Rightarrow> Some (terminal_write buf nbytes s)
      | Rtc_write \<Rightarrow> Some (rtc_write buf nbytes s)
      | Dir_write \<Rightarrow> Some (dir_write buf nbytes s)
      | File_write \<Rightarrow> Some (file_write buf nbytes s))"

definition sys_read ::
  "('e \<Rightarrow> 'a kernel_scheme \<Rightarrow> 'a kernel_scheme) \<Rightarrow> 'e list \<Rightarrow> i32 \<Rightarrow> u32 \<Rightarrow> i32 \<Rightarrow> 'a kernel_scheme
     \<Rightarrow> (i32 \<times> 'a kernel_scheme \<times> 'e list) option" where
  "sys_read isr es fd buf nbytes s =
     (if sint nbytes < 0 then Some (FAILURE, s, es)
      else if sint fd < 0 \<or> sint fd > 7 then Some (FAILURE, s, es)
      else if buf = 0 then Some (FAILURE, s, es)
      else if flags (fd_entry (unat fd) s) = 0 then Some (FAILURE, s, es)
      else case read_op isr es (fops_read (pointer (fd_entry (unat fd) s))) fd buf nbytes s of
          None \<Rightarrow> None
        | Some (num_read, s', es') \<Rightarrow>
            let f = fd_entry (unat fd) s'
            in Some (num_read, set_fd (unat fd) (f\<lparr>file_position := file_position f + num_read\<rparr>) s', es'))"

definition sys_write :: "i32 \<Rightarrow> u32 \<Rightarrow> i32 \<Rightarrow> 'a kernel_scheme \<Rightarrow> (i32 \<times> 'a kernel_scheme) option" where
  "sys_write fd buf nbytes s =
     (if sint nbytes < 0 then Some (FAILURE, s)
      else if sint fd < 0 \<or> sint fd > 7 then Some (FAILURE, s)
      else if buf = 0 then Some (FAILURE, s)
      else if flags (fd_entry (unat fd) s) = 0 then Some (FAILURE, s)
      else write_op (fops_write (pointer (fd_entry (unat fd) s))) fd buf nbytes s)"

definition free_fd :: "'a kernel_scheme \<Rightarrow> nat option" where
  "free_fd s = List.find (\<lambda>i. flags (fd_entry i s) = 0) [2..<8]"

definition open_as :: "nat \<Rightarrow> fops_t \<Rightarrow> u32 \<Rightarrow> 'a kernel_scheme \<Rightarrow> (i32 \<times> 'a kernel_scheme) option" where
  "open_as fd ops ino s0 =
     (let s = set_fd fd \<lparr>pointer = ops, inode = ino, file_position = 0, flags = 1\<rparr> s0
      in map_option (\<lambda>(_, s'). (of_nat fd, s')) (open_op (fops_open (pointer (fd_entry fd s))) s))"

definition sys_open :: "u32 \<Rightarrow> 'a kernel_scheme \<Rightarrow> (i32 \<times> 'a kernel_scheme) option" where
  "sys_open filename s =
     (if filename = 0 \<or> mem s filename = 0 then Some (FAILURE, s)
      else case read_dentry_by_name (ptr (mem s) filename) s of
          None \<Rightarrow> Some (FAILURE, s)
        | Some temp_dentry \<Rightarrow>
            (case free_fd s of
               None \<Rightarrow> Some (FAILURE, s)
             | Some fd \<Rightarrow>
                 if file_type temp_dentry = 0 then open_as fd (rtc_fops s) 0 s
                 else if file_type temp_dentry = 1 then open_as fd (dir_fops s) 0 s
                 else if file_type temp_dentry = 2 then open_as fd (file_fops s) (inode_num temp_dentry) s
                 else Some (FAILURE, s)))"

definition sys_close :: "i32 \<Rightarrow> 'a kernel_scheme \<Rightarrow> (i32 \<times> 'a kernel_scheme) option" where
  "sys_close fd s0 =
     (if sint fd < 2 \<or> sint fd > 7 then Some (FAILURE, s0)
      else if flags (fd_entry (unat fd) s0) = 0 then Some (FAILURE, s0)
      else
        let s = set_fd (unat fd) ((fd_entry (unat fd) s0)\<lparr>inode := 0, file_position := 0, flags := 0\<rparr>) s0
        in map_option (\<lambda>(_, s'). (SUCCESS, s')) (close_op (fops_close (pointer (fd_entry (unat fd) s))) s))"

section \<open>Ending a process\<close>

definition close_if_open :: "nat \<Rightarrow> 'a kernel_scheme \<Rightarrow> 'a kernel_scheme option" where
  "close_if_open i s =
     (if flags (fd_entry i s) = 1 then map_option snd (sys_close (of_nat i) s) else Some s)"

fun close_all :: "nat list \<Rightarrow> 'a kernel_scheme \<Rightarrow> 'a kernel_scheme option" where
  "close_all [] s = Some s"
| "close_all (i # js) s = (case close_if_open i s of None \<Rightarrow> None | Some s' \<Rightarrow> close_all js s')"

definition set_term_pcb :: "u32 \<Rightarrow> 'a console_scheme \<Rightarrow> 'a console_scheme" where
  "set_term_pcb a s =
     s\<lparr>terminal := (terminal s)(curr_scheduler s := (terminal s (curr_scheduler s))\<lparr>pcb := a\<rparr>)\<rparr>"

definition halt :: "locals \<Rightarrow> u8 \<Rightarrow> 'a kernel_scheme \<Rightarrow> (halt_result \<times> 'a kernel_scheme) option" where
  "halt lo status s0 =
     (if cur_pcb_addr s0 = 0 then Some (Null_pcb, s0)
      else
        let s = s0\<lparr>pid := (pid s0)(pcb_pid (cur_pcb s0) := VACANT)\<rparr>
        in if parent_pid (cur_pcb s) = - 1 then
             let s = set_term_pcb 0 s;
                 s = s\<lparr>process_counter := process_counter s - 1\<rparr>
             in case execute lo (Some (lit ''shell'')) s of
                  None \<Rightarrow> None
                | Some (To_user e, s) \<Rightarrow> Some (Restarted e, s)
                | Some (Ret _, s) \<Rightarrow> Some (Null_pcb, s)
           else
             let p = cur_pcb s;
                 s = s\<lparr>page_directory := (page_directory s)(32 := (EIGHT_MB + parent_pid p * FOUR_MB) OR PAGING_USER_ON)\<rparr>;
                 s = flush_tlb s;
                 s = s\<lparr>tss_esp0 := (EIGHT_MB - parent_pid p * EIGHT_KB) - 4\<rparr>;
                 s = s\<lparr>ebp := halt_ebp (pcbs s (parent_pcb p)), esp := halt_esp (pcbs s (parent_pcb p))\<rparr>
             in case close_all [0..<8] s of
                  None \<Rightarrow> None
                | Some s \<Rightarrow>
                    let s = set_term_pcb (parent_pcb (cur_pcb s)) s;
                        s = s\<lparr>process_counter := process_counter s - 1, global_status := status\<rparr>;
                        (r, s) = execute_return s
                    in Some (Resume_parent r, s))"

section \<open>The other calls\<close>

definition getargs :: "u32 \<Rightarrow> i32 \<Rightarrow> 'a kernel_scheme \<Rightarrow> (i32 \<times> 'a kernel_scheme) option" where
  "getargs buf nbytes s0 =
     (if sint nbytes \<le> 0 \<or> buf = 0 then Some (FAILURE, s0)
      else case strlen (argument (cur_pcb s0)) of
          None \<Rightarrow> None
        | Some len \<Rightarrow>
            if len = 0 then Some (FAILURE, s0)
            else
              let s = s0\<lparr>mem := strncpy (\<lambda>_. argument (cur_pcb s0)) (mem s0) buf nbytes\<rparr>
              in if list_ex (\<lambda>i. mem s (buf + of_nat i) = 0) [0..<nat (sint nbytes)] then Some (SUCCESS, s)
                 else Some (FAILURE, s))"

text \<open>
  \<open>vidmap\<close> sets the page tables; \<^const>\<open>mem\<close> is not aliased, so what a program stores at \<open>MB136\<close> is
  kept there and does not appear on the text page behind it.
\<close>

definition vidmap :: "u32 \<Rightarrow> 'a kernel_scheme \<Rightarrow> i32 \<times> 'a kernel_scheme" where
  "vidmap screen_start s0 =
     (let s = cli s0
      in if screen_start = 0 \<or> screen_start < 0x8000000 \<or> screen_start > 0x8400000 then (FAILURE, s)
         else
           let s = map_video_memory MB136 VIDEO s;
               s = (if curr_scheduler s = current_terminal s
                    then s\<lparr>page_table_video := (page_table_video s)(VIDEO := VIDEO OR vid_mem_flag)\<rparr>
                    else s\<lparr>page_table_video := (page_table_video s)(VIDEO := vid_page (curr_scheduler s) OR vid_mem_flag)\<rparr>);
               s = flush_tlb s;
               s = s\<lparr>mem := store32 (mem s) screen_start MB136\<rparr>
           in (SUCCESS, sti s))"

definition set_handler :: "i32 \<Rightarrow> u32 \<Rightarrow> 'a kernel_scheme \<Rightarrow> i32 \<times> 'a kernel_scheme" where
  "set_handler signum handler_address s = (FAILURE, s)"

definition sigreturn :: "'a kernel_scheme \<Rightarrow> i32 \<times> 'a kernel_scheme" where
  "sigreturn s = (FAILURE, s)"

definition init_fops_table :: "'a kernel_scheme \<Rightarrow> 'a kernel_scheme" where
  "init_fops_table s =
     s\<lparr>stdin_fops := \<lparr>fops_open = Terminal_open, fops_close = Terminal_close, fops_read = Terminal_read, fops_write = Invalid_write_op\<rparr>,
       stdout_fops := \<lparr>fops_open = Terminal_open, fops_close = Terminal_close, fops_read = Invalid_read_op, fops_write = Terminal_write\<rparr>,
       rtc_fops := \<lparr>fops_open = Rtc_open, fops_close = Rtc_close, fops_read = Rtc_read, fops_write = Rtc_write\<rparr>,
       dir_fops := \<lparr>fops_open = Dir_open, fops_close = Dir_close, fops_read = Dir_read, fops_write = Dir_write\<rparr>,
       file_fops := \<lparr>fops_open = File_open, fops_close = File_close, fops_read = File_read, fops_write = File_write\<rparr>\<rparr>"

end
