(* ===== verification/Command_Spec.thy ===== *)
theory Command_Spec
  imports System_Call
begin

text \<open>
  What \<open>parse\<close> makes of a command line: the name is the first word, the argument the rest
  without the spaces before it, and names of more than 32 characters and arguments that do
  not fit beside the name are refused.
\<close>

definition SPACE :: u8 where "SPACE = 0x20"

definition command_name :: "u8 list \<Rightarrow> u8 list" where
  "command_name bs = takeWhile (\<lambda>c. c \<noteq> SPACE) (dropWhile (\<lambda>c. c = SPACE) bs)"

definition command_arg :: "u8 list \<Rightarrow> u8 list" where
  "command_arg bs = dropWhile (\<lambda>c. c = SPACE) (dropWhile (\<lambda>c. c \<noteq> SPACE) (dropWhile (\<lambda>c. c = SPACE) bs))"

definition command_ok :: "u8 list \<Rightarrow> bool" where
  "command_ok bs \<longleftrightarrow> length (command_name bs) \<le> 32 \<and> length (command_name bs) + length (command_arg bs) \<le> 128"

text \<open>The string from position \<open>i\<close> on.\<close>

definition cstr_at :: "bytes \<Rightarrow> nat \<Rightarrow> u8 list \<Rightarrow> bool" where
  "cstr_at c i bs = cstr (\<lambda>k. c (i + k)) bs"

lemma cstr_at_0: "cstr_at c 0 bs = cstr c bs"
  by (simp add: cstr_at_def)

lemma cstr_at_Nil: "cstr_at c i [] \<longleftrightarrow> c i = 0"
  by (simp add: cstr_at_def cstr_def)

lemma cstr_at_Cons: "cstr_at c i (b # bs) \<longleftrightarrow> c i = b \<and> b \<noteq> 0 \<and> cstr_at c (Suc i) bs"
proof -
  have "(\<forall>k < length (b # bs). c (i + k) = (b # bs) ! k) \<longleftrightarrow> c i = b \<and> (\<forall>k < length bs. c (Suc i + k) = bs ! k)"
    by (simp add: All_less_Suc2)
  then show ?thesis by (auto simp: cstr_at_def cstr_def)
qed

text \<open>Bytes written into an array from index \<open>n\<close> on.\<close>

fun put :: "bytes \<Rightarrow> nat \<Rightarrow> u8 list \<Rightarrow> bytes" where
  "put f n [] = f"
| "put f n (b # bs) = put (f(n := b)) (Suc n) bs"

lemma put_outside: "k < n \<or> n + length bs \<le> k \<Longrightarrow> put f n bs k = f k"
  by (induction bs arbitrary: f n) auto

lemma put_inside: "k < length bs \<Longrightarrow> put f n bs (n + k) = bs ! k"
proof (induction bs arbitrary: f n k)
  case (Cons b bs)
  define f' where "f' = f(n := b)"
  have p: "put f n (b # bs) = put f' (Suc n) bs" by (simp add: f'_def)
  show ?case
  proof (cases k)
    case 0
    then show ?thesis unfolding p using put_outside [of n "Suc n" bs f'] by (simp add: f'_def)
  next
    case (Suc j)
    then show ?thesis unfolding p using Cons.prems Cons.IH [of j f' "Suc n"] by simp
  qed
qed simp

lemma cstr_put: "0 \<notin> set bs \<Longrightarrow> cstr ((put f 0 bs)(length bs := 0)) bs"
  using put_inside [of _ bs f 0] by (simp add: cstr_def)

lemma skip_spaces_eq:
  "cstr_at c i bs \<Longrightarrow> \<exists>j. skip_spaces c i = Some j \<and> cstr_at c j (dropWhile (\<lambda>b. b = SPACE) bs)"
proof (induction bs arbitrary: i)
  case Nil
  then show ?case by (simp add: skip_spaces.simps cstr_at_Nil)
next
  case (Cons b bs)
  then show ?case
    by (cases "b = SPACE") (auto simp: skip_spaces.simps [of c i] cstr_at_Cons SPACE_def)
qed

lemma parse_name_eq:
  assumes "cstr_at c i bs" and "len \<le> 32"
  defines "w \<equiv> takeWhile (\<lambda>b. b \<noteq> SPACE) bs"
  shows "parse_name c i len f =
    (if len + length w \<le> 32 then Inr (i + length w, len + length w, put f len w)
     else Inl (put f len (take (32 - len) w)))"
  using assms(1,2) unfolding w_def
proof (induction bs arbitrary: i len f)
  case Nil
  then show ?case by (simp add: parse_name.simps cstr_at_Nil)
next
  case (Cons b bs)
  show ?case
  proof (cases "b = SPACE \<or> len \<ge> 32")
    case True
    then show ?thesis using Cons.prems by (subst parse_name.simps) (auto simp: cstr_at_Cons SPACE_def)
  next
    case False
    define f' where "f' = f(len := b)"
    have "parse_name c i len f = parse_name c (Suc i) (Suc len) f'"
      using False Cons.prems by (subst parse_name.simps) (simp add: cstr_at_Cons SPACE_def f'_def)
    moreover have "put f len (b # w) = put f' (Suc len) w" for w by (simp add: f'_def)
    moreover have "take (32 - len) (b # w) = b # take (32 - Suc len) w" for w
      using False by (simp add: take_Cons' del: take_Cons_numeral)
    ultimately show ?thesis
      using False Cons.prems Cons.IH [of "Suc i" "Suc len" f'] by (simp add: cstr_at_Cons del: put.simps take_Cons_numeral)
  qed
qed

lemma parse_arg_eq:
  assumes "cstr_at c i bs" and "n \<le> lim"
  shows "parse_arg c i lim n a =
    (if n + length bs \<le> lim then Inr (n + length bs, put a n bs) else Inl (put a n (take (lim - n) bs)))"
  using assms
proof (induction bs arbitrary: i n a)
  case Nil
  then show ?case by (simp add: parse_arg.simps cstr_at_Nil)
next
  case (Cons b bs)
  show ?case
  proof (cases "n \<ge> lim")
    case True
    then show ?thesis using Cons.prems by (subst parse_arg.simps) (auto simp: cstr_at_Cons)
  next
    case False
    define a' where "a' = a(n := b)"
    have "parse_arg c i lim n a = parse_arg c (Suc i) lim (Suc n) a'"
      using False Cons.prems by (subst parse_arg.simps) (simp add: cstr_at_Cons a'_def)
    moreover have "put a n (b # w) = put a' (Suc n) w" for w by (simp add: a'_def)
    moreover have "take (lim - n) (b # w) = b # take (lim - Suc n) w" for w
      using False by (simp add: take_Cons')
    ultimately show ?thesis
      using False Cons.prems Cons.IH [of "Suc i" "Suc n" a'] by (simp add: cstr_at_Cons del: put.simps)
  qed
qed

lemma cstr_at_dropWhile: "cstr_at c i bs \<Longrightarrow> cstr_at c (i + length (takeWhile P bs)) (dropWhile P bs)"
proof (induction bs arbitrary: i)
  case (Cons b bs)
  then show ?case using Cons.IH [of "Suc i"] by (simp add: cstr_at_Cons)
qed simp

lemma cstr_at_nonzero: "cstr_at c i bs \<Longrightarrow> 0 \<notin> set bs"
  by (simp add: cstr_at_def cstr_def)

lemma cstr_at_head: "cstr_at c i bs \<Longrightarrow> c i = (case bs of [] \<Rightarrow> 0 | b # _ \<Rightarrow> b)"
  by (cases bs) (simp_all add: cstr_at_Nil cstr_at_Cons)

lemma command_name_nonempty:
  "dropWhile (\<lambda>c. c \<noteq> SPACE) (dropWhile (\<lambda>c. c = SPACE) bs) \<noteq> [] \<Longrightarrow> command_name bs \<noteq> []"
  using hd_dropWhile [of "\<lambda>c. c = SPACE" bs]
  by (cases "dropWhile (\<lambda>c. c = SPACE) bs") (auto simp: command_name_def)

lemma parse_eq:
  assumes "cstr c bs"
  defines "w \<equiv> command_name bs" and "ar \<equiv> command_arg bs"
    and "rest \<equiv> dropWhile (\<lambda>c. c \<noteq> SPACE) (dropWhile (\<lambda>c. c = SPACE) bs)"
  shows "parse (Some c) f a =
    (if length w > 32 then Some (FAILURE, put f 0 (take 32 w), a(0 := 0))
     else if rest = [] then Some (SUCCESS, (put f 0 w)(length w := 0), a(0 := 0))
     else if length ar > 128 - length w
       then Some (FAILURE, (put f 0 w)(length w := 0), put (a(0 := 0)) 0 (take (128 - length w) ar))
     else Some (SUCCESS, (put f 0 w)(length w := 0), (put (a(0 := 0)) 0 ar)(length ar := 0)))"
proof -
  let ?b1 = "dropWhile (\<lambda>c. c = SPACE) bs"
  obtain i where i: "skip_spaces c 0 = Some i" "cstr_at c i ?b1"
    using skip_spaces_eq [of c 0 bs] assms(1) by (auto simp: cstr_at_0)
  have w: "takeWhile (\<lambda>b. b \<noteq> SPACE) ?b1 = w" by (simp add: w_def command_name_def)
  note pn = parse_name_eq [OF i(2), of 0 f, unfolded w]
  have r: "cstr_at c (i + length w) rest"
    using cstr_at_dropWhile [OF i(2), of "\<lambda>b. b \<noteq> SPACE"] by (simp add: w rest_def)
  have sp: "c (i + length w) = 0x20 \<longleftrightarrow> rest \<noteq> []"
  proof -
    have "hd rest = SPACE" if "rest \<noteq> []"
      using hd_dropWhile [of "\<lambda>c. c \<noteq> SPACE" ?b1] that unfolding rest_def by blast
    then show ?thesis using cstr_at_head [OF r] by (cases rest) (simp_all add: SPACE_def)
  qed
  obtain j where j: "skip_spaces c (i + length w) = Some j" "cstr_at c j ar"
    using skip_spaces_eq [OF r] by (auto simp: ar_def command_arg_def rest_def)
  define a0 where "a0 = a(0 := 0)"
  have pa: "parse_arg c j (128 - length w) 0 a0 = (if length ar \<le> 128 - length w then Inr (length ar, put a0 0 ar)
      else Inl (put a0 0 (take (128 - length w) ar)))"
    using parse_arg_eq [OF j(2), of 0 "128 - length w" a0] by simp
  have "parse (Some c) f a = (if length w > 32 then Some (FAILURE, put f 0 (take 32 w), a0)
     else if rest = [] then Some (SUCCESS, (put f 0 w)(length w := 0), a0)
     else if length ar > 128 - length w then Some (FAILURE, (put f 0 w)(length w := 0), put a0 0 (take (128 - length w) ar))
     else Some (SUCCESS, (put f 0 w)(length w := 0), (put a0 0 ar)(length ar := 0)))"
  proof (cases "length w > 32")
    case True
    then show ?thesis using pn by (simp add: parse_def i(1) a0_def [symmetric])
  next
    case False
    then have "parse_name c i 0 f = Inr (i + length w, length w, put f 0 w)" using pn by simp
    then have "parse (Some c) f a = (if rest \<noteq> [] then
        (case parse_arg c j (128 - length w) 0 a0 of
           Inl arg \<Rightarrow> Some (FAILURE, (put f 0 w)(length w := 0), arg)
         | Inr (argLen, arg) \<Rightarrow> Some (SUCCESS, (put f 0 w)(length w := 0), arg(argLen := 0)))
       else Some (SUCCESS, (put f 0 w)(length w := 0), a0))"
      by (simp add: parse_def i(1) a0_def [symmetric] sp j(1) Let_def)
    with False show ?thesis by (simp add: pa)
  qed
  then show ?thesis unfolding a0_def .
qed

section \<open>Properties\<close>

lemma parse_result:
  assumes "cstr c bs"
  shows "\<exists>f' a'. parse (Some c) f a = Some (if command_ok bs then SUCCESS else FAILURE, f', a') \<and>
    (command_ok bs \<longrightarrow> cstr f' (command_name bs) \<and> cstr a' (command_arg bs)) \<and>
    (\<forall>k > 32. f' k = f k) \<and> (\<forall>k \<ge> 128. a' k = a k)"
proof -
  let ?w = "command_name bs" and ?ar = "command_arg bs"
  define rest where "rest = dropWhile (\<lambda>c. c \<noteq> SPACE) (dropWhile (\<lambda>c. c = SPACE) bs)"
  note pe = parse_eq [OF assms, of f a, folded rest_def]
  have nz: "0 \<notin> set bs" using assms by (simp add: cstr_def)
  then have w0: "0 \<notin> set ?w" "0 \<notin> set ?ar"
    by (auto simp: command_name_def command_arg_def dest!: set_takeWhileD set_dropWhileD)
  have f: "(\<forall>k > 32. (put f 0 xs) k = f k)" if "length xs \<le> 32" for xs using that by (simp add: put_outside)
  have a: "(\<forall>k \<ge> 128. (put (a(0 := 0)) 0 xs) k = a k)" if "length xs \<le> 128" for xs using that by (simp add: put_outside)
  consider "length ?w > 32" | "length ?w \<le> 32" "rest = []" | "length ?w \<le> 32" "rest \<noteq> []" "length ?ar > 128 - length ?w"
    | "length ?w \<le> 32" "rest \<noteq> []" "length ?ar \<le> 128 - length ?w" by linarith
  then show ?thesis
  proof cases
    case 1
    then have "parse (Some c) f a = Some (FAILURE, put f 0 (take 32 ?w), a(0 := 0))" "\<not> command_ok bs"
      using pe by (simp_all add: command_ok_def)
    then show ?thesis using f [of "take 32 ?w"] by (intro exI [of _ "put f 0 (take 32 ?w)"] exI [of _ "a(0 := 0)"]) simp
  next
    case 2
    then have "?ar = []" by (simp add: command_arg_def rest_def [symmetric])
    moreover have "parse (Some c) f a = Some (SUCCESS, (put f 0 ?w)(length ?w := 0), a(0 := 0))"
      using pe 2 by simp
    moreover have "command_ok bs" using 2 \<open>?ar = []\<close> by (simp add: command_ok_def)
    moreover have "cstr (a(0 := 0)) []" by (simp add: cstr_def)
    ultimately show ?thesis using 2 f [of ?w] cstr_put [OF w0(1), of f]
      by (intro exI [of _ "(put f 0 ?w)(length ?w := 0)"] exI [of _ "a(0 := 0)"]) auto
  next
    case 3
    let ?a = "put (a(0 := 0)) 0 (take (128 - length ?w) ?ar)"
    have "parse (Some c) f a = Some (FAILURE, (put f 0 ?w)(length ?w := 0), ?a)" "\<not> command_ok bs"
      using pe 3 by (simp_all add: command_ok_def)
    then show ?thesis using 3 f [of ?w] a [of "take (128 - length ?w) ?ar"]
      by (intro exI [of _ "(put f 0 ?w)(length ?w := 0)"] exI [of _ ?a]) auto
  next
    case 4
    then have "length ?ar < 128" using command_name_nonempty [of bs, folded rest_def] by (cases ?w) auto
    let ?a = "(put (a(0 := 0)) 0 ?ar)(length ?ar := 0)"
    have "parse (Some c) f a = Some (SUCCESS, (put f 0 ?w)(length ?w := 0), ?a)" "command_ok bs"
      using pe 4 by (auto simp: command_ok_def)
    then show ?thesis
      using 4 \<open>length ?ar < 128\<close> f [of ?w] a [of ?ar] cstr_put [OF w0(1), of f] cstr_put [OF w0(2), of "a(0 := 0)"]
      by (intro exI [of _ "(put f 0 ?w)(length ?w := 0)"] exI [of _ ?a]) auto
  qed
qed

text \<open>C9. For every command string \<open>parse\<close> returns. It accepts exactly the commands whose name has at most 32
  characters and whose name and argument have at most 128 together; then \<open>filename\<close> holds the
  first word and \<open>arg\<close> the rest. It writes \<open>filename\<close> up to index 32, one past the array's
  end for a name of 32 characters, and \<open>arg\<close> within its 128 bytes.\<close>

theorem parse_command:
  assumes "cstr c bs"
  shows "\<exists>f' a'. parse (Some c) f a = Some (if command_ok bs then SUCCESS else FAILURE, f', a') \<and>
    (command_ok bs \<longrightarrow> cstr f' (command_name bs) \<and> cstr a' (command_arg bs)) \<and>
    (\<forall>k > 32. f' k = f k) \<and> (\<forall>k \<ge> 128. a' k = a k)"
  using assms by (rule parse_result)

theorem parse_command_witness:
  "\<exists>f' a'. parse (Some (lit ''cat f'')) (\<lambda>_. 1) (\<lambda>_. 1) = Some (SUCCESS, f', a') \<and>
     cstr f' [0x63, 0x61, 0x74] \<and> cstr a' [0x66]"
proof -
  have c: "cstr (lit ''cat f'') [0x63, 0x61, 0x74, 0x20, 0x66]" using cstr_lit [of "''cat f''"] by (simp add: bytes_of_def)
  have "command_name [0x63, 0x61, 0x74, 0x20, 0x66] = [0x63, 0x61, 0x74]"
    "command_arg [0x63, 0x61, 0x74, 0x20, 0x66] = [0x66]"
    by (simp_all add: command_name_def command_arg_def SPACE_def)
  then show ?thesis using parse_command [OF c, of "\<lambda>_. 1" "\<lambda>_. 1"] by (auto simp: command_ok_def)
qed

end
