(* ===== verification/Process_Spec.thy ===== *)
theory Process_Spec
  imports Command_Spec
begin

text \<open>
  The process table. Abstractly each of the three terminals has a stack of process
  identifiers, the running program on top and the terminal's first shell at the bottom;
  \<open>execute\<close> pushes a fresh identifier and \<open>halt\<close> pops one. The control blocks, the parent
  pointers, the array \<open>pid\<close> and the process counter are the concrete form of these stacks.
\<close>

section \<open>What console output leaves alone\<close>

definition console_step :: "'a console_scheme \<Rightarrow> 'a console_scheme \<Rightarrow> bool" where
  "console_step s s' \<longleftrightarrow> s' = s\<lparr>mem := mem s', io_log := io_log s', terminal := terminal s'\<rparr> \<and>
     (\<forall>t. pcb (terminal s' t) = pcb (terminal s t))"

lemma console_step_refl: "console_step s s"
  by (simp add: console_step_def)

lemma console_step_trans:
  assumes st: "console_step s t" and tu: "console_step t u"
  shows "console_step s u"
proof -
  have t: "t = s\<lparr>mem := mem t, io_log := io_log t, terminal := terminal t\<rparr>" using st by (simp add: console_step_def)
  have "u = t\<lparr>mem := mem u, io_log := io_log u, terminal := terminal u\<rparr>" using tu by (simp add: console_step_def)
  also have "\<dots> = s\<lparr>mem := mem u, io_log := io_log u, terminal := terminal u\<rparr>" by (subst t) simp
  finally show ?thesis using st tu by (simp add: console_step_def)
qed

lemma console_step_mem: "console_step s (s\<lparr>mem := m\<rparr>)"
  by (simp add: console_step_def)

lemma console_step_hw_cursor: "console_step s (set_hw_cursor p s)"
  by (simp add: console_step_def set_hw_cursor_def Let_def outb_def)

lemma put_cell_pcb: "put_cell base c (t, m) = (t', m') \<Longrightarrow> pcb t' = pcb t"
  by (auto simp: put_cell_def put_glyph_def scroll_if_full_def Let_def split: if_splits prod.splits)

lemma putc_step: "console_step s (putc c s)"
proof -
  let ?cs = "curr_scheduler s"
  obtain t m where p: "put_cell (page_of s ?cs) c (terminal s ?cs, mem s) = (t, m)" by fastforce
  let ?s = "s\<lparr>terminal := (terminal s)(?cs := t), mem := m\<rparr>"
  have a: "console_step s ?s" using put_cell_pcb [OF p] by (simp add: console_step_def)
  have b: "console_step s (set_hw_cursor (cursor_pos t) ?s)"
    by (rule console_step_trans [OF a console_step_hw_cursor])
  have "putc c s = ?s \<or> putc c s = set_hw_cursor (cursor_pos t) ?s" by (simp add: putc_eq p Let_def)
  with a b show ?thesis by (elim disjE) simp_all
qed

lemma fold_putc_step: "console_step s (fold putc cs s)"
  by (induction cs arbitrary: s) (auto intro: console_step_refl console_step_trans putc_step)

lemma printf_loop_literal:
  "0x25 \<notin> set fmt \<Longrightarrow> printf_loop cb fmt False alt args s = Some (fold putc fmt s)"
  by (induction fmt arbitrary: s alt) auto

lemma print_literal_eq: "0x25 \<notin> set (bytes_of str) \<Longrightarrow> print_literal str s = fold putc (bytes_of str) s"
  by (simp add: print_literal_def printf_def printf_loop_literal)

lemma print_literal_step: "console_step s (print_literal str s)"
  if "0x25 \<notin> set (bytes_of str)"
  using that by (simp add: print_literal_eq fold_putc_step)

lemma read_data_loop_console_step: "console_step s (snd (read_data_loop ip mx buf len i l s))"
proof (induction "unat len - i" arbitrary: i l s)
  case 0
  then show ?case by (simp add: read_data_loop.simps console_step_refl)
next
  case (Suc d)
  have i: "i < unat len" using Suc.hyps(2) by simp
  show ?case
  proof (cases "data_counter l = len \<or> block_index l = 1022 \<or> mx \<le> block_index l")
    case True
    have "console_step s (print_literal (''invalid data block!'' @ [CHR 0x0A]) s)"
      by (rule print_literal_step) (simp add: bytes_of_def)
    with True i show ?thesis by (subst read_data_loop.simps) (auto simp: console_step_refl)
  next
    case False
    let ?l = "next_locals s ip l"
    let ?s = "s\<lparr>mem := (mem s)(buf + data_counter ?l := mem s (curr_block_ptr ?l + offset ?l))\<rparr>"
    have "console_step s ?s" by (rule console_step_mem)
    moreover have "console_step ?s (snd (read_data_loop ip mx buf len (Suc i) l' ?s))" for l'
      using Suc.hyps(1) [of "Suc i"] Suc.hyps(2) by simp
    ultimately show ?thesis
      using False i by (subst read_data_loop_step) (auto simp: Let_def intro: console_step_trans)
  qed
qed

lemma read_data_console_step: "console_step s (snd (read_data ino off buf len s))"
  by (auto simp: read_data_def Let_def console_step_refl read_data_loop_console_step)

lemma console_step_fields:
  assumes "console_step s (s' :: 'a kernel_scheme)"
  shows "pcbs s' = pcbs s" "pid s' = pid s" "process_counter s' = process_counter s" "curr_scheduler s' = curr_scheduler s"
    "current_terminal s' = current_terminal s" "page_directory s' = page_directory s" "tlb_user s' = tlb_user s"
    "frames s' = frames s" "pcb (terminal s' t) = pcb (terminal s t)" "global_halt s' = global_halt s"
    "ebp s' = ebp s" "esp s' = esp s" "page_table_video s' = page_table_video s"
    "boot_block_addr s' = boot_block_addr s" "inode_addr s' = inode_addr s" "data_block_addr s' = data_block_addr s"
    "stdin_fops s' = stdin_fops s" "stdout_fops s' = stdout_fops s"
proof -
  have eq: "s' = s\<lparr>mem := mem s', io_log := io_log s', terminal := terminal s'\<rparr>"
    using assms by (simp add: console_step_def)
  show "pcbs s' = pcbs s" "pid s' = pid s" "process_counter s' = process_counter s" "curr_scheduler s' = curr_scheduler s"
    "current_terminal s' = current_terminal s" "page_directory s' = page_directory s" "tlb_user s' = tlb_user s"
    "frames s' = frames s" "global_halt s' = global_halt s" "ebp s' = ebp s" "esp s' = esp s"
    "page_table_video s' = page_table_video s"
    "boot_block_addr s' = boot_block_addr s" "inode_addr s' = inode_addr s" "data_block_addr s' = data_block_addr s"
    "stdin_fops s' = stdin_fops s" "stdout_fops s' = stdout_fops s"
    by (subst eq, simp)+
  show "pcb (terminal s' t) = pcb (terminal s t)" using assms by (simp add: console_step_def)
qed

section \<open>The stacks\<close>

text \<open>\<open>chain P a ps\<close>: from the control block at \<open>a\<close>, the parent pointers lead through the processes \<open>ps\<close>.\<close>

fun chain :: "(u32 \<Rightarrow> pcb_t) \<Rightarrow> u32 \<Rightarrow> i32 list \<Rightarrow> bool" where
  "chain P a [] \<longleftrightarrow> a = 0"
| "chain P a (p # ps) \<longleftrightarrow> a = pcb_addr p \<and> p < 6 \<and> pcb_pid (P a) = p \<and>
     parent_pid (P a) = (case ps of [] \<Rightarrow> - 1 | q # _ \<Rightarrow> q) \<and> chain P (parent_pcb (P a)) ps"

definition all_procs :: "(u8 \<Rightarrow> i32 list) \<Rightarrow> i32 list" where
  "all_procs ch = ch 0 @ ch 1 @ ch 2"

definition proc_table :: "'a kernel_scheme \<Rightarrow> (u8 \<Rightarrow> i32 list) \<Rightarrow> bool" where
  "proc_table s ch \<longleftrightarrow> (\<forall>t < 3. chain (pcbs s) (pcb (terminal s t)) (ch t)) \<and> distinct (all_procs ch) \<and>
     (\<forall>p < 6. pid s p = (if p \<in> set (all_procs ch) then OCCUPIED else VACANT)) \<and>
     process_counter s = of_nat (length (all_procs ch)) - 1"

lemma proc_table_chain: "proc_table s ch \<Longrightarrow> t < 3 \<Longrightarrow> chain (pcbs s) (pcb (terminal s t)) (ch t)"
  by (simp add: proc_table_def)

lemma pcb_addr_inj: "p < 6 \<Longrightarrow> q < 6 \<Longrightarrow> pcb_addr p = pcb_addr q \<longleftrightarrow> p = q"
  by (auto simp: u32_less_6 pcb_addr_def)

lemma pcb_addr_nonzero: "p < 6 \<Longrightarrow> pcb_addr p \<noteq> 0"
  by (auto simp: u32_less_6 pcb_addr_def)

definition same_links :: "pcb_t \<Rightarrow> pcb_t \<Rightarrow> bool" where
  "same_links x y \<longleftrightarrow> pcb_pid x = pcb_pid y \<and> parent_pid x = parent_pid y \<and> parent_pcb x = parent_pcb y"

lemma chain_cong:
  "(\<And>p. p \<in> set ps \<Longrightarrow> p < 6 \<Longrightarrow> same_links (P (pcb_addr p)) (P' (pcb_addr p))) \<Longrightarrow> chain P a ps \<longleftrightarrow> chain P' a ps"
  by (induction P a ps rule: chain.induct) (auto simp: same_links_def)

lemma chain_less: "chain P a ps \<Longrightarrow> p \<in> set ps \<Longrightarrow> p < 6"
  by (induction P a ps rule: chain.induct) auto

lemma all_procs_eq: "set (all_procs ch) = (\<Union>t \<in> {t. t < 3}. set (ch t))"
  by (auto simp: all_procs_def u8_less_3)

lemma proc_table_less: "proc_table s ch \<Longrightarrow> p \<in> set (all_procs ch) \<Longrightarrow> p < 6"
  by (auto simp: all_procs_eq proc_table_def intro: chain_less)

text \<open>The table has room exactly when fewer than six processes exist, so the counter never exceeds 5.\<close>

lemma proc_table_length:
  assumes "proc_table s ch"
  shows "length (all_procs ch) \<le> 6"
    and "length (all_procs ch) < 6 \<Longrightarrow> \<exists>p < 6. p \<notin> set (all_procs ch)"
proof -
  have sub: "set (all_procs ch) \<subseteq> set [0, 1, 2, 3, 4, 5]"
    using proc_table_less [OF assms] by (auto simp: u32_less_6)
  have len: "length (all_procs ch) = card (set (all_procs ch))"
    using assms by (simp add: proc_table_def distinct_card)
  have "card (set [0 :: i32, 1, 2, 3, 4, 5]) = 6" by simp
  then show "length (all_procs ch) \<le> 6" using card_mono [OF _ sub] len by simp
  assume "length (all_procs ch) < 6"
  then have "set (all_procs ch) \<noteq> set [0, 1, 2, 3, 4, 5]" using len by auto
  then show "\<exists>p < 6. p \<notin> set (all_procs ch)" using sub by (auto simp: u32_less_6)
qed

lemma find_pid_vacant:
  assumes "pid s p = VACANT" and "p < 6"
  shows "find_pid s < 6 \<and> pid s (find_pid s) = VACANT"
proof -
  have "unat p < 6" "of_nat (unat p) = p" using assms(2) by (simp_all add: word_less_nat_alt)
  then have "List.find (\<lambda>i. pid s (of_nat i) = VACANT) [0..<6] \<noteq> None"
    unfolding find_upt_None using assms(1) by auto
  then obtain i where i: "List.find (\<lambda>i. pid s (of_nat i) = VACANT) [0..<6] = Some i" by blast
  then have h: "i < 6" "pid s (of_nat i) = VACANT" unfolding find_upt_Some by simp_all
  have "find_pid s = of_nat i" unfolding find_pid_def i by simp
  then show ?thesis using h by (simp add: word_less_nat_alt unat_of_nat take_bit_nat_eq_self)
qed

section \<open>Starting a process\<close>

lemma init_pcb_fields:
  fixes s :: "'a kernel_scheme"
  defines "cs \<equiv> curr_scheduler s"
  shows "pid (init_pcb a arg p s) = (pid s)(p := OCCUPIED)"
    and "pcb (terminal (init_pcb a arg p s) t) = (if t = cs then a else pcb (terminal s t))"
    and "curr_scheduler (init_pcb a arg p s) = cs" and "process_counter (init_pcb a arg p s) = process_counter s"
    and "b \<noteq> a \<Longrightarrow> pcbs (init_pcb a arg p s) b = pcbs s b"
    and "pcb_pid (pcbs (init_pcb a arg p s) a) = p" and "argument (pcbs (init_pcb a arg p s) a) = arg"
    and "parent_pcb (pcbs (init_pcb a arg p s) a) = pcb (terminal s cs)"
    and "parent_pid (pcbs (init_pcb a arg p s) a) = (if pcb (terminal s cs) = 0 then - 1 else pcb_pid (cur_pcb s))"
    and "mem (init_pcb a arg p s) = mem s" and "page_directory (init_pcb a arg p s) = page_directory s"
    and "tlb_user (init_pcb a arg p s) = tlb_user s" and "frames (init_pcb a arg p s) = frames s"
    and "ebp (init_pcb a arg p s) = ebp s" and "esp (init_pcb a arg p s) = esp s"
    and "current_terminal (init_pcb a arg p s) = current_terminal s"
  by (simp_all add: init_pcb_def cs_def Let_def)

text \<open>The state \<open>launch\<close> has built before it stores the return frame in the parent.\<close>

definition loaded :: "locals \<Rightarrow> bytes \<Rightarrow> dentry_t \<Rightarrow> 'a kernel_scheme \<Rightarrow> 'a kernel_scheme" where
  "loaded lo arg d s = load_program lo arg d (find_pid s) (s\<lparr>process_counter := process_counter s + 1\<rparr>)"

lemma find_pid_counter [simp]: "find_pid (s\<lparr>process_counter := n\<rparr>) = find_pid s"
  by (simp add: find_pid_def)

lemma launch_eq: "launch lo arg d s = enter_program lo (find_pid s) (loaded lo arg d s)"
  by (simp add: launch_def loaded_def Let_def)

lemma loaded_eq:
  "loaded lo arg d s =
     (let s1 = init_pcb (pcb_addr (find_pid s)) arg (find_pid s)
                 (switch_user (find_pid s) (s\<lparr>process_counter := process_counter s + 1\<rparr>));
          s2 = snd (read_data (inode_num d) 24 (entry_point lo) 4 s1)
      in snd (read_data (inode_num d) 0 PROGRAM_IMG (inode_length (mem s2) (inode_addr s2 + 4096 * inode_num d)) s2))"
  unfolding loaded_def load_program_def switch_user_def user_pde_def Let_def split_def ..

lemma switch_user_kernel_fields [frame_simps]:
  fixes s :: "'a kernel_scheme"
  shows "pid (switch_user p s) = pid s" "process_counter (switch_user p s) = process_counter s"
    "ebp (switch_user p s) = ebp s" "esp (switch_user p s) = esp s" "global_halt (switch_user p s) = global_halt s"
  by (simp_all add: switch_user_def flush_tlb_def Let_def)

lemma loaded_fields:
  fixes s :: "'a kernel_scheme"
  defines "p \<equiv> find_pid s" and "cs \<equiv> curr_scheduler s"
  shows "pid (loaded lo arg d s) = (pid s)(p := OCCUPIED)"
    and "process_counter (loaded lo arg d s) = process_counter s + 1" and "curr_scheduler (loaded lo arg d s) = cs"
    and "pcb (terminal (loaded lo arg d s) t) = (if t = cs then pcb_addr p else pcb (terminal s t))"
    and "b \<noteq> pcb_addr p \<Longrightarrow> pcbs (loaded lo arg d s) b = pcbs s b"
    and "pcb_pid (pcbs (loaded lo arg d s) (pcb_addr p)) = p"
    and "parent_pcb (pcbs (loaded lo arg d s) (pcb_addr p)) = pcb (terminal s cs)"
    and "parent_pid (pcbs (loaded lo arg d s) (pcb_addr p)) = (if pcb (terminal s cs) = 0 then - 1 else pcb_pid (cur_pcb s))"
proof -
  let ?a = "init_pcb (pcb_addr p) arg p (switch_user p (s\<lparr>process_counter := process_counter s + 1\<rparr>))"
  have step: "console_step ?a (loaded lo arg d s)"
    unfolding loaded_eq Let_def p_def by (rule console_step_trans [OF read_data_console_step read_data_console_step])
  note f = console_step_fields [OF step]
  show "pid (loaded lo arg d s) = (pid s)(p := OCCUPIED)"
    "process_counter (loaded lo arg d s) = process_counter s + 1" "curr_scheduler (loaded lo arg d s) = cs"
    "pcb (terminal (loaded lo arg d s) t) = (if t = cs then pcb_addr p else pcb (terminal s t))"
    "pcb_pid (pcbs (loaded lo arg d s) (pcb_addr p)) = p"
    "parent_pcb (pcbs (loaded lo arg d s) (pcb_addr p)) = pcb (terminal s cs)"
    "parent_pid (pcbs (loaded lo arg d s) (pcb_addr p)) = (if pcb (terminal s cs) = 0 then - 1 else pcb_pid (cur_pcb s))"
    unfolding f by (simp_all add: init_pcb_fields frame_simps cs_def cur_pcb_def cur_pcb_addr_def)
  show "pcbs (loaded lo arg d s) b = pcbs s b" if "b \<noteq> pcb_addr p"
    unfolding f using that by (simp add: init_pcb_fields frame_simps)
qed

lemma launch_fields:
  fixes s :: "'a kernel_scheme" and lo :: locals and arg :: bytes and d :: dentry_t
  defines "p \<equiv> find_pid s" and "cs \<equiv> curr_scheduler s" and "s' \<equiv> snd (launch lo arg d s)"
  shows "pid s' = (pid s)(p := OCCUPIED)" and "process_counter s' = process_counter s + 1"
    and "curr_scheduler s' = cs" and "pcb (terminal s' t) = (if t = cs then pcb_addr p else pcb (terminal s t))"
    and "same_links (pcbs s' b) (pcbs (loaded lo arg d s) b)"
  using loaded_fields [where lo = lo and arg = arg and d = d and s = s]
  by (simp_all add: s'_def launch_eq enter_program_def context_switch_def Let_def p_def cs_def same_links_def)

lemma all_procs_push:
  assumes "cs < 3"
  shows "set (all_procs (ch(cs := p # ch cs))) = insert p (set (all_procs ch))"
    and "length (all_procs (ch(cs := p # ch cs))) = Suc (length (all_procs ch))"
    and "distinct (all_procs (ch(cs := p # ch cs))) \<longleftrightarrow> p \<notin> set (all_procs ch) \<and> distinct (all_procs ch)"
  using assms by (auto simp: all_procs_def u8_less_3)

lemma launch_pushes:
  assumes pt: "proc_table s ch" and cs: "curr_scheduler s < 3" and room: "length (all_procs ch) < 6"
  defines "p \<equiv> find_pid s"
  shows "p < 6" and "p \<notin> set (all_procs ch)"
    and "proc_table (snd (launch lo arg d s)) (ch(curr_scheduler s := p # ch (curr_scheduler s)))"
proof -
  let ?cs = "curr_scheduler s" and ?s' = "snd (launch lo arg d s)"
  obtain q where "q < 6" "q \<notin> set (all_procs ch)" using proc_table_length(2) [OF pt room] by blast
  then have "pid s q = VACANT" using pt by (simp add: proc_table_def)
  then have p: "p < 6 \<and> pid s p = VACANT" unfolding p_def using find_pid_vacant \<open>q < 6\<close> by blast
  then show "p < 6" and fresh: "p \<notin> set (all_procs ch)"
    using pt by (auto simp: proc_table_def split: if_splits)
  note f = launch_fields [where lo = lo and arg = arg and d = d and s = s, folded p_def]
    and l = loaded_fields [where lo = lo and arg = arg and d = d and s = s, folded p_def]
  have links: "same_links (pcbs ?s' b) (pcbs s b)" if "b \<noteq> pcb_addr p" for b
    using f(5) [of b] l(5) [OF that] by (simp add: same_links_def)
  have old: "chain (pcbs ?s') a (ch t) = chain (pcbs s) a (ch t)" if "t < 3" for a t
  proof (rule chain_cong)
    fix q assume "q \<in> set (ch t)" "q < 6"
    then have "q \<noteq> p" using fresh \<open>t < 3\<close> by (auto simp: all_procs_eq)
    then show "same_links (pcbs ?s' (pcb_addr q)) (pcbs s (pcb_addr q))"
      using \<open>q < 6\<close> p pcb_addr_inj by (intro links) auto
  qed
  have ch: "chain (pcbs s) (pcb (terminal s t)) (ch t)" if "t < 3" for t
    using pt that by (simp add: proc_table_def)
  have "chain (pcbs ?s') (pcb_addr p) (p # ch ?cs)"
  proof -
    have "parent_pcb (pcbs ?s' (pcb_addr p)) = pcb (terminal s ?cs)" "pcb_pid (pcbs ?s' (pcb_addr p)) = p"
      and pp: "parent_pid (pcbs ?s' (pcb_addr p)) = (if pcb (terminal s ?cs) = 0 then - 1 else pcb_pid (cur_pcb s))"
      using f(5) [of "pcb_addr p"] l(6-8) by (simp_all add: same_links_def)
    moreover have "parent_pid (pcbs ?s' (pcb_addr p)) = (case ch ?cs of [] \<Rightarrow> - 1 | q # _ \<Rightarrow> q)"
      using ch [OF cs] pp pcb_addr_nonzero by (cases "ch ?cs") (auto simp: cur_pcb_def cur_pcb_addr_def)
    ultimately show ?thesis using p old [OF cs] ch [OF cs] by simp
  qed
  then have "chain (pcbs ?s') (pcb (terminal ?s' t)) ((ch(?cs := p # ch ?cs)) t)" if "t < 3" for t
    using that old ch f(4) [of t] by simp
  moreover have "pid ?s' q = (if q \<in> set (all_procs (ch(?cs := p # ch ?cs))) then OCCUPIED else VACANT)" if "q < 6" for q
    using pt that f(1) by (simp add: all_procs_push [OF cs] proc_table_def)
  ultimately show "proc_table ?s' (ch(?cs := p # ch ?cs))"
    using pt fresh f(2) by (simp add: proc_table_def all_procs_push [OF cs])
qed

lemma proc_table_step:
  assumes "console_step s s'"
  shows "proc_table s' ch \<longleftrightarrow> proc_table s ch"
  using console_step_fields [OF assms] by (simp add: proc_table_def)

lemma cli_fields [frame_simps]:
  fixes s :: "'a kernel_scheme"
  shows "terminal (cli s) = terminal s" "curr_scheduler (cli s) = curr_scheduler s" "process_counter (cli s) = process_counter s"
    "pid (cli s) = pid s" "pcbs (cli s) = pcbs s" "mem (cli s) = mem s" "boot_block_addr (cli s) = boot_block_addr s"
  by (simp_all add: cli_def)

lemma proc_table_cli [simp]: "proc_table (cli s) ch \<longleftrightarrow> proc_table s ch"
  by (simp add: proc_table_def frame_simps)

lemma isExe_step: "console_step s (snd (isExe lo f s))"
  using read_data_console_step [of s]
  by (auto simp: isExe_def Let_def split_def console_step_refl split: option.splits)

text \<open>At the limit only the name \<open>exit\<close> passes the check of \<open>execute\<close>; no directory entry has that name.\<close>

definition no_exit_program :: "'a filesys_scheme \<Rightarrow> bool" where
  "no_exit_program s \<longleftrightarrow> (\<forall>fname. strncmp fname (lit ''exit'') 5 = 0 \<longrightarrow> read_dentry_by_name fname s = None)"

lemma no_exit_program_iff:
  "no_exit_program s \<longleftrightarrow> (\<forall>i<62. entry_name s i \<noteq> bytes_of ''exit'')"
proof -
  let ?bs = "bytes_of ''exit''"
  have c: "cstr (lit ''exit'') ?bs" by (rule cstr_lit) (simp add: bytes_of_def)
  have dot: "?bs \<noteq> [0x2E]" by (simp add: bytes_of_def)
  have "cstr fname ?bs" if "strncmp fname (lit ''exit'') 5 = 0" for fname
  proof -
    have "strncmp (lit ''exit'') fname 5 = 0" by (rule strncmp_0_sym) (rule that)
    then have eq: "lit ''exit'' k = fname k" if "k < 5" "\<forall>j<k. lit ''exit'' j \<noteq> 0" for k
      using that unfolding strncmp_eq_0 by simp
    have "length ?bs = 4" by (simp add: bytes_of_def)
    then have "\<forall>j<k. lit ''exit'' j \<noteq> 0" if "k < 5" for k
      using that cstr_nonzero [OF c] by auto
    then show ?thesis using c eq \<open>length ?bs = 4\<close> by (auto simp: cstr_def)
  qed
  moreover have "strncmp (lit ''exit'') (lit ''exit'') 5 = 0" by (simp add: strncmp_eq_0)
  moreover have "read_dentry_by_name fname s = None \<longleftrightarrow> (\<forall>i<62. entry_name s i \<noteq> ?bs)" if "cstr fname ?bs" for fname
    using dot by (simp add: read_dentry_by_name_eq [OF that] find_upt_None)
  ultimately show ?thesis unfolding no_exit_program_def using c by metis
qed

lemma max_counter:
  assumes "proc_table s ch"
  shows "process_counter s = 5 \<longleftrightarrow> length (all_procs ch) = 6"
proof -
  have "length (all_procs ch) \<le> 6" by (rule proc_table_length(1) [OF assms])
  moreover have "process_counter s = 5 \<longleftrightarrow> (of_nat (length (all_procs ch)) :: i32) = of_nat 6"
    using assms by (simp add: proc_table_def)
  ultimately show ?thesis by (simp add: of_nat_u32_inj del: of_nat_numeral)
qed

lemma parse_status: "parse cmd f a = Some (r, f', a') \<Longrightarrow> r = FAILURE \<or> r = SUCCESS"
  by (auto simp: parse_def Let_def split: option.splits sum.splits prod.splits if_splits)

lemma execute_cases:
  assumes "execute lo cmd s = Some (r, s')"
  obtains (failed) "r = Ret FAILURE" "console_step (cli s) s'"
  | (launched) filename arg d s1 where "(r, s') = launch lo arg d s1" "console_step (cli s) s1"
      "parse cmd (filename0 lo) (arg0 lo) = Some (SUCCESS, filename, arg)"
      "read_dentry_by_name filename (cli s) = Some d"
      "isExe lo filename (cli s) = (SUCCESS, s1)"
      "pcb (terminal s (curr_scheduler s)) = 0 \<or> process_counter s \<noteq> 5 \<or> strncmp filename (lit ''exit'') 5 = 0"
proof -
  obtain r0 f a where p: "parse cmd (filename0 lo) (arg0 lo) = Some (r0, f, a)"
    using assms by (cases "parse cmd (filename0 lo) (arg0 lo)") (auto simp: execute_def Let_def)
  let ?full = "pcb (terminal (cli s) (curr_scheduler (cli s))) \<noteq> 0 \<and> process_counter (cli s) = 5 \<and>
    strncmp f (lit ''exit'') 5 \<noteq> 0"
  note e = assms [unfolded execute_def Let_def, simplified p option.case prod.case]
  consider "r0 = FAILURE" | "r0 \<noteq> FAILURE" "?full" | "r0 \<noteq> FAILURE" "\<not> ?full" "read_dentry_by_name f (cli s) = None"
    | d where "r0 \<noteq> FAILURE" "\<not> ?full" "read_dentry_by_name f (cli s) = Some d" by blast
  then show thesis
  proof cases
    case 1
    then show thesis using e console_step_refl by (intro failed) auto
  next
    case 2
    have "console_step (cli s) (print_literal (''Maximum number of process reached. Exit please'' @ [CHR 0x0A]) (cli s))"
      by (rule print_literal_step) (simp add: bytes_of_def)
    then show thesis using e 2 by (intro failed) auto
  next
    case 3
    then show thesis using e console_step_refl by (intro failed) auto
  next
    case 4
    obtain x s1 where x: "isExe lo f (cli s) = (x, s1)" by fastforce
    then have step: "console_step (cli s) s1" using isExe_step [of "cli s" lo f] by simp
    have "x = FAILURE \<or> x = SUCCESS" using x by (auto simp: isExe_def Let_def split_def split: option.splits if_splits)
    then consider "x = FAILURE" | "x = SUCCESS" "x \<noteq> FAILURE" by auto
    then show thesis
    proof cases
      case 1
      then show thesis using e 4 x step by (intro failed) auto
    next
      case succ: 2
      have "r0 = SUCCESS" using parse_status [OF p] 4(1) by simp
      then show thesis
        using succ e 4 x step p by (intro launched [of a d s1 f]) (auto simp: frame_simps)
    qed
  qed
qed

lemma launch_result: "\<exists>e s'. launch lo arg d s = (To_user e, s')"
  by (auto simp: launch_eq enter_program_def context_switch_def Let_def)

lemma execute_stacks:
  assumes pt: "proc_table s ch" and cs: "curr_scheduler s < 3"
    and room: "length (all_procs ch) < 6 \<or> ch (curr_scheduler s) \<noteq> [] \<and> no_exit_program s"
    and ex: "execute lo cmd s = Some (r, s')"
  shows "(r = Ret FAILURE \<and> proc_table s' ch) \<or>
    (\<exists>e p. r = To_user e \<and> p < 6 \<and> p \<notin> set (all_procs ch) \<and>
       proc_table s' (ch(curr_scheduler s := p # ch (curr_scheduler s))))"
  using ex
proof (cases rule: execute_cases)
  case failed
  then show ?thesis using pt by (simp add: proc_table_step)
next
  case (launched filename arg d s1)
  have pt1: "proc_table s1 ch" using launched(2) pt by (simp add: proc_table_step)
  have cs1: "curr_scheduler s1 = curr_scheduler s"
    using console_step_fields(4) [OF launched(2)] by (simp add: frame_simps)
  have "length (all_procs ch) < 6"
  proof (rule ccontr)
    assume full: "\<not> length (all_procs ch) < 6"
    then obtain p ps where "ch (curr_scheduler s) = p # ps" and ne: "no_exit_program s"
      using room by (cases "ch (curr_scheduler s)") auto
    then have "pcb (terminal s (curr_scheduler s)) \<noteq> 0"
      using pt cs pcb_addr_nonzero unfolding proc_table_def by force
    moreover have "strncmp filename (lit ''exit'') 5 \<noteq> 0"
    proof
      assume "strncmp filename (lit ''exit'') 5 = 0"
      then have "read_dentry_by_name filename s = None" using ne by (simp add: no_exit_program_def)
      moreover have "read_dentry_by_name filename (cli s) = read_dentry_by_name filename s"
        by (simp add: read_dentry_by_name_def dentry_name_def dir_dentry_addr_def dentry_addr_def frame_simps)
      ultimately show False using launched(4) by simp
    qed
    ultimately have "process_counter s \<noteq> 5" using launched(6) by blast
    then show False using max_counter [OF pt] proc_table_length(1) [OF pt] full by simp
  qed
  from launch_pushes [OF pt1 _ this] cs cs1 launched(1) launch_result [of lo arg d s1]
  show ?thesis by (metis Pair_inject snd_conv)
qed

section \<open>Ending a process\<close>

definition fd_step :: "'a process_scheme \<Rightarrow> 'a process_scheme \<Rightarrow> bool" where
  "fd_step s s' \<longleftrightarrow> (\<exists>f. s' = set_cur_pcb ((cur_pcb s)\<lparr>file_descriptor := f\<rparr>) s)"

lemma fd_step_refl: "fd_step s s"
  unfolding fd_step_def by (intro exI [of _ "file_descriptor (cur_pcb s)"]) (simp add: set_cur_pcb_def cur_pcb_def)

lemma fd_step_trans: "fd_step s t \<Longrightarrow> fd_step t u \<Longrightarrow> fd_step s u"
  unfolding fd_step_def by (auto simp: set_cur_pcb_def cur_pcb_def cur_pcb_addr_def)

lemma set_fd_step: "fd_step s (set_fd fd f s)"
  unfolding fd_step_def set_fd_def by blast

lemma fd_step_fields:
  assumes "fd_step s (s' :: 'a kernel_scheme)"
  shows "same_links (pcbs s' a) (pcbs s a)" "terminal s' = terminal s" "curr_scheduler s' = curr_scheduler s"
    "pid s' = pid s" "process_counter s' = process_counter s" "global_halt s' = global_halt s" "mem s' = mem s"
    "page_directory s' = page_directory s" "ebp s' = ebp s" "esp s' = esp s" "tlb_user s' = tlb_user s"
    "tss_esp0 s' = tss_esp0 s" "frames s' = frames s" "current_terminal s' = current_terminal s"
  using assms by (auto simp: fd_step_def set_cur_pcb_def cur_pcb_def same_links_def)

text \<open>The operation tables of the running program's open descriptors have a close function.\<close>

definition closable :: "'a kernel_scheme \<Rightarrow> bool" where
  "closable s \<longleftrightarrow> (\<forall>i < 8. flags (fd_entry i s) \<noteq> 0 \<longrightarrow> fops_close (pointer (fd_entry i s)) \<noteq> Close_null)"

lemma close_op_total: "f \<noteq> Close_null \<Longrightarrow> \<exists>r. close_op f s = Some (r, s)"
  by (cases f) (auto simp: close_op_def terminal_close_def rtc_close_def dir_close_def file_close_def)

lemma sys_close_result:
  assumes "closable s"
  shows "\<exists>r s'. sys_close fd s = Some (r, s') \<and> fd_step s s' \<and> closable s'"
proof (cases "sint fd < 2 \<or> sint fd > 7 \<or> flags (fd_entry (unat fd) s) = 0")
  case True
  then have "sys_close fd s = Some (FAILURE, s)" by (auto simp: sys_close_def)
  then show ?thesis using assms fd_step_refl by blast
next
  case False
  then have "0 \<le> sint fd" "nat (sint fd) < 8" by linarith+
  then have "unat fd < 8" by (simp add: unat_nonneg_sint)
  let ?s = "set_fd (unat fd) ((fd_entry (unat fd) s)\<lparr>inode := 0, file_position := 0, flags := 0\<rparr>) s"
  have c: "closable ?s" using assms by (simp add: closable_def fd_entry_set_fd)
  have "fops_close (pointer (fd_entry (unat fd) ?s)) \<noteq> Close_null"
    using assms False \<open>unat fd < 8\<close> by (simp add: closable_def fd_entry_set_fd)
  then obtain r where "close_op (fops_close (pointer (fd_entry (unat fd) ?s))) ?s = Some (r, ?s)"
    using close_op_total by blast
  then have "sys_close fd s = Some (SUCCESS, ?s)" using False by (simp add: sys_close_def Let_def)
  then show ?thesis using c set_fd_step by blast
qed

lemma close_all_result:
  "closable s \<Longrightarrow> \<exists>s'. close_all js s = Some s' \<and> fd_step s s'"
proof (induction js arbitrary: s)
  case (Cons i js)
  obtain s1 where s1: "close_if_open i s = Some s1" "fd_step s s1" "closable s1"
  proof (cases "flags (fd_entry i s) = 1")
    case True
    then show ?thesis
      using sys_close_result [OF Cons.prems, of "of_nat i"] that by (auto simp: close_if_open_def)
  next
    case False
    then show ?thesis using that [of s] Cons.prems fd_step_refl [of s] by (simp add: close_if_open_def)
  qed
  then show ?case using Cons.IH [OF s1(3)] fd_step_trans by fastforce
qed (simp add: fd_step_refl)

lemma all_procs_pop:
  assumes "cs < 3" "ch cs = p # ps" "distinct (all_procs ch)"
  shows "distinct (all_procs (ch(cs := ps)))" "length (all_procs ch) = Suc (length (all_procs (ch(cs := ps))))"
    "x \<in> set (all_procs (ch(cs := ps))) \<longleftrightarrow> x \<in> set (all_procs ch) \<and> x \<noteq> p"
proof -
  let ?ch = "ch(cs := ps)"
  have e: "ch = ?ch(cs := p # ?ch cs)" using assms(2) by (auto simp: fun_upd_idem)
  have "distinct (all_procs (?ch(cs := p # ?ch cs)))" using assms(3) e by simp
  then have d: "p \<notin> set (all_procs ?ch)" "distinct (all_procs ?ch)" using all_procs_push(3) [OF assms(1)] by blast+
  show "distinct (all_procs ?ch)" by (rule d(2))
  show "length (all_procs ch) = Suc (length (all_procs ?ch))" using all_procs_push(2) [OF assms(1), of ?ch p] e by simp
  have "set (all_procs ch) = insert p (set (all_procs ?ch))" using all_procs_push(1) [OF assms(1), of ?ch p] e by simp
  then show "x \<in> set (all_procs ?ch) \<longleftrightarrow> x \<in> set (all_procs ch) \<and> x \<noteq> p" using d(1) by auto
qed

lemma halt_pops:
  assumes pt: "proc_table s ch" and cs: "curr_scheduler s < 3" and cl: "closable s"
    and st: "ch (curr_scheduler s) = p # q # ps"
  shows "\<exists>s'. halt lo status s = Some (Resume_parent (if global_halt s = 1 then 256 else 0), s') \<and>
    proc_table s' (ch(curr_scheduler s := q # ps)) \<and> global_halt s' = (if global_halt s = 1 then 0 else global_halt s) \<and>
    global_status s' = status \<and> page_directory s' 32 = user_pde q \<and> tlb_user s' = user_pde q \<and>
    tss_esp0 s' = EIGHT_MB - q * EIGHT_KB - 4 \<and>
    ebp s' = halt_ebp (pcbs s (pcb_addr q)) \<and> esp s' = halt_esp (pcbs s (pcb_addr q))"
proof -
  let ?cs = "curr_scheduler s"
  have ch: "chain (pcbs s) (pcb (terminal s ?cs)) (p # q # ps)"
    using proc_table_chain [OF pt cs] unfolding st .
  then have p: "pcb (terminal s ?cs) = pcb_addr p" "p < 6" "q < 6" "parent_pcb (pcbs s (pcb_addr p)) = pcb_addr q"
    "pcb_pid (pcbs s (pcb_addr p)) = p" "parent_pid (pcbs s (pcb_addr p)) = q" by auto
  define s1 where "s1 = s\<lparr>pid := (pid s)(p := VACANT)\<rparr>"
  define s2 where "s2 = (switch_user q s1)\<lparr>tss_esp0 := EIGHT_MB - q * EIGHT_KB - 4,
    ebp := halt_ebp (pcbs s (pcb_addr q)), esp := halt_esp (pcbs s (pcb_addr q))\<rparr>"
  have "closable s2" using cl
    by (simp add: closable_def s2_def s1_def fd_entry_def cur_pcb_def cur_pcb_addr_def frame_simps)
  then obtain s3 where s3: "close_all [0..<8] s2 = Some s3" "fd_step s2 s3" using close_all_result by blast
  note f = fd_step_fields [OF s3(2)]
  have q: "q \<noteq> - 1" using p(3) by auto
  have par: "parent_pcb (cur_pcb s3) = pcb_addr q"
    using f(1) [of "pcb_addr p"] f(2,3) p
    by (simp add: same_links_def cur_pcb_def cur_pcb_addr_def s2_def s1_def frame_simps)
  define s5 where "s5 = (set_term_pcb (pcb_addr q) s3)\<lparr>process_counter := process_counter s - 1, global_status := status\<rparr>"
  have pc: "process_counter s3 = process_counter s" using f(5) by (simp add: s2_def s1_def frame_simps)
  have h: "halt lo status s = (case execute_return s5 of (r, s') \<Rightarrow> Some (Resume_parent r, s'))"
  proof -
    have c: "cur_pcb_addr s = pcb_addr p" "cur_pcb s = pcbs s (pcb_addr p)" "cur_pcb s1 = pcbs s (pcb_addr p)"
      using p by (simp_all add: cur_pcb_def cur_pcb_addr_def s1_def)
    have "halt lo status s = (case close_all [0..<8] s2 of None \<Rightarrow> None
        | Some s \<Rightarrow>
            let s = set_term_pcb (parent_pcb (cur_pcb s)) s;
                s = s\<lparr>process_counter := process_counter s - 1, global_status := status\<rparr>;
                (r, s) = execute_return s
            in Some (Resume_parent r, s))"
      using p q pcb_addr_nonzero [OF p(2)] c
      by (simp add: halt_def s1_def s2_def switch_user_def user_pde_def Let_def frame_simps)
    then show ?thesis using s3(1) par pc by (simp add: s5_def Let_def set_term_pcb_def split_def)
  qed
  have s5: "pid s5 = (pid s)(p := VACANT)" "process_counter s5 = process_counter s - 1" "global_halt s5 = global_halt s"
    "pcb (terminal s5 t) = (if t = ?cs then pcb_addr q else pcb (terminal s t))"
    "same_links (pcbs s5 a) (pcbs s a)" "page_directory s5 32 = user_pde q" "tlb_user s5 = user_pde q"
    "ebp s5 = halt_ebp (pcbs s (pcb_addr q))" "esp s5 = halt_esp (pcbs s (pcb_addr q))"
    "tss_esp0 s5 = EIGHT_MB - q * EIGHT_KB - 4" for t a
    using f(1) [of a] f(2-12) by (simp_all add: s5_def set_term_pcb_def s2_def s1_def frame_simps)
  have gs: "global_status s5 = status" by (simp add: s5_def)
  have "chain (pcbs s5) a qs = chain (pcbs s) a qs" for a qs
    by (rule chain_cong) (rule s5(5))
  then have "chain (pcbs s5) (pcb (terminal s5 t)) ((ch(?cs := q # ps)) t)" if "t < 3" for t
    using that proc_table_chain [OF pt that] ch p by (simp add: s5(4))
  then have "proc_table s5 (ch(?cs := q # ps))"
    using pt all_procs_pop [of ?cs ch p "q # ps"] cs st s5(1,2) by (auto simp: proc_table_def)
  then have "proc_table (snd (execute_return s5)) (ch(?cs := q # ps))"
    by (simp add: execute_return_def proc_table_def)
  then show ?thesis
    unfolding h using s5(3,6-10) gs by (auto simp: execute_return_def split: if_splits)
qed

text \<open>The state from which the first shell of a terminal is started again.\<close>

definition shell_gone :: "'a kernel_scheme \<Rightarrow> 'a kernel_scheme" where
  "shell_gone s =
     (set_term_pcb 0 (s\<lparr>pid := (pid s)(pcb_pid (cur_pcb s) := VACANT)\<rparr>))\<lparr>process_counter := process_counter s - 1\<rparr>"

lemma halt_base_eq:
  assumes "cur_pcb_addr s \<noteq> 0" and "parent_pid (cur_pcb s) = - 1"
  shows "halt lo status s = (case execute lo (Some (lit ''shell'')) (shell_gone s) of
      None \<Rightarrow> None | Some (To_user e, s) \<Rightarrow> Some (Restarted e, s) | Some (Ret _, s) \<Rightarrow> Some (Null_pcb, s))"
proof -
  have "cur_pcb (s\<lparr>pid := X\<rparr>) = cur_pcb s" for X by (simp add: cur_pcb_def cur_pcb_addr_def)
  moreover have "process_counter (set_term_pcb 0 (s\<lparr>pid := X\<rparr>)) = process_counter s" for X
    by (simp add: set_term_pcb_def)
  ultimately show ?thesis using assms by (simp add: halt_def shell_gone_def Let_def)
qed

lemma shell_gone_table:
  assumes pt: "proc_table s ch" and cs: "curr_scheduler s < 3" and st: "ch (curr_scheduler s) = [p]"
  shows "proc_table (shell_gone s) (ch(curr_scheduler s := []))" "curr_scheduler (shell_gone s) = curr_scheduler s"
    "length (all_procs (ch(curr_scheduler s := []))) < 6" "cur_pcb_addr s \<noteq> 0" "parent_pid (cur_pcb s) = - 1"
proof -
  let ?cs = "curr_scheduler s" and ?ch = "ch(curr_scheduler s := [])"
  have "chain (pcbs s) (pcb (terminal s ?cs)) [p]" using proc_table_chain [OF pt cs] unfolding st .
  then have p: "pcb (terminal s ?cs) = pcb_addr p" "p < 6" "pcb_pid (pcbs s (pcb_addr p)) = p"
    "parent_pid (pcbs s (pcb_addr p)) = - 1" by auto
  then show cp: "cur_pcb_addr s \<noteq> 0" "parent_pid (cur_pcb s) = - 1"
    using pcb_addr_nonzero by (simp_all add: cur_pcb_def cur_pcb_addr_def)
  have f: "pcbs (shell_gone s) = pcbs s" "curr_scheduler (shell_gone s) = ?cs" "pid (shell_gone s) = (pid s)(p := VACANT)"
    "process_counter (shell_gone s) = process_counter s - 1"
    "pcb (terminal (shell_gone s) t) = (if t = ?cs then 0 else pcb (terminal s t))" for t
    using p by (simp_all add: shell_gone_def cur_pcb_def cur_pcb_addr_def set_term_pcb_def)
  note pop = all_procs_pop [of ?cs ch p "[]"]
  show "proc_table (shell_gone s) ?ch" using pt cs st pop by (auto simp: proc_table_def f)
  show "curr_scheduler (shell_gone s) = ?cs" by (rule f)
  show "length (all_procs ?ch) < 6" using proc_table_length(1) [OF pt] pop(2) pt cs st by (simp add: proc_table_def)
qed

lemma halt_base:
  assumes pt: "proc_table s ch" and cs: "curr_scheduler s < 3"
    and st: "ch (curr_scheduler s) = [p]" and h: "halt lo status s = Some (r, s')"
  shows "(\<exists>e q. r = Restarted e \<and> proc_table s' (ch(curr_scheduler s := [q]))) \<or>
    (r = Null_pcb \<and> proc_table s' (ch(curr_scheduler s := [])))"
proof -
  note g = shell_gone_table [OF pt cs st]
  show ?thesis
    using h execute_stacks [of "shell_gone s" "ch(curr_scheduler s := [])" lo "Some (lit ''shell'')"] cs g
    by (auto simp: halt_base_eq split: option.splits exec_result.splits)
qed

lemma execute_returns: "cstr c bs \<Longrightarrow> \<exists>r s'. execute lo (Some c) s = Some (r, s')"
  by (auto simp: execute_def parse_eq Let_def split_def split: option.splits if_splits)

section \<open>Properties\<close>

text \<open>A kernel before any process has started, for the witnesses.\<close>

definition no_fops :: fops_t where
  "no_fops = \<lparr>fops_open = Open_null, fops_close = Close_null, fops_read = Read_null, fops_write = Write_null\<rparr>"

definition sample_kernel :: kernel where
  "sample_kernel = init_fops_table (keyboard.extend sample_kb
     (kernel.fields (\<lambda>_. VACANT) 0 0 (- 1) no_fops no_fops no_fops no_fops no_fops 0 0 0 0 0 0 0))"

definition sample_locals :: locals where
  "sample_locals = \<lparr>filename0 = \<lambda>_. 0, arg0 = \<lambda>_. 0, exe_buf = 0x7F0000, entry_point = 0x7F0010\<rparr>"

lemma sample_kernel_fields:
  "terminal sample_kernel = (\<lambda>_. \<lparr>pcb = 0, screen_x = 0, screen_y = 0\<rparr>)" "curr_scheduler sample_kernel = 0"
  "current_terminal sample_kernel = 0" "mem sample_kernel = sample_image" "boot_block_addr sample_kernel = 0"
  "pid sample_kernel = (\<lambda>_. VACANT)" "process_counter sample_kernel = - 1" "inode_addr sample_kernel = 4096"
  "data_block_addr sample_kernel = 8192"
  using sample_fs_fields sample_kb_fields(1-4)
  by (simp_all add: sample_kernel_def init_fops_table_def keyboard.extend_def kernel.fields_def sample_kb_def
      paging.extend_def keyboard.fields_def sample_paging_def paging_init_def Let_def filesys.extend_def paging.fields_def)

lemma sample_kernel_table: "proc_table sample_kernel (\<lambda>_. [])"
  by (simp add: proc_table_def sample_kernel_fields all_procs_def)

lemma sample_kernel_no_exit: "no_exit_program sample_kernel"
proof -
  have "entry_name sample_kernel i \<noteq> bytes_of ''exit''" if "i < 62" for i
  proof
    assume "entry_name sample_kernel i = bytes_of ''exit''"
    moreover have "load_bytes m a 32 = m a # load_bytes m (a + 1) 31" for m a using load_bytes_Suc [of m a 31] by simp
    ultimately have "sample_image (128 + 64 * of_nat i) = 0x65"
      by (auto simp: entry_name_def dentry_addr_def sample_kernel_fields bytes_of_def split: if_splits)
    then have "(128 + 64 * of_nat i :: u32) = 130" by (auto simp: sample_image_def split: if_splits)
    then have "(of_nat (128 + 64 * i) :: u32) = of_nat 130" by simp
    moreover have "128 + 64 * i < 2 ^ 32" "130 < (2 :: nat) ^ 32" using that by simp_all
    ultimately have "128 + 64 * i = 130" by (metis of_nat_u32_inj)
    then show False by presburger
  qed
  then show ?thesis by (simp add: no_exit_program_iff)
qed

text \<open>The same kernel with a shell, process 0, that has started process 1 on terminal 0.\<close>

definition sample_pcb :: "i32 \<Rightarrow> i32 \<Rightarrow> u32 \<Rightarrow> pcb_t" where
  "sample_pcb p parent a = \<lparr>pcb_pid = p, parent_pid = parent, halt_ebp = 0x7FDF00, halt_esp = 0x7FDE00, ebp_val = 0, esp_val = 0,
     argument = \<lambda>_. 0, file_descriptor = \<lambda>_. \<lparr>pointer = file_fops sample_kernel, inode = 0, file_position = 0, flags = 1\<rparr>,
     parent_pcb = a\<rparr>"

definition sample_two :: kernel where
  "sample_two = sample_kernel\<lparr>terminal := (terminal sample_kernel)(0 := \<lparr>pcb = pcb_addr 1, screen_x = 0, screen_y = 0\<rparr>),
     pcbs := (pcbs sample_kernel)(pcb_addr 0 := sample_pcb 0 (- 1) 0, pcb_addr 1 := sample_pcb 1 0 (pcb_addr 0)),
     pid := (\<lambda>_. VACANT)(0 := OCCUPIED, 1 := OCCUPIED), process_counter := 1\<rparr>"

lemma sample_two_table: "proc_table sample_two ((\<lambda>_. [])(0 := [1, 0]))"
proof -
  have "pcb_addr 0 \<noteq> pcb_addr 1" by (simp add: pcb_addr_inj)
  then show ?thesis
    by (auto simp: proc_table_def sample_two_def sample_kernel_fields all_procs_def sample_pcb_def u8_less_3)
qed

lemma sample_two_closable: "closable sample_two"
proof -
  have "fops_close (file_fops sample_kernel) = File_close" by (simp add: sample_kernel_def init_fops_table_def)
  then show ?thesis
    by (simp add: closable_def fd_entry_def cur_pcb_def cur_pcb_addr_def sample_two_def sample_kernel_fields sample_pcb_def)
qed

text \<open>C2. \<open>execute\<close> is a push on the stack of the scheduled terminal. For every command string it returns: either -1,
  and the processes are as they were, or the processor enters the new program, whose
  identifier was free and is now on top of the stack, with its control block linked to the
  block of the program that called it. The limit of six processes is never exceeded, provided
  an identifier is free, or the caller is itself a program and no file is called \<open>exit\<close>, the
  one name the limit lets pass.\<close>

theorem execute_pushes:
  assumes "proc_table s ch" and "curr_scheduler s < 3"
    and "length (all_procs ch) < 6 \<or> ch (curr_scheduler s) \<noteq> [] \<and> no_exit_program s" and "cstr c bs"
  shows "\<exists>r s'. execute lo (Some c) s = Some (r, s') \<and>
    (r = Ret FAILURE \<and> proc_table s' ch \<or>
     (\<exists>e p. r = To_user e \<and> p < 6 \<and> p \<notin> set (all_procs ch) \<and>
        proc_table s' (ch(curr_scheduler s := p # ch (curr_scheduler s)))))"
proof -
  obtain r s' where "execute lo (Some c) s = Some (r, s')" using execute_returns [OF assms(4)] by blast
  then show ?thesis using execute_stacks [OF assms(1-3), of lo "Some c" r s'] by blast
qed

theorem execute_pushes_witness:
  "\<exists>r s'. execute sample_locals (Some (lit ''shell'')) sample_kernel = Some (r, s') \<and>
     (r = Ret FAILURE \<and> proc_table s' (\<lambda>_. []) \<or> (\<exists>e p. r = To_user e \<and> proc_table s' ((\<lambda>_. [])(0 := [p]))))"
proof -
  have "cstr (lit ''shell'') (bytes_of ''shell'')" by (rule cstr_lit) (simp add: bytes_of_def)
  from execute_pushes [OF sample_kernel_table _ _ this, of sample_locals]
  show ?thesis by (simp add: sample_kernel_fields all_procs_def) blast
qed

text \<open>C3. \<open>halt\<close> of a program another program started is a pop: the identifier becomes free, the caller's
  frame is mapped again, its kernel stack and its saved registers are restored, and the
  caller's \<open>execute\<close> returns 256 after an exception and 0 otherwise, whatever status the
  program halted with.\<close>

theorem halt_pops_stack:
  assumes "proc_table s ch" and "curr_scheduler s < 3" and "closable s"
    and "ch (curr_scheduler s) = p # q # ps"
  shows "\<exists>s'. halt lo status s = Some (Resume_parent (if global_halt s = 1 then 256 else 0), s') \<and>
    proc_table s' (ch(curr_scheduler s := q # ps)) \<and> page_directory s' 32 = user_pde q \<and>
    tss_esp0 s' = EIGHT_MB - q * EIGHT_KB - 4 \<and>
    ebp s' = halt_ebp (pcbs s (pcb_addr q)) \<and> esp s' = halt_esp (pcbs s (pcb_addr q))"
  using halt_pops [OF assms] by blast

theorem halt_pops_stack_witness:
  "\<exists>s'. halt sample_locals 0 sample_two = Some (Resume_parent 0, s') \<and> proc_table s' ((\<lambda>_. [])(0 := [0])) \<and>
     page_directory s' 32 = user_pde 0 \<and> esp s' = 0x7FDE00"
proof -
  have h: "halt_esp (pcbs sample_two (pcb_addr 0)) = 0x7FDE00" "global_halt sample_two = 0" "curr_scheduler sample_two = 0"
    by (simp_all add: sample_two_def sample_pcb_def pcb_addr_inj sample_kernel_fields)
      (simp add: sample_kernel_def init_fops_table_def keyboard.extend_def kernel.fields_def)
  have "\<exists>s'. halt sample_locals 0 sample_two = Some (Resume_parent (if global_halt sample_two = 1 then 256 else 0), s') \<and>
      proc_table s' (((\<lambda>_. [])(0 := [1, 0]))(curr_scheduler sample_two := [0])) \<and> page_directory s' 32 = user_pde 0 \<and>
      tss_esp0 s' = EIGHT_MB - 0 * EIGHT_KB - 4 \<and>
      ebp s' = halt_ebp (pcbs sample_two (pcb_addr 0)) \<and> esp s' = halt_esp (pcbs sample_two (pcb_addr 0))"
    by (rule halt_pops_stack [OF sample_two_table _ sample_two_closable, where p = 1]) (simp_all add: h)
  then show ?thesis by (simp add: h) blast
qed

text \<open>A kernel with a first shell, process 0, on terminal 0.\<close>

definition sample_one :: kernel where
  "sample_one = sample_kernel\<lparr>terminal := (terminal sample_kernel)(0 := \<lparr>pcb = pcb_addr 0, screen_x = 0, screen_y = 0\<rparr>),
     pcbs := (pcbs sample_kernel)(pcb_addr 0 := sample_pcb 0 (- 1) 0), pid := (\<lambda>_. VACANT)(0 := OCCUPIED), process_counter := 0\<rparr>"

lemma sample_one_facts:
  "proc_table sample_one ((\<lambda>_. [])(0 := [0]))" "no_exit_program sample_one" "curr_scheduler sample_one = 0"
proof -
  show "proc_table sample_one ((\<lambda>_. [])(0 := [0]))"
    by (auto simp: proc_table_def sample_one_def sample_kernel_fields all_procs_def sample_pcb_def u8_less_3)
  show "no_exit_program sample_one"
    using sample_kernel_no_exit by (simp add: no_exit_program_iff entry_name_def dentry_addr_def sample_one_def)
qed (simp add: sample_one_def sample_kernel_fields)

end
