(* ===== verification/Keyboard_Spec.thy ===== *)
theory Keyboard_Spec
  imports Keyboard
begin

text \<open>
  The keyboard as a line editor. The modifiers are four booleans and the caps-lock key's own
  state; a key code means an edit of the line, a command, or nothing; a line is a list of at
  most 127 characters. \<open>keyboard_handler\<close> implements one step of this editor on the visible
  terminal, whatever the other terminals hold.
\<close>

section \<open>The specification\<close>

record mods =
  shifted :: bool
  caps :: bool
  caps_down :: bool
  ctrl :: bool
  alt :: bool

text \<open>Caps lock toggles when its key goes down; a repeated press code of a held key is ignored.\<close>

definition mods_step :: "u8 \<Rightarrow> mods \<Rightarrow> mods" where
  "mods_step k m =
     m\<lparr>shifted := (if k \<in> {0x2A, 0x36} then True else if k \<in> {0xAA, 0xB6} then False else shifted m),
       caps := (if k = 0x3A \<and> \<not> caps_down m then \<not> caps m else caps m),
       caps_down := (if k = 0x3A then True else if k = 0xBA then False else caps_down m),
       ctrl := (if k = 0x1D then True else if k = 0x9D then False else ctrl m),
       alt := (if k = 0x38 then True else if k = 0xB8 then False else alt m)\<rparr>"

datatype edit = Insert u8 | Rubout | Tabulate | Enter

datatype meaning = Nothing | Edit edit | Clear | Switch u8 | Interrupt

definition key_char :: "u8 \<Rightarrow> mods \<Rightarrow> u8" where
  "key_char k m =
     (if shifted m \<and> \<not> caps m then keymapShift else if caps m \<and> \<not> shifted m then keymapCapslock else keymap) ! unat k"

definition meaning_of :: "u8 \<Rightarrow> mods \<Rightarrow> meaning" where
  "meaning_of k m =
     (if k = BACKSPACE_PRESSED then Edit Rubout
      else if k = TAB_PRESSED then Edit Tabulate
      else if ctrl m \<and> k = L_KEY then Clear
      else if alt m \<and> k \<in> {F1_KEY, F2_KEY, F3_KEY} then Switch (k - F1_KEY)
      else if ctrl m \<and> k = C_KEY then Interrupt
      else if key_char k m = 0 then Nothing
      else if key_char k m = NEWLINE then Edit Enter
      else Edit (Insert (key_char k m)))"

fun edit_line :: "edit \<Rightarrow> u8 list \<Rightarrow> u8 list" where
  "edit_line (Insert c) l = (if length l < 127 then l @ [c] else l)"
| "edit_line Rubout l = butlast l"
| "edit_line Tabulate l = take 127 (l @ replicate 4 ASCII_SPACE)"
| "edit_line Enter l = []"

section \<open>The abstraction\<close>

definition mods_of :: "'a keyboard_scheme \<Rightarrow> mods" where
  "mods_of s = \<lparr>shifted = (shift s = ON), caps = (capslock s = ON), caps_down = (capsChecker s \<in> {1, 3}),
     ctrl = (control s = ON), alt = (left_alt s = ON)\<rparr>"

definition typed :: "'a keyboard_scheme \<Rightarrow> u8 \<Rightarrow> u8 list" where
  "typed s t = map (keyBuf s t) [0..<unat (keybufferCount s t)]"

text \<open>The modifiers are flags, the caps-lock automaton agrees with the flag, no line exceeds the buffer or holds a newline.\<close>

definition mods_inv :: "'a keyboard_scheme \<Rightarrow> bool" where
  "mods_inv s \<longleftrightarrow> shift s \<le> 1 \<and> control s \<le> 1 \<and> left_alt s \<le> 1 \<and> capsChecker s \<le> 3 \<and>
     capslock s = (if capsChecker s = 1 \<or> capsChecker s = 2 then ON else OFF)"

definition lines_inv :: "'a keyboard_scheme \<Rightarrow> bool" where
  "lines_inv s \<longleftrightarrow> (\<forall>t. keybufferCount s t \<le> 127 \<and> NEWLINE \<notin> set (typed s t))"

lemma length_typed [simp]: "length (typed s t) = unat (keybufferCount s t)"
  by (simp add: typed_def)

lemma lines_inv_length: "lines_inv s \<Longrightarrow> length (typed s t) \<le> 127"
  by (simp add: lines_inv_def word_le_nat_alt)

section \<open>Modifiers\<close>

lemma u8_le_3: "(x :: u8) \<le> 3 \<longleftrightarrow> x = 0 \<or> x = 1 \<or> x = 2 \<or> x = 3"
proof
  assume "x \<le> 3"
  then have "unat x \<le> 3" by (simp add: word_le_nat_alt)
  then have "unat x = unat (0 :: u8) \<or> unat x = unat (1 :: u8) \<or> unat x = unat (2 :: u8) \<or> unat x = unat (3 :: u8)"
    by (simp, arith)
  then show "x = 0 \<or> x = 1 \<or> x = 2 \<or> x = 3" unfolding word_unat_eq_iff .
qed auto

lemma u8_le_1: "(x :: u8) \<le> 1 \<longleftrightarrow> x = 0 \<or> x = 1"
proof
  assume "x \<le> 1"
  then have "unat x = unat (0 :: u8) \<or> unat x = unat (1 :: u8)" by (simp add: word_le_nat_alt, arith)
  then show "x = 0 \<or> x = 1" unfolding word_unat_eq_iff .
qed auto

definition modifier_keys :: "u8 \<Rightarrow> 'a keyboard_scheme \<Rightarrow> 'a keyboard_scheme" where
  "modifier_keys k s = left_alt_key k (control_key k (capslock_key k (shift_key k s)))"

lemma shift_key_eq:
  "shift_key k s = s\<lparr>shift := (if k = 0xAA \<or> k = 0xB6 then 0 else if k = 0x2A \<or> k = 0x36 then 1 else shift s)\<rparr>"
  by (simp add: shift_key_def)

lemma capslock_key_eq:
  "capslock_key k s =
     s\<lparr>capslock := (if k = 0x3A \<and> capsChecker s = 0 then 1 else if k = 0x3A \<and> capsChecker s = 2 then 0 else capslock s),
       capsChecker := (if k = 0x3A \<and> capsChecker s = 0 then 1 else if k = 0xBA \<and> capsChecker s = 1 then 2
         else if k = 0x3A \<and> capsChecker s = 2 then 3 else if k = 0xBA \<and> capsChecker s = 3 then 0 else capsChecker s)\<rparr>"
  by (simp add: capslock_key_def)

lemma control_key_eq: "control_key k s = s\<lparr>control := (if k = 0x1D then 1 else if k = 0x9D then 0 else control s)\<rparr>"
  by (simp add: control_key_def)

lemma left_alt_key_eq: "left_alt_key k s = s\<lparr>left_alt := (if k = 0xB8 then 0 else if k = 0x38 then 1 else left_alt s)\<rparr>"
  by (simp add: left_alt_key_def)

lemma modifier_keys_eq:
  "modifier_keys k s =
     s\<lparr>shift := (if k = 0xAA \<or> k = 0xB6 then 0 else if k = 0x2A \<or> k = 0x36 then 1 else shift s),
       capslock := (if k = 0x3A \<and> capsChecker s = 0 then 1 else if k = 0x3A \<and> capsChecker s = 2 then 0 else capslock s),
       capsChecker := (if k = 0x3A \<and> capsChecker s = 0 then 1 else if k = 0xBA \<and> capsChecker s = 1 then 2
         else if k = 0x3A \<and> capsChecker s = 2 then 3 else if k = 0xBA \<and> capsChecker s = 3 then 0 else capsChecker s),
       control := (if k = 0x1D then 1 else if k = 0x9D then 0 else control s),
       left_alt := (if k = 0xB8 then 0 else if k = 0x38 then 1 else left_alt s)\<rparr>"
  unfolding modifier_keys_def shift_key_eq capslock_key_eq control_key_eq left_alt_key_eq
  by (simp cong: if_cong split del: if_split)

lemma modifier_keys_inv: "mods_inv s \<Longrightarrow> mods_inv (modifier_keys k s)"
  unfolding mods_inv_def modifier_keys_eq u8_le_3 by auto

lemma modifier_keys_refine: "mods_inv s \<Longrightarrow> mods_of (modifier_keys k s) = mods_step k (mods_of s)"
  unfolding mods_inv_def modifier_keys_eq u8_le_3 mods_of_def mods_step_def by auto

lemma map_key_char: "mods_inv s \<Longrightarrow> map_key k s = key_char k (mods_of s)"
  unfolding mods_inv_def u8_le_1 map_key_def key_char_def mods_of_def by (auto split: if_splits)

section \<open>What the handler's parts leave alone\<close>

lemma console_step_keyboard:
  assumes "console_step s (s' :: 'a keyboard_scheme)"
  shows "keyBuf s' = keyBuf s" "keybufferCount s' = keybufferCount s" "readFlag s' = readFlag s"
    "shift s' = shift s" "capslock s' = capslock s" "capsChecker s' = capsChecker s" "control s' = control s"
    "left_alt s' = left_alt s" "current_terminal s' = current_terminal s" "curr_scheduler s' = curr_scheduler s"
proof -
  have eq: "s' = s\<lparr>mem := mem s', io_log := io_log s', terminal := terminal s'\<rparr>"
    using assms by (simp add: console_step_def)
  show "keyBuf s' = keyBuf s" "keybufferCount s' = keybufferCount s" "readFlag s' = readFlag s"
    "shift s' = shift s" "capslock s' = capslock s" "capsChecker s' = capsChecker s" "control s' = control s"
    "left_alt s' = left_alt s" "current_terminal s' = current_terminal s" "curr_scheduler s' = curr_scheduler s"
    by (subst eq, simp)+
qed

lemmas putc_keyboard [simp] = console_step_keyboard [OF putc_step]

lemma delete_step: "console_step s (delete s)"
proof -
  let ?t = "(terminal s (current_terminal s))\<lparr>screen_x := screen_x (terminal s (current_terminal s)) - 1\<rparr>"
  let ?s = "s\<lparr>terminal := (terminal s)(current_terminal s := ?t),
    mem := draw VIDEO (80 * screen_y ?t + screen_x ?t) 0 (mem s)\<rparr>"
  have "console_step s ?s" by (simp add: console_step_def)
  from console_step_trans [OF this console_step_hw_cursor] show ?thesis by (simp add: delete_def Let_def)
qed

lemma clear_screen_step: "console_step s (clear_screen s)"
proof -
  let ?s = "(clear s)\<lparr>terminal := (terminal s)(current_terminal s := (terminal s (current_terminal s))\<lparr>screen_x := 0, screen_y := 0\<rparr>)\<rparr>"
  have "console_step s ?s" by (simp add: console_step_def clear_def)
  from console_step_trans [OF this console_step_hw_cursor] show ?thesis
    by (simp add: clear_screen_def clear_set_def Let_def frame_simps)
qed

lemmas delete_keyboard [simp] = console_step_keyboard [OF delete_step]
lemmas clear_screen_keyboard [simp] = console_step_keyboard [OF clear_screen_step]

lemma put_key_fields [simp]:
  "keybufferCount (put_key c s) = keybufferCount s" "readFlag (put_key c s) = readFlag s"
  "current_terminal (put_key c s) = current_terminal s" "curr_scheduler (put_key c s) = curr_scheduler s"
  "mods_of (put_key c s) = mods_of s" "mods_inv (put_key c s) = mods_inv s"
  "keyBuf (put_key c s) t = (if t = current_terminal s
     then (keyBuf s t)(unat (keybufferCount s t) := c) else keyBuf s t)"
  by (simp_all add: put_key_def mods_of_def mods_inv_def Let_def)

lemma set_count_fields [simp]:
  "keybufferCount (set_count n s) t = (if t = current_terminal s then n else keybufferCount s t)"
  "readFlag (set_count n s) = readFlag s" "keyBuf (set_count n s) = keyBuf s"
  "current_terminal (set_count n s) = current_terminal s" "curr_scheduler (set_count n s) = curr_scheduler s"
  "mods_of (set_count n s) = mods_of s" "mods_inv (set_count n s) = mods_inv s"
  by (simp_all add: set_count_def mods_of_def mods_inv_def)

lemma mods_console_step:
  "console_step s (s' :: 'a keyboard_scheme) \<Longrightarrow> mods_of s' = mods_of s \<and> mods_inv s' = mods_inv s"
  using console_step_keyboard [of s s'] by (simp add: mods_of_def mods_inv_def)

lemmas putc_mods [simp] = mods_console_step [OF putc_step, THEN conjunct1] mods_console_step [OF putc_step, THEN conjunct2]
lemmas delete_mods [simp] = mods_console_step [OF delete_step, THEN conjunct1] mods_console_step [OF delete_step, THEN conjunct2]

lemma typed_cong: "keyBuf s' t = keyBuf s t \<Longrightarrow> keybufferCount s' t = keybufferCount s t \<Longrightarrow> typed s' t = typed s t"
  by (simp add: typed_def)

section \<open>Editing the line\<close>

text \<open>\<open>edited s s' l\<close>: the line of the visible terminal became \<open>l\<close>, and no other line or flag changed.\<close>

definition edited :: "'a keyboard_scheme \<Rightarrow> 'a keyboard_scheme \<Rightarrow> u8 list \<Rightarrow> bool" where
  "edited s s' l \<longleftrightarrow> typed s' (current_terminal s) = l \<and> (\<forall>t. t \<noteq> current_terminal s \<longrightarrow> typed s' t = typed s t) \<and>
     current_terminal s' = current_terminal s \<and> curr_scheduler s' = curr_scheduler s \<and>
     mods_of s' = mods_of s \<and> mods_inv s' = mods_inv s \<and> readFlag s' = readFlag s"

lemma edited_trans: "edited s s1 l1 \<Longrightarrow> edited s1 s2 l2 \<Longrightarrow> edited s s2 l2"
  by (auto simp: edited_def)

lemma count_Suc: "(n :: u8) < 127 \<Longrightarrow> unat (n + 1) = Suc (unat n)"
  by (simp add: word_less_nat_alt unat_word_ariths)

lemma edited_insert:
  assumes "keybufferCount s (current_terminal s) < 127"
  shows "edited s (putc c' (set_count (keybufferCount s (current_terminal s) + 1) (put_key c s))) (typed s (current_terminal s) @ [c])"
  using count_Suc [OF assms] by (auto simp: edited_def typed_def)

lemma edited_tab_step:
  assumes "keybufferCount s (current_terminal s) \<le> 127"
  shows "edited s (tab_step s) (take 127 (typed s (current_terminal s) @ [ASCII_SPACE]))"
proof (cases "keybufferCount s (current_terminal s) < 127")
  case True
  then have "take 127 (typed s (current_terminal s) @ [ASCII_SPACE]) = typed s (current_terminal s) @ [ASCII_SPACE]"
    by (simp add: word_less_nat_alt)
  with True edited_insert [OF True, of ASCII_SPACE ASCII_SPACE] show ?thesis by (simp add: tab_step_def Let_def)
next
  case False
  then have "keybufferCount s (current_terminal s) = 127" using assms by simp
  then have "take 127 (typed s (current_terminal s) @ [ASCII_SPACE]) = typed s (current_terminal s)" by simp
  with False show ?thesis by (simp add: tab_step_def edited_def)
qed

lemma edited_tab:
  assumes "keybufferCount s (current_terminal s) \<le> 127"
  shows "edited s (tab s) (take 127 (typed s (current_terminal s) @ replicate 4 ASCII_SPACE))"
proof -
  have step: "edited s (fold (\<lambda>_. tab_step) [0..<n] s) (take 127 (typed s (current_terminal s) @ replicate n ASCII_SPACE))" for n
  proof (induction n)
    case 0
    show ?case using assms by (simp add: edited_def word_le_nat_alt)
  next
    case (Suc n)
    let ?s = "fold (\<lambda>_. tab_step) [0..<n] s" and ?l = "typed s (current_terminal s)"
    have ct: "current_terminal ?s = current_terminal s" and
      l: "typed ?s (current_terminal s) = take 127 (?l @ replicate n ASCII_SPACE)"
      using Suc by (simp_all add: edited_def)
    have "unat (keybufferCount ?s (current_terminal s)) = length (typed ?s (current_terminal s))" by simp
    also have "\<dots> \<le> 127" unfolding l by simp
    finally have "keybufferCount ?s (current_terminal ?s) \<le> 127" unfolding ct by (simp add: word_le_nat_alt)
    from edited_trans [OF Suc edited_tab_step [OF this]]
    have "edited s (tab_step ?s) (take 127 (take 127 (?l @ replicate n ASCII_SPACE) @ [ASCII_SPACE]))" unfolding ct l .
    moreover have "take 127 (take 127 xs @ ys) = take 127 (xs @ ys)" for xs ys :: "u8 list" by (simp add: min_def)
    ultimately show ?case by (simp add: replicate_append_same [symmetric] del: take_append)
  qed
  from this [of 4] show ?thesis by (simp only: tab_def)
qed

lemma edited_backspace: "edited s (backspace s) (butlast (typed s (current_terminal s)))"
proof (cases "keybufferCount s (current_terminal s) > 0")
  case True
  let ?n = "keybufferCount s (current_terminal s)"
  have "unat (?n - 1) = unat ?n - 1" using True by (simp add: unat_sub word_le_nat_alt word_less_nat_alt)
  moreover have "[0..<unat ?n] = [0..<unat ?n - 1] @ [unat ?n - 1]"
    using True upt_Suc_append [of 0 "unat ?n - 1"] by (simp add: word_less_nat_alt)
  ultimately show ?thesis using True by (simp add: backspace_def edited_def typed_def butlast_append Let_def)
next
  case False
  then have "typed s (current_terminal s) = []" by (simp add: typed_def word_less_nat_alt)
  with False show ?thesis by (simp add: backspace_def edited_def)
qed

lemma edited_type_key:
  assumes "c \<noteq> 0" "c \<noteq> NEWLINE"
  shows "edited s (type_key c s) (edit_line (Insert c) (typed s (current_terminal s)))"
proof (cases "keybufferCount s (current_terminal s) < 127")
  case True
  then show ?thesis using edited_insert [OF True, of c c] assms by (simp add: type_key_def Let_def word_less_nat_alt)
next
  case False
  then show ?thesis using assms by (simp add: type_key_def edited_def word_less_nat_alt)
qed

text \<open>Enter: the line and its newline are in the buffer, the reader is released, a new line begins.\<close>

definition entered :: "'a keyboard_scheme \<Rightarrow> 'a keyboard_scheme \<Rightarrow> bool" where
  "entered s s' \<longleftrightarrow> (let ct = current_terminal s in
     map (keyBuf s' ct) [0..<Suc (length (typed s ct))] = typed s ct @ [NEWLINE] \<and>
     typed s' ct = [] \<and> (\<forall>t. t \<noteq> ct \<longrightarrow> typed s' t = typed s t) \<and>
     readFlag s' = (readFlag s)(ct := UNLOCK) \<and>
     current_terminal s' = ct \<and> curr_scheduler s' = curr_scheduler s \<and>
     mods_of s' = mods_of s \<and> mods_inv s' = mods_inv s)"

lemma entered_newline: "entered s (type_key NEWLINE s)"
proof -
  have "mods_of (s\<lparr>readFlag := f\<rparr>) = mods_of s" "mods_inv (s\<lparr>readFlag := f\<rparr>) = mods_inv s" for f and s :: "'a keyboard_scheme"
    by (simp_all add: mods_of_def mods_inv_def)
  then show ?thesis by (simp add: entered_def type_key_def typed_def Let_def)
qed

section \<open>The handler implements the editor\<close>

text \<open>The part of the handler after the acknowledgement, for a scan code read from the controller.\<close>

definition key_event :: "locals \<Rightarrow> u8 \<Rightarrow> 'a kernel_scheme \<Rightarrow> (irq_result \<times> 'a kernel_scheme) option" where
  "key_event lo k s = key_action lo k (modifier_keys k s)"

definition scan_code :: "'a machine_scheme \<Rightarrow> u8" where
  "scan_code s = io_dev s (io_log s) KEYBOARD_CONTROLLER_PORT"

definition acknowledged :: "'a kernel_scheme \<Rightarrow> 'a kernel_scheme" where
  "acknowledged s = snd (inb KEYBOARD_CONTROLLER_PORT (send_eoi KEYBOARD_CONTROLLER_IRQ s))"

lemma keyboard_handler_event:
  "keyboard_handler lo s = key_event lo (scan_code (send_eoi KEYBOARD_CONTROLLER_IRQ s)) (acknowledged s)"
  by (simp add: keyboard_handler_def key_event_def modifier_keys_def acknowledged_def scan_code_def Let_def inb_def ucast_u8_u32)

lemma acknowledged_step: "console_step s (acknowledged s)"
  by (simp add: acknowledged_def console_step_def inb_def send_eoi_def outb_def Let_def)

lemma modifier_keys_fields [simp]:
  "keyBuf (modifier_keys k s) = keyBuf s" "keybufferCount (modifier_keys k s) = keybufferCount s"
  "readFlag (modifier_keys k s) = readFlag s" "current_terminal (modifier_keys k s) = current_terminal s"
  "curr_scheduler (modifier_keys k s) = curr_scheduler s" "typed (modifier_keys k s) = typed s"
  by (simp_all add: modifier_keys_eq typed_def fun_eq_iff)

lemma key_action_edit:
  assumes "mods_inv s" and "lines_inv s" and "meaning_of k (mods_of s) = Edit e"
  shows "\<exists>s'. key_action lo k s = Some (Done SUCCESS, s') \<and>
    (if e = Enter then entered s s' else edited s s' (edit_line e (typed s (current_terminal s))))"
proof -
  have ct: "keybufferCount s (current_terminal s) \<le> 127" using assms(2) by (simp add: lines_inv_def)
  have m: "control s = ON \<longleftrightarrow> ctrl (mods_of s)" "left_alt s = ON \<longleftrightarrow> alt (mods_of s)" by (simp_all add: mods_of_def)
  have c: "map_key k s = key_char k (mods_of s)" using assms(1) by (rule map_key_char)
  consider "k = BACKSPACE_PRESSED" "e = Rubout" | "k = TAB_PRESSED" "e = Tabulate"
    | "key_char k (mods_of s) = NEWLINE" "e = Enter" "key_action lo k s = Some (Done SUCCESS, type_key (key_char k (mods_of s)) s)"
    | "key_char k (mods_of s) \<noteq> NEWLINE" "key_char k (mods_of s) \<noteq> 0" "e = Insert (key_char k (mods_of s))"
      "key_action lo k s = Some (Done SUCCESS, type_key (key_char k (mods_of s)) s)"
    using assms(3) by (auto simp: meaning_of_def key_action_def m c split: if_splits)
  then show ?thesis
  proof cases
    case 1
    then show ?thesis using edited_backspace [of s] by (simp add: key_action_def)
  next
    case 2
    then show ?thesis using edited_tab [OF ct] by (simp add: key_action_def)
  next
    case 3
    then show ?thesis using entered_newline [of s] by simp
  next
    case 4
    then show ?thesis using edited_type_key [of "key_char k (mods_of s)" s] by simp
  qed
qed

lemma key_action_nothing:
  "mods_inv s \<Longrightarrow> meaning_of k (mods_of s) = Nothing \<Longrightarrow> key_action lo k s = Some (Done SUCCESS, s)"
  using map_key_char [of s k]
  by (auto simp: meaning_of_def key_action_def mods_of_def type_key_def split: if_splits)

section \<open>What the rest of the kernel leaves of the keyboard\<close>

definition same_kb :: "'a keyboard_scheme \<Rightarrow> 'a keyboard_scheme \<Rightarrow> bool" where
  "same_kb s s' \<longleftrightarrow> keyBuf s' = keyBuf s \<and> keybufferCount s' = keybufferCount s \<and> readFlag s' = readFlag s \<and>
     shift s' = shift s \<and> capslock s' = capslock s \<and> capsChecker s' = capsChecker s \<and> control s' = control s \<and>
     left_alt s' = left_alt s \<and> current_terminal s' = current_terminal s \<and> curr_scheduler s' = curr_scheduler s"

lemma same_kb_trans: "same_kb s t \<Longrightarrow> same_kb t u \<Longrightarrow> same_kb s u"
  by (simp add: same_kb_def)

lemma same_kb_inv: "same_kb s s' \<Longrightarrow> mods_inv s' = mods_inv s \<and> lines_inv s' = lines_inv s \<and> typed s' = typed s \<and> mods_of s' = mods_of s"
  by (simp add: same_kb_def mods_inv_def lines_inv_def typed_def mods_of_def fun_eq_iff)

lemma same_kb_console: "console_step s s' \<Longrightarrow> same_kb s s'"
  by (simp add: same_kb_def console_step_keyboard)

lemma same_kb_fd_step: "fd_step s s' \<Longrightarrow> same_kb s s'"
  by (auto simp: same_kb_def fd_step_def set_cur_pcb_def)

lemma same_kb_launch: "same_kb s (snd (launch lo arg d s))"
proof -
  let ?a = "init_pcb (pcb_addr (find_pid s)) arg (find_pid s) (switch_user (find_pid s) (s\<lparr>process_counter := process_counter s + 1\<rparr>))"
  have "console_step ?a (loaded lo arg d s)"
    unfolding loaded_eq Let_def by (rule console_step_trans [OF read_data_console_step read_data_console_step])
  then have "same_kb ?a (loaded lo arg d s)" by (rule same_kb_console)
  moreover have "same_kb s ?a"
    by (simp add: same_kb_def init_pcb_def switch_user_def flush_tlb_def Let_def)
  ultimately have "same_kb s (loaded lo arg d s)" by (rule same_kb_trans [rotated])
  then show ?thesis by (simp add: launch_eq enter_program_def context_switch_def same_kb_def Let_def)
qed

lemma same_kb_execute:
  assumes "execute lo cmd s = Some (r, s')"
  shows "same_kb s s'"
proof -
  have cli: "same_kb s (cli s)" by (simp add: same_kb_def cli_def)
  from assms show ?thesis
  proof (cases rule: execute_cases)
    case failed
    then show ?thesis using cli same_kb_console same_kb_trans by blast
  next
    case (launched filename arg d s1)
    then have "same_kb s s1" using cli same_kb_console same_kb_trans by blast
    then show ?thesis using launched(1) same_kb_launch [of s1 lo arg d] same_kb_trans by (metis snd_conv)
  qed
qed

lemma sys_close_fd_step: "sys_close fd s = Some (r, s') \<Longrightarrow> fd_step s s'"
  by (auto simp: sys_close_def close_op_def terminal_close_def rtc_close_def dir_close_def file_close_def Let_def
      fd_step_refl set_fd_step split: if_splits close_fn.splits)

lemma close_all_fd_step: "close_all js s = Some s' \<Longrightarrow> fd_step s s'"
  by (induction js arbitrary: s)
    (auto simp: close_if_open_def fd_step_refl split: option.splits if_splits
      intro: fd_step_trans sys_close_fd_step)

lemma same_kb_halt:
  assumes h: "halt lo status s = Some (r, s')"
  shows "same_kb s s'"
proof -
  let ?p = "cur_pcb s"
  consider "cur_pcb_addr s = 0" | "cur_pcb_addr s \<noteq> 0" "parent_pid ?p = - 1" | "cur_pcb_addr s \<noteq> 0" "parent_pid ?p \<noteq> - 1"
    by blast
  then show ?thesis
  proof cases
    case 1
    then show ?thesis using h by (simp add: halt_def same_kb_def)
  next
    case 2
    have "same_kb s (shell_gone s)" by (simp add: same_kb_def shell_gone_def set_term_pcb_def)
    moreover obtain r1 where "execute lo (Some (lit ''shell'')) (shell_gone s) = Some (r1, s')"
      using h unfolding halt_base_eq [OF 2] by (auto split: option.splits exec_result.splits)
    ultimately show ?thesis using same_kb_execute same_kb_trans by blast
  next
    case 3
    define s2 where "s2 = (switch_user (parent_pid ?p) (s\<lparr>pid := (pid s)(pcb_pid ?p := VACANT)\<rparr>))
      \<lparr>tss_esp0 := EIGHT_MB - parent_pid ?p * EIGHT_KB - 4,
       ebp := halt_ebp (pcbs s (parent_pcb ?p)), esp := halt_esp (pcbs s (parent_pcb ?p))\<rparr>"
    have "cur_pcb (s\<lparr>pid := X\<rparr>) = ?p" for X by (simp add: cur_pcb_def cur_pcb_addr_def)
    then have "halt lo status s = (case close_all [0..<8] s2 of None \<Rightarrow> None
        | Some s \<Rightarrow>
            let s = set_term_pcb (parent_pcb (cur_pcb s)) s;
                s = s\<lparr>process_counter := process_counter s - 1, global_status := status\<rparr>;
                (r, s) = execute_return s
            in Some (Resume_parent r, s))"
      using 3 by (simp add: halt_def s2_def switch_user_def user_pde_def Let_def frame_simps)
    with h obtain s3 where s3: "close_all [0..<8] s2 = Some s3"
      "s' = snd (execute_return ((set_term_pcb (parent_pcb (cur_pcb s3)) s3)\<lparr>process_counter :=
        process_counter (set_term_pcb (parent_pcb (cur_pcb s3)) s3) - 1, global_status := status\<rparr>))"
      by (auto simp: Let_def split_def split: option.splits)
    have "same_kb s s2" by (simp add: same_kb_def s2_def switch_user_def flush_tlb_def Let_def)
    moreover have "same_kb s2 s3" using close_all_fd_step [OF s3(1)] by (rule same_kb_fd_step)
    moreover have "same_kb s3 s'" unfolding s3(2) by (simp add: same_kb_def execute_return_def set_term_pcb_def)
    ultimately show ?thesis using same_kb_trans by blast
  qed
qed

section \<open>Lines and the other actions\<close>

lemma key_char_code: "keymap ! 28 = NEWLINE" "keymapShift ! 28 = NEWLINE" "keymapCapslock ! 28 = NEWLINE"
  by (simp_all add: keymap_def keymapShift_def keymapCapslock_def bytes_of_def)

lemma enter_meaning: "meaning_of 0x1C m = Edit Enter"
  by (simp add: meaning_of_def key_char_def key_char_code)

lemma edit_line_length: "length l \<le> 127 \<Longrightarrow> length (edit_line e l) \<le> 127"
  by (cases e) auto

lemma edit_line_newline:
  "NEWLINE \<notin> set l \<Longrightarrow> e \<noteq> Insert NEWLINE \<Longrightarrow> NEWLINE \<notin> set (edit_line e l)"
  by (cases e) (auto dest: in_set_butlastD in_set_takeD)

lemma meaning_insert: "meaning_of k m = Edit e \<Longrightarrow> e \<noteq> Insert NEWLINE"
  by (auto simp: meaning_of_def split: if_splits)

lemma lines_inv_typed: "lines_inv s \<longleftrightarrow> (\<forall>t. length (typed s t) \<le> 127 \<and> NEWLINE \<notin> set (typed s t))"
  by (simp add: lines_inv_def word_le_nat_alt)

lemma edited_lines_inv:
  assumes "lines_inv s" "edited s s' (edit_line e (typed s (current_terminal s)))" "e \<noteq> Insert NEWLINE"
  shows "lines_inv s'"
  unfolding lines_inv_typed
proof
  fix t
  show "length (typed s' t) \<le> 127 \<and> NEWLINE \<notin> set (typed s' t)"
    using assms edit_line_length edit_line_newline by (cases "t = current_terminal s") (auto simp: edited_def lines_inv_typed simp del: length_typed)
qed

lemma entered_lines_inv: "lines_inv s \<Longrightarrow> entered s s' \<Longrightarrow> lines_inv s'"
  unfolding lines_inv_typed entered_def Let_def by (metis empty_iff list.set(1) list.size(3) zero_le)

lemma terminal_switch_keyboard:
  "typed (snd (terminal_switch n s)) = typed s" "mods_inv (snd (terminal_switch n s)) = mods_inv s"
  "mods_of (snd (terminal_switch n s)) = mods_of s" "readFlag (snd (terminal_switch n s)) = readFlag s"
  "lines_inv (snd (terminal_switch n s)) = lines_inv s"
  "current_terminal (snd (terminal_switch n s)) = ucast n" "curr_scheduler (snd (terminal_switch n s)) = curr_scheduler s"
proof -
  let ?s = "snd (terminal_switch n s)"
  have f: "keyBuf ?s = keyBuf s" "keybufferCount ?s = keybufferCount s" "shift ?s = shift s" "capslock ?s = capslock s"
    "capsChecker ?s = capsChecker s" "control ?s = control s" "left_alt ?s = left_alt s" "readFlag ?s = readFlag s"
    by (simp_all add: terminal_switch_def swap_kb_cursor_def change_terminal_cursor_def swap_vid_mem_def clear_def
        set_hw_cursor_def outb_def map_screen_def flush_tlb_def Let_def)
  then show "typed ?s = typed s" "mods_inv ?s = mods_inv s" "mods_of ?s = mods_of s" "readFlag ?s = readFlag s"
    "lines_inv ?s = lines_inv s"
    by (simp_all add: typed_def mods_inv_def mods_of_def lines_inv_def fun_eq_iff)
  show "current_terminal ?s = ucast n" "curr_scheduler ?s = curr_scheduler s"
    by (simp_all add: terminal_switch_def swap_kb_cursor_def change_terminal_cursor_def Let_def frame_simps io_simps)
qed

text \<open>What one key does to the lines, the modifiers and the choice of terminal, for every meaning it can have.\<close>

definition key_effect :: "meaning \<Rightarrow> 'a keyboard_scheme \<Rightarrow> 'a keyboard_scheme \<Rightarrow> bool" where
  "key_effect a s s' \<longleftrightarrow>
     (case a of
        Edit e \<Rightarrow> if e = Enter then entered s s' else edited s s' (edit_line e (typed s (current_terminal s)))
      | Switch t \<Rightarrow> typed s' = typed s \<and> mods_of s' = mods_of s \<and> mods_inv s' = mods_inv s \<and> readFlag s' = readFlag s \<and>
          current_terminal s' = t \<and> curr_scheduler s' = curr_scheduler s
      | _ \<Rightarrow> same_kb s s')"

lemma key_action_effect:
  assumes "mods_inv s" and "lines_inv s" and act: "key_action lo k s = Some (r, s')"
  shows "key_effect (meaning_of k (mods_of s)) s s' \<and> (meaning_of k (mods_of s) \<noteq> Interrupt \<longleftrightarrow> r = Done SUCCESS)"
proof (cases "meaning_of k (mods_of s)")
  case Nothing
  then show ?thesis using key_action_nothing [OF assms(1)] act by (simp add: key_effect_def same_kb_def)
next
  case (Edit e)
  from key_action_edit [OF assms(1,2) this, of lo] act show ?thesis by (auto simp: Edit key_effect_def)
next
  case Clear
  then have "key_action lo k s = Some (Done SUCCESS, clear_screen s)"
    by (auto simp: meaning_of_def key_action_def mods_of_def split: if_splits)
  then show ?thesis using act Clear same_kb_console [OF clear_screen_step, of s] by (simp add: key_effect_def)
next
  case (Switch t)
  then have "\<exists>n. key_action lo k s = Some (Done SUCCESS, snd (terminal_switch n s)) \<and> ucast n = t"
    by (auto simp: meaning_of_def key_action_def mods_of_def split: if_splits)
  then show ?thesis using act Switch by (auto simp: key_effect_def terminal_switch_keyboard)
next
  case Interrupt
  then have "key_action lo k s = map_option (\<lambda>(r, s'). (Halted r, s')) (halt lo 2 (putc NEWLINE s))"
    by (auto simp: meaning_of_def key_action_def mods_of_def split: if_splits)
  with act obtain r1 where "halt lo 2 (putc NEWLINE s) = Some (r1, s')" "r = Halted r1" by auto
  moreover from this have "same_kb s s'"
    by (intro same_kb_trans [OF same_kb_console [OF putc_step] same_kb_halt])
  ultimately show ?thesis using Interrupt by (simp add: key_effect_def)
qed

lemma key_action_returns:
  assumes "meaning_of k (mods_of s) \<noteq> Interrupt"
  shows "\<exists>s'. key_action lo k s = Some (Done SUCCESS, s')"
proof -
  have "ctrl (mods_of s) \<longleftrightarrow> control s = ON" "alt (mods_of s) \<longleftrightarrow> left_alt s = ON" by (simp_all add: mods_of_def)
  with assms show ?thesis by (auto simp: meaning_of_def key_action_def split: if_splits)
qed

lemma key_effect_inv:
  assumes "mods_inv s" and "lines_inv s" and "key_effect (meaning_of k (mods_of s)) s s'"
  shows "mods_inv s' \<and> lines_inv s'"
proof (cases "meaning_of k (mods_of s)")
  case (Edit e)
  then have ne: "e \<noteq> Insert NEWLINE" by (rule meaning_insert)
  show ?thesis
  proof (cases "e = Enter")
    case True
    then have "entered s s'" using Edit assms(3) by (simp add: key_effect_def)
    then show ?thesis using entered_lines_inv assms(1,2) by (auto simp: entered_def Let_def)
  next
    case False
    then have "edited s s' (edit_line e (typed s (current_terminal s)))" using Edit assms(3) by (simp add: key_effect_def)
    then show ?thesis using edited_lines_inv [OF assms(2) _ ne] assms(1) by (auto simp: edited_def)
  qed
next
  case (Switch t)
  then have "typed s' = typed s" "mods_inv s' = mods_inv s" using assms(3) by (simp_all add: key_effect_def)
  then show ?thesis using assms(1,2) by (auto simp: lines_inv_typed simp del: length_typed)
qed (use assms same_kb_inv in \<open>auto simp: key_effect_def\<close>)

section \<open>Typing a line\<close>

text \<open>
  Editing keys under evolving modifiers, until a key that is not an edit of the line.
\<close>

fun edit_run :: "mods \<Rightarrow> u8 list \<Rightarrow> u8 list \<Rightarrow> (mods \<times> u8 list) option" where
  "edit_run m l [] = Some (m, l)"
| "edit_run m l (k # ks) =
     (case meaning_of k (mods_step k m) of
        Nothing \<Rightarrow> edit_run (mods_step k m) l ks
      | Edit e \<Rightarrow> if e = Enter then None else edit_run (mods_step k m) (edit_line e l) ks
      | _ \<Rightarrow> None)"

text \<open>The keyboard interrupt while the controller delivers the scan code \<open>k\<close>.\<close>

definition press :: "locals \<Rightarrow> u8 \<Rightarrow> 'a kernel_scheme \<Rightarrow> 'a kernel_scheme" where
  "press lo k s = (case keyboard_handler lo (s\<lparr>io_dev := \<lambda>_ _. k\<rparr>) of Some (_, s') \<Rightarrow> s' | None \<Rightarrow> s)"

definition pressed :: "u8 \<Rightarrow> 'a kernel_scheme \<Rightarrow> 'a kernel_scheme" where
  "pressed k s = modifier_keys k (acknowledged (s\<lparr>io_dev := \<lambda>_ _. k\<rparr>))"

lemma same_kb_modifier_keys:
  assumes "same_kb s t"
  shows "same_kb (modifier_keys k s) (modifier_keys k t)"
proof -
  have "keyBuf t = keyBuf s" "keybufferCount t = keybufferCount s" "readFlag t = readFlag s" "shift t = shift s"
    "capslock t = capslock s" "capsChecker t = capsChecker s" "control t = control s" "left_alt t = left_alt s"
    "current_terminal t = current_terminal s" "curr_scheduler t = curr_scheduler s"
    using assms by (simp_all add: same_kb_def)
  then show ?thesis unfolding modifier_keys_eq same_kb_def by simp
qed

lemma press_eq: "press lo k s = (case key_action lo k (pressed k s) of Some (_, s') \<Rightarrow> s' | None \<Rightarrow> s)"
proof -
  have "scan_code (send_eoi KEYBOARD_CONTROLLER_IRQ (s\<lparr>io_dev := \<lambda>_ _. k\<rparr>)) = k"
    by (simp add: scan_code_def send_eoi_def outb_def)
  then show ?thesis by (simp add: press_def keyboard_handler_event key_event_def pressed_def)
qed

lemma same_kb_pressed: "same_kb (modifier_keys k s) (pressed k s)"
proof -
  have "same_kb s (s\<lparr>io_dev := \<lambda>_ _. k\<rparr>)" by (simp add: same_kb_def)
  from same_kb_trans [OF this same_kb_console [OF acknowledged_step]] show ?thesis
    unfolding pressed_def by (rule same_kb_modifier_keys)
qed

lemma pressed_fields:
  assumes "mods_inv s" and "lines_inv s"
  shows "mods_inv (pressed k s)" "lines_inv (pressed k s)" "mods_of (pressed k s) = mods_step k (mods_of s)"
    "typed (pressed k s) = typed s" "current_terminal (pressed k s) = current_terminal s"
    "curr_scheduler (pressed k s) = curr_scheduler s" "readFlag (pressed k s) = readFlag s"
proof -
  have l: "lines_inv (modifier_keys k s)" using assms(2) by (simp add: lines_inv_def)
  note sk = same_kb_pressed [of k s]
  show "mods_inv (pressed k s)" "lines_inv (pressed k s)" "mods_of (pressed k s) = mods_step k (mods_of s)"
    "typed (pressed k s) = typed s"
    using same_kb_inv [OF sk] modifier_keys_inv [OF assms(1), of k] modifier_keys_refine [OF assms(1), of k] l by simp_all
  show "current_terminal (pressed k s) = current_terminal s" "curr_scheduler (pressed k s) = curr_scheduler s"
    "readFlag (pressed k s) = readFlag s"
    using sk by (simp_all add: same_kb_def)
qed

lemma press_edit:
  assumes "mods_inv s" and "lines_inv s" and "meaning_of k (mods_step k (mods_of s)) = Edit e"
  shows "if e = Enter then entered (pressed k s) (press lo k s)
    else edited (pressed k s) (press lo k s) (edit_line e (typed s (current_terminal s)))"
proof -
  note f = pressed_fields [OF assms(1,2), of k]
  have "meaning_of k (mods_of (pressed k s)) = Edit e" using assms(3) f(3) by simp
  from key_action_edit [OF f(1,2) this, of lo] show ?thesis by (auto simp: press_eq f split: if_splits)
qed

lemma press_nothing:
  assumes "mods_inv s" and "lines_inv s" and "meaning_of k (mods_step k (mods_of s)) = Nothing"
  shows "press lo k s = pressed k s"
  using key_action_nothing [of "pressed k s" k lo] pressed_fields [OF assms(1,2), of k] assms(3) by (simp add: press_eq)

text \<open>Typing is the abstract editing, key after key, and leaves the reader waiting.\<close>

lemma fold_press:
  assumes "mods_inv s" and "lines_inv s" and "edit_run (mods_of s) (typed s (current_terminal s)) ks = Some (m, l)"
  shows "mods_inv (fold (press lo) ks s) \<and> lines_inv (fold (press lo) ks s) \<and>
    typed (fold (press lo) ks s) (current_terminal s) = l \<and> mods_of (fold (press lo) ks s) = m \<and>
    readFlag (fold (press lo) ks s) = readFlag s \<and>
    current_terminal (fold (press lo) ks s) = current_terminal s \<and> curr_scheduler (fold (press lo) ks s) = curr_scheduler s"
  using assms
proof (induction ks arbitrary: s)
  case (Cons k ks)
  note f = pressed_fields [OF Cons.prems(1,2), of k]
  let ?s = "press lo k s"
  consider (idle) "meaning_of k (mods_step k (mods_of s)) = Nothing"
      "edit_run (mods_step k (mods_of s)) (typed s (current_terminal s)) ks = Some (m, l)"
    | (edit) e where "meaning_of k (mods_step k (mods_of s)) = Edit e" "e \<noteq> Enter"
      "edit_run (mods_step k (mods_of s)) (edit_line e (typed s (current_terminal s))) ks = Some (m, l)"
    using Cons.prems(3) by (auto split: meaning.splits if_splits)
  then show ?case
  proof cases
    case idle
    then show ?thesis
      using Cons.IH [of "pressed k s"] f press_nothing [OF Cons.prems(1,2) idle(1), of lo] by simp
  next
    case edit
    have ed: "edited (pressed k s) ?s (edit_line e (typed s (current_terminal s)))"
      using press_edit [OF Cons.prems(1,2) edit(1), of lo] edit(2) by simp
    have "lines_inv ?s"
      using edited_lines_inv [OF f(2) _ meaning_insert [OF edit(1)], of ?s] ed f(4,5) by simp
    then show ?thesis using Cons.IH [of ?s] ed f edit(3) by (simp add: edited_def)
  qed
qed simp

lemma keyboard_handler_step:
  assumes "mods_inv s" and "lines_inv s" and "current_terminal s < 3"
  defines "k \<equiv> scan_code (send_eoi KEYBOARD_CONTROLLER_IRQ s)"
  defines "a \<equiv> meaning_of k (mods_step k (mods_of s))"
  shows "(a \<noteq> Interrupt \<longrightarrow> (\<exists>s'. keyboard_handler lo s = Some (Done SUCCESS, s'))) \<and>
    (\<forall>r s'. keyboard_handler lo s = Some (r, s') \<longrightarrow>
       mods_inv s' \<and> lines_inv s' \<and> current_terminal s' < 3 \<and> curr_scheduler s' = curr_scheduler s \<and>
       mods_of s' = mods_step k (mods_of s) \<and>
       (\<forall>t. typed s' t = (case a of Edit e \<Rightarrow> if t = current_terminal s then edit_line e (typed s t) else typed s t
                          | _ \<Rightarrow> typed s t)) \<and>
       readFlag s' = (if a = Edit Enter then (readFlag s)(current_terminal s := UNLOCK) else readFlag s) \<and>
       current_terminal s' = (case a of Switch t \<Rightarrow> t | _ \<Rightarrow> current_terminal s))"
proof -
  let ?s1 = "modifier_keys k (acknowledged s)"
  have h: "keyboard_handler lo s = key_action lo k ?s1" by (simp add: keyboard_handler_event key_event_def k_def)
  have sk: "same_kb (modifier_keys k s) ?s1"
    by (rule same_kb_modifier_keys [OF same_kb_console [OF acknowledged_step]])
  have inv: "mods_inv ?s1" "lines_inv ?s1" "mods_of ?s1 = mods_step k (mods_of s)" "typed ?s1 = typed s"
    using same_kb_inv [OF sk] modifier_keys_inv [OF assms(1), of k] modifier_keys_refine [OF assms(1), of k] assms(2)
    by (simp_all add: lines_inv_def)
  have f: "current_terminal ?s1 = current_terminal s" "curr_scheduler ?s1 = curr_scheduler s" "readFlag ?s1 = readFlag s"
    using sk by (simp_all add: same_kb_def)
  have a: "meaning_of k (mods_of ?s1) = a" by (simp add: a_def inv(3))
  have "\<exists>s'. key_action lo k ?s1 = Some (Done SUCCESS, s')" if "a \<noteq> Interrupt"
    using that key_action_returns [of k ?s1] a by blast
  moreover have sw: "t < 3" if "a = Switch t" for t
    using that by (auto simp: a_def meaning_of_def split: if_splits)
  moreover have "mods_inv s' \<and> lines_inv s' \<and> current_terminal s' < 3 \<and> curr_scheduler s' = curr_scheduler s \<and>
       mods_of s' = mods_step k (mods_of s) \<and>
       (\<forall>t. typed s' t = (case a of Edit e \<Rightarrow> if t = current_terminal s then edit_line e (typed s t) else typed s t
                          | _ \<Rightarrow> typed s t)) \<and>
       readFlag s' = (if a = Edit Enter then (readFlag s)(current_terminal s := UNLOCK) else readFlag s) \<and>
       current_terminal s' = (case a of Switch t \<Rightarrow> t | _ \<Rightarrow> current_terminal s)"
    if act: "key_action lo k ?s1 = Some (r, s')" for r s'
  proof -
    have eff: "key_effect a ?s1 s'" using key_action_effect [OF inv(1,2) act] a by simp
    then have "mods_inv s' \<and> lines_inv s'" using key_effect_inv [OF inv(1,2)] a by blast
    then show ?thesis
      using eff sw same_kb_inv [of ?s1 s'] assms(3) inv(3,4) f
      by (cases a) (auto simp: key_effect_def same_kb_def edited_def entered_def Let_def split: if_splits)
  qed
  ultimately show ?thesis unfolding h by blast
qed

section \<open>Properties\<close>


lemma sample_kernel_keyboard:
  "mods_inv sample_kernel" "lines_inv sample_kernel" "current_terminal sample_kernel < 3"
  "mods_of sample_kernel = \<lparr>shifted = False, caps = False, caps_down = False, ctrl = False, alt = False\<rparr>"
  "typed sample_kernel t = []"
proof -
  have "shift sample_kernel = 0" "control sample_kernel = 0" "left_alt sample_kernel = 0" "capslock sample_kernel = 0"
    "capsChecker sample_kernel = 0" "keybufferCount sample_kernel = (\<lambda>_. 0)"
    by (simp_all add: sample_kernel_def init_fops_table_def keyboard.extend_def kernel.fields_def sample_kb_def
        paging.extend_def keyboard.fields_def)
  then show "mods_inv sample_kernel" "lines_inv sample_kernel" "current_terminal sample_kernel < 3"
    "mods_of sample_kernel = \<lparr>shifted = False, caps = False, caps_down = False, ctrl = False, alt = False\<rparr>"
    "typed sample_kernel t = []"
    by (simp_all add: mods_inv_def lines_inv_def typed_def mods_of_def sample_kernel_fields)
qed


lemma edit_run_take: "edit_run m l ks = Some r \<Longrightarrow> \<exists>m' l'. edit_run m l (take i ks) = Some (m', l')"
proof (induction ks arbitrary: m l i)
  case (Cons k ks)
  then show ?case by (cases i) (auto split: meaning.splits if_splits)
qed simp

lemma spin_first:
  assumes "\<And>i. i \<le> length ks \<Longrightarrow> locked (fold isr (take i ks) s)" and "\<not> locked (isr e (fold isr ks s))"
  shows "spin locked isr (ks @ e # es) s = Some (isr e (fold isr ks s), es)"
  using assms
proof (induction ks arbitrary: s)
  case Nil
  then show ?case by (simp add: spin_unlocked)
next
  case (Cons k ks)
  have "locked (fold isr (take i ks) (isr k s))" if "i \<le> length ks" for i
    using Cons.prems(1) [of "Suc i"] that by simp
  moreover have "locked s" using Cons.prems(1) [of 0] by simp
  ultimately show ?case using Cons.IH [of "isr k s"] Cons.prems(2) by simp
qed

lemma read_line_typed:
  assumes "map kb [0..<Suc (length l)] = l @ [NEWLINE]" and "NEWLINE \<notin> set l" and "0 < n"
  shows "read_line kb n = take (n - 1) l @ [NEWLINE]"
proof -
  have "takeWhile (\<lambda>c. c \<noteq> NEWLINE) (map kb [0..<n - 1]) = take (n - 1) l"
  proof (cases "n - 1 \<le> length l")
    case True
    have "map kb [0..<n - 1] = take (n - 1) (map kb [0..<Suc (length l)])"
      using True by (simp add: take_map min_def)
    also have "\<dots> = take (n - 1) l" using assms(1) True by simp
    finally have m: "map kb [0..<n - 1] = take (n - 1) l" .
    have "\<forall>c \<in> set (take (n - 1) l). c \<noteq> NEWLINE" using assms(2) by (auto dest: in_set_takeD)
    then show ?thesis unfolding m by (simp only: takeWhile_eq_all_conv)
  next
    case False
    then obtain j where j: "n - 1 = Suc (length l) + j" using less_iff_Suc_add [of "length l" "n - 1"] by auto
    have "[0..<n - 1] = [0..<Suc (length l)] @ [Suc (length l)..<n - 1]" unfolding j by (rule upt_add_eq_append) simp
    then have "map kb [0..<n - 1] = (l @ [NEWLINE]) @ map kb [Suc (length l)..<n - 1]"
      using assms(1) by (simp only: map_append)
    moreover have "takeWhile (\<lambda>c. c \<noteq> NEWLINE) (l @ NEWLINE # xs) = l" for xs
      using assms(2) by (subst takeWhile_append2) auto
    ultimately show ?thesis using False by simp
  qed
  then show ?thesis using assms(3) by (simp add: read_line_def)
qed



definition is_lower :: "u8 \<Rightarrow> bool" where
  "is_lower c \<longleftrightarrow> 0x61 \<le> c \<and> c \<le> 0x7A"

text \<open>What the entries of the three tables for one scan code promise.\<close>

definition keymaps_agree :: "u8 \<Rightarrow> u8 \<Rightarrow> u8 \<Rightarrow> bool" where
  "keymaps_agree c sh cl \<longleftrightarrow>
     (sh = 0 \<longleftrightarrow> c = 0) \<and> cl = (if is_lower c then c - 0x20 else c) \<and>
     (if is_lower c then sh = c - 0x20 else sh = c \<longleftrightarrow> c \<in> {0, 0x0A, 0x20, 0x33})"

lemma keymap_lengths: "length keymap = 256" "length keymapShift = 256" "length keymapCapslock = 256"
  by (simp_all add: keymap_def keymapShift_def keymapCapslock_def bytes_of_def)

lemma keymaps_agree_all: "list_all (\<lambda>(c, sh, cl). keymaps_agree c sh cl) (zip keymap (zip keymapShift keymapCapslock))"
  unfolding keymap_def keymapShift_def keymapCapslock_def bytes_of_def
  by (simp add: keymaps_agree_def is_lower_def zip_replicate list_all_iff word_le_nat_alt)

text \<open>The three tables have an entry for each of the 256 scan codes and agree: the same keys produce a
  character in all of them; caps lock changes exactly the letters, to upper case; shift changes
  every key but Enter, the space bar and the key 3, which should give a number sign and gives
  the digit again.\<close>

theorem keymaps_consistent:
  "length keymap = 256 \<and> length keymapShift = 256 \<and> length keymapCapslock = 256 \<and>
   (\<forall>k :: u8. keymaps_agree (keymap ! unat k) (keymapShift ! unat k) (keymapCapslock ! unat k))"
proof -
  have "unat k < 256" for k :: u8 using unsigned_less [of k, where ?'a = nat] by simp
  then show ?thesis using keymaps_agree_all by (simp add: keymap_lengths list_all_length)
qed

text \<open>The interrupt is the handler, except where \<open>delete\<close> faults.\<close>

lemma keyboard_interrupt_event:
  fixes s :: "'a kernel_scheme"
  defines "k \<equiv> scan_code (send_eoi KEYBOARD_CONTROLLER_IRQ s)" and "m \<equiv> modifier_keys (scan_code (send_eoi KEYBOARD_CONTROLLER_IRQ s)) (acknowledged s)"
  shows "keyboard_interrupt lo s =
    (if k = BACKSPACE_PRESSED \<and> delete_faults m then Some (Page_fault (delete_addr m), cursor_left m)
     else map_option (\<lambda>(r, s'). (Handled r, s')) (keyboard_handler lo s))"
proof -
  let ?e = "send_eoi KEYBOARD_CONTROLLER_IRQ s"
  have i: "inb KEYBOARD_CONTROLLER_PORT ?e = (ucast (scan_code ?e), acknowledged s)"
    by (simp add: acknowledged_def scan_code_def inb_def Let_def)
  show ?thesis
    unfolding keyboard_interrupt_def Let_def i prod.case ucast_u8_u32 modifier_keys_def [symmetric] keyboard_handler_event
      key_event_def k_def m_def ..
qed

lemma keyboard_interrupt_cases:
  assumes "keyboard_interrupt lo s = Some (r, s')"
  obtains (handled) q where "r = Handled q" "keyboard_handler lo s = Some (q, s')"
    | (faulted) a k where "r = Page_fault a" "s' = cursor_left (modifier_keys k (acknowledged s))"
  using assms unfolding keyboard_interrupt_event by (auto split: if_splits)

lemma cursor_left_step: "console_step s (cursor_left s)"
  by (simp add: cursor_left_def console_step_def Let_def)

text \<open>A key pressed at the controller.\<close>

lemma keyboard_interrupt_pressed:
  "keyboard_interrupt lo (s\<lparr>io_dev := \<lambda>_ _. k\<rparr>) =
    (if k = BACKSPACE_PRESSED \<and> delete_faults (pressed k s) then Some (Page_fault (delete_addr (pressed k s)), cursor_left (pressed k s))
     else map_option (\<lambda>(r, s'). (Handled r, s')) (key_action lo k (pressed k s)))"
proof -
  have "scan_code (send_eoi KEYBOARD_CONTROLLER_IRQ (s\<lparr>io_dev := \<lambda>_ _. k\<rparr>)) = k"
    by (simp add: scan_code_def send_eoi_def outb_def)
  then show ?thesis unfolding keyboard_interrupt_event keyboard_handler_event key_event_def pressed_def by (simp only:)
qed

lemma pressed_plain:
  assumes "k = L_KEY \<or> k = BACKSPACE_PRESSED"
  shows "pressed k s = acknowledged (s\<lparr>io_dev := \<lambda>_ _. k\<rparr>)"
proof -
  have "modifier_keys k t = t" for t :: "'a kernel_scheme"
    using assms by (elim disjE) (simp_all add: modifier_keys_def shift_key_def capslock_key_def control_key_def left_alt_key_def)
  then show ?thesis by (simp add: pressed_def)
qed

lemma acknowledged_fields:
  fixes s :: "'a kernel_scheme"
  shows "terminal (acknowledged s) = terminal s" "current_terminal (acknowledged s) = current_terminal s"
    "control (acknowledged s) = control s" "keybufferCount (acknowledged s) = keybufferCount s" "typed (acknowledged s) = typed s"
    "keyBuf (acknowledged s) = keyBuf s"
    "page_directory (acknowledged s) = page_directory s" "page_table_video (acknowledged s) = page_table_video s"
    "page_table_video_addr (acknowledged s) = page_table_video_addr s"
  by (simp_all add: acknowledged_def inb_def send_eoi_def outb_def Let_def typed_def fun_eq_iff)

text \<open>C40. Control-L clears the screen and puts the cursor at its top left but keeps the unfinished line. A
  backspace after it, with that line not empty, moves the cursor to column -1 and then writes
  below the screen, to \<^verbatim>\<open>0xB7FFE\<close>, which the kernel's page tables do not map: the keyboard handler
  page-faults, and the line keeps its character.\<close>

theorem control_l_then_backspace:
  fixes s :: "'a kernel_scheme"
  assumes "user_tables p s" and "control s = ON" and "keybufferCount s (current_terminal s) > 0"
  shows "\<exists>s1 s2. keyboard_interrupt lo (s\<lparr>io_dev := \<lambda>_ _. L_KEY\<rparr>) = Some (Handled (Done SUCCESS), s1) \<and>
    typed s1 = typed s \<and> cursor_ok (terminal s1 (current_terminal s)) \<and>
    keyboard_interrupt lo (s1\<lparr>io_dev := \<lambda>_ _. BACKSPACE_PRESSED\<rparr>) = Some (Page_fault 0xB7FFE, s2) \<and>
    typed s2 = typed s \<and> screen_x (terminal s2 (current_terminal s)) = - 1 \<and> screen_y (terminal s2 (current_terminal s)) = 0"
proof -
  let ?a = "acknowledged (s\<lparr>io_dev := \<lambda>_ _. L_KEY\<rparr>)" and ?ct = "current_terminal s"
  let ?s1 = "clear_screen ?a"
  let ?b = "acknowledged (?s1\<lparr>io_dev := \<lambda>_ _. BACKSPACE_PRESSED\<rparr>)"
  have "keyboard_interrupt lo (s\<lparr>io_dev := \<lambda>_ _. L_KEY\<rparr>) = Some (Handled (Done SUCCESS), ?s1)"
    using assms(2) by (simp add: keyboard_interrupt_pressed pressed_plain acknowledged_fields key_action_def)
  moreover have t1: "terminal ?s1 ?ct = (terminal s ?ct)\<lparr>screen_x := 0, screen_y := 0\<rparr>"
    by (simp add: clear_screen_def clear_set_def set_hw_cursor_def outb_def frame_simps acknowledged_fields Let_def)
  then have "cursor_ok (terminal ?s1 ?ct)" by (simp add: cursor_ok_def term_pos_def)
  moreover have ty: "typed ?s1 = typed s" by (simp add: typed_def acknowledged_fields fun_eq_iff)
  moreover have "keyboard_interrupt lo (?s1\<lparr>io_dev := \<lambda>_ _. BACKSPACE_PRESSED\<rparr>) = Some (Page_fault 0xB7FFE, cursor_left ?b)"
  proof -
    have st: "console_step ?a ?s1" by (rule clear_screen_step)
    have "page_table_video_addr ?s1 = page_table_video_addr ?a"
      by (subst st [unfolded console_step_def, THEN conjunct1]) simp
    then have "user_tables p ?b"
      using assms(1) console_step_fields [OF st] by (subst user_tables_cong [of _ s]) (simp_all add: acknowledged_fields)
    moreover have "drop_bit 12 (0xB7FFE :: u32) = 0xB7" by simp
    ultimately have "translate ?b False True 0xB7FFE = None" by (rule translate_kernel_low) simp_all
    moreover have "delete_addr ?b = 0xB7FFE"
      using t1 by (simp add: delete_addr_def cell_def acknowledged_fields Let_def)
    ultimately show ?thesis
      using assms(3) by (simp add: keyboard_interrupt_pressed pressed_plain delete_faults_def acknowledged_fields)
  qed
  moreover have "typed (cursor_left ?b) = typed s"
    using ty by (simp add: typed_def cursor_left_def acknowledged_fields fun_eq_iff Let_def)
  moreover have "terminal (cursor_left ?b) ?ct = (terminal s ?ct)\<lparr>screen_x := - 1, screen_y := 0\<rparr>"
    using t1 by (simp add: cursor_left_def acknowledged_fields Let_def)
  ultimately show ?thesis by (intro exI [of _ ?s1] exI [of _ "cursor_left ?b"]) simp
qed

text \<open>The sample kernel with paging on, Control held and one character typed.\<close>

definition sample_control :: kernel where
  "sample_control = (switch_user 0 (paging_init sample_kernel))\<lparr>control := ON, keybufferCount := \<lambda>_. 1\<rparr>"

theorem control_l_then_backspace_witness:
  "\<exists>s1 s2. keyboard_interrupt sample_locals (sample_control\<lparr>io_dev := \<lambda>_ _. L_KEY\<rparr>) = Some (Handled (Done SUCCESS), s1) \<and>
     keyboard_interrupt sample_locals (s1\<lparr>io_dev := \<lambda>_ _. BACKSPACE_PRESSED\<rparr>) = Some (Page_fault 0xB7FFE, s2) \<and>
     typed s2 = typed sample_control"
proof -
  have "aligned_tables sample_kernel"
    by (simp add: aligned_tables_def sample_kernel_def init_fops_table_def keyboard.extend_def kernel.fields_def sample_kb_def
        paging.extend_def keyboard.fields_def sample_paging_fields)
  then have "user_tables 0 (switch_user 0 (paging_init sample_kernel))" by (intro user_tables_init) simp_all
  then have "user_tables 0 sample_control"
    unfolding sample_control_def by (subst user_tables_cong [of _ "switch_user 0 (paging_init sample_kernel)"]) simp_all
  moreover have "control sample_control = ON" "keybufferCount sample_control (current_terminal sample_control) > 0"
    by (simp_all add: sample_control_def)
  ultimately show ?thesis using control_l_then_backspace [of 0 sample_control sample_locals] by blast
qed

end
