(* ===== verification/Pit.thy ===== *)
theory Pit
  imports Keyboard_Spec
begin

text \<open>
  The timer and the scheduler, \<^verbatim>\<open>student-distrib/pit.c\<close>. Each tick saves the stack of the
  running program in its control block and goes on with the program of the next terminal,
  starting a shell where there is none. A tick ends in the resumed program, in the shell it
  started, or, when no shell can be started, in a null control-block pointer.
\<close>

section \<open>The timer\<close>

definition PIT_FREQ :: i32 where
  "PIT_FREQ = 11932"

text \<open>\<open>(int8_t)PIT_FREQ\<close> is a negative byte; the shift of the second line is of that byte, widened with its sign.\<close>

definition pit_init :: "'a pic_scheme \<Rightarrow> 'a pic_scheme" where
  "pit_init s0 =
     (let s = outb 0x37 0x43 s0;
          s = outb (ucast PIT_FREQ) 0x40 s;
          s = outb (ucast (signed_drop_bit 8 (scast (ucast PIT_FREQ :: u8) :: i32))) 0x40 s
      in enable_irq 0 s)"

section \<open>The scheduler\<close>

datatype sched_result = Resumed | Started u32 | Null_pointer

definition start_shell :: "locals \<Rightarrow> 'a kernel_scheme \<Rightarrow> (sched_result \<times> 'a kernel_scheme) option" where
  "start_shell lo s =
     (case execute lo (Some (lit ''shell'')) s of
        None \<Rightarrow> None
      | Some (To_user e, s') \<Rightarrow> Some (Started e, s')
      | Some (Ret _, s') \<Rightarrow> Some (Null_pointer, s'))"

definition save_context :: "'a kernel_scheme \<Rightarrow> 'a kernel_scheme" where
  "save_context s = set_cur_pcb ((cur_pcb s)\<lparr>ebp_val := ebp s, esp_val := esp s\<rparr>) s"

definition next_terminal :: "u8 \<Rightarrow> u8" where
  "next_terminal t = of_nat ((unat t + 1) mod 3)"

definition gate_keyboard :: "'a kernel_scheme \<Rightarrow> 'a kernel_scheme" where
  "gate_keyboard s =
     (if curr_scheduler s = current_terminal s then enable_irq KEYBOARD_CONTROLLER_IRQ s
      else disable_irq KEYBOARD_CONTROLLER_IRQ s)"

definition resume_context :: "'a kernel_scheme \<Rightarrow> 'a kernel_scheme" where
  "resume_context s0 =
     (let s = map_screen s0;
          s = s\<lparr>page_directory := (page_directory s)(32 := (EIGHT_MB + pcb_pid (cur_pcb s) * FOUR_MB) OR PAGING_USER_ON)\<rparr>;
          s = flush_tlb s;
          s = s\<lparr>tss_ss0 := KERNEL_DS, tss_esp0 := (EIGHT_MB - pcb_pid (cur_pcb s) * EIGHT_KB) - 4\<rparr>;
          s = s\<lparr>ebp := ebp_val (cur_pcb s), esp := esp_val (cur_pcb s)\<rparr>
      in sti s)"

definition scheduler :: "locals \<Rightarrow> 'a kernel_scheme \<Rightarrow> (sched_result \<times> 'a kernel_scheme) option" where
  "scheduler lo s0 =
     (let s = cli (send_eoi 0 s0)
      in if curr_scheduler s = 0 \<and> pcb (terminal s (curr_scheduler s)) = 0 then
           start_shell lo (clear_set (clear (sti s)))
         else if pcb (terminal s (curr_scheduler s)) = 0 then Some (Null_pointer, s)
         else
           let s = save_context s;
               s = s\<lparr>curr_scheduler := next_terminal (curr_scheduler s)\<rparr>;
               s = gate_keyboard s
           in if pcb (terminal s (curr_scheduler s)) = 0 then start_shell lo (sti s)
              else Some (Resumed, resume_context s))"

definition pit_handler :: "locals \<Rightarrow> 'a kernel_scheme \<Rightarrow> (sched_result \<times> 'a kernel_scheme) option" where
  "pit_handler lo s = scheduler lo s"

section \<open>A tick on the process stacks\<close>

lemma next_terminal_range: "next_terminal t < 3"
  by (simp add: next_terminal_def word_less_nat_alt unat_of_nat take_bit_nat_eq_self)

lemma next_terminal_eqs: "next_terminal 0 = 1" "next_terminal 1 = 2" "next_terminal 2 = 0"
  by (simp_all add: next_terminal_def)

lemma next_terminal_neq: "t < 3 \<Longrightarrow> next_terminal t \<noteq> t"
  by (auto simp: u8_less_3 next_terminal_eqs)

lemma next_terminal_round: "t < 3 \<Longrightarrow> next_terminal (next_terminal (next_terminal t)) = t"
  by (auto simp: u8_less_3 next_terminal_eqs)

lemma gate_keyboard_fields [frame_simps]:
  "terminal (gate_keyboard s) = terminal s" "curr_scheduler (gate_keyboard s) = curr_scheduler s"
  "current_terminal (gate_keyboard s) = current_terminal s" "pcbs (gate_keyboard s) = pcbs s" "pid (gate_keyboard s) = pid s"
  "process_counter (gate_keyboard s) = process_counter s" "mem (gate_keyboard s) = mem s"
  "ebp (gate_keyboard s) = ebp s" "esp (gate_keyboard s) = esp s" "page_table_video (gate_keyboard s) = page_table_video s"
  "page_directory (gate_keyboard s) = page_directory s" "boot_block_addr (gate_keyboard s) = boot_block_addr s"
  by (simp_all add: gate_keyboard_def enable_irq_def disable_irq_def outb_def Let_def)

lemma gate_keyboard_masked: "irq_masked (gate_keyboard s) 1 \<longleftrightarrow> curr_scheduler s \<noteq> current_terminal s"
  using master_lines.gate [of 1 1 "curr_scheduler s = current_terminal s" s] by (simp add: gate_keyboard_def)

text \<open>The state after the running program's context is saved and the next terminal chosen.\<close>

definition switched :: "'a kernel_scheme \<Rightarrow> 'a kernel_scheme" where
  "switched s =
     gate_keyboard ((save_context (cli (send_eoi 0 s)))\<lparr>curr_scheduler := next_terminal (curr_scheduler s)\<rparr>)"

lemma send_eoi_kernel [frame_simps]:
  fixes s :: "'a kernel_scheme"
  shows "terminal (send_eoi n s) = terminal s" "curr_scheduler (send_eoi n s) = curr_scheduler s"
    "current_terminal (send_eoi n s) = current_terminal s" "pcbs (send_eoi n s) = pcbs s" "pid (send_eoi n s) = pid s"
    "process_counter (send_eoi n s) = process_counter s" "ebp (send_eoi n s) = ebp s" "esp (send_eoi n s) = esp s"
    "boot_block_addr (send_eoi n s) = boot_block_addr s" "page_table_video (send_eoi n s) = page_table_video s"
  by (simp_all add: send_eoi_def outb_def)

lemma switched_fields:
  "terminal (switched s) = terminal s" "curr_scheduler (switched s) = next_terminal (curr_scheduler s)"
  "current_terminal (switched s) = current_terminal s" "pid (switched s) = pid s"
  "process_counter (switched s) = process_counter s" "mem (switched s) = mem s"
  "pcbs (switched s) a = (if a = cur_pcb_addr s then (pcbs s a)\<lparr>ebp_val := ebp s, esp_val := esp s\<rparr> else pcbs s a)"
  "page_table_video (switched s) = page_table_video s" "boot_block_addr (switched s) = boot_block_addr s"
  by (simp_all add: switched_def save_context_def set_cur_pcb_def cur_pcb_def cur_pcb_addr_def cli_def frame_simps)

lemma scheduler_eq:
  "pcb (terminal s (curr_scheduler s)) \<noteq> 0 \<Longrightarrow> scheduler lo s =
     (if pcb (terminal s (next_terminal (curr_scheduler s))) = 0 then start_shell lo (sti (switched s))
      else Some (Resumed, resume_context (switched s)))"
proof -
  assume run: "pcb (terminal s (curr_scheduler s)) \<noteq> 0"
  let ?s = "cli (send_eoi 0 s)"
  have "terminal ?s = terminal s" "curr_scheduler ?s = curr_scheduler s" by (simp_all add: cli_def frame_simps)
  moreover have "curr_scheduler (save_context ?s) = curr_scheduler s"
    by (simp add: save_context_def set_cur_pcb_def cli_def frame_simps)
  ultimately show ?thesis
    using run switched_fields(1,2) [of s] unfolding scheduler_def Let_def switched_def by simp
qed

lemma proc_table_switched: "proc_table s ch \<Longrightarrow> proc_table (switched s) ch"
proof -
  assume pt: "proc_table s ch"
  have "chain (pcbs (switched s)) a ps = chain (pcbs s) a ps" for a ps
    by (rule chain_cong) (simp add: switched_fields same_links_def)
  then show ?thesis using pt by (simp add: proc_table_def switched_fields)
qed

lemma resume_context_fields:
  fixes s :: "'a kernel_scheme"
  defines "p \<equiv> pcb_pid (cur_pcb s)"
  shows "terminal (resume_context s) = terminal s" "pcbs (resume_context s) = pcbs s" "pid (resume_context s) = pid s"
    "process_counter (resume_context s) = process_counter s" "curr_scheduler (resume_context s) = curr_scheduler s"
    "current_terminal (resume_context s) = current_terminal s" "if_flag (resume_context s)"
    "page_directory (resume_context s) 32 = user_pde p" "tlb_user (resume_context s) = user_pde p"
    "tss_ss0 (resume_context s) = KERNEL_DS" "tss_esp0 (resume_context s) = EIGHT_MB - p * EIGHT_KB - 4"
    "ebp (resume_context s) = ebp_val (cur_pcb s)" "esp (resume_context s) = esp_val (cur_pcb s)"
    "page_table_video (resume_context s) 0 = page_of s (curr_scheduler s) OR vid_mem_flag"
    "irq_masked (resume_context s) n = irq_masked s n"
  by (simp_all add: resume_context_def p_def cur_pcb_def cur_pcb_addr_def sti_def flush_tlb_def user_pde_def map_screen_def
      irq_masked_def page_of_def Let_def)

text \<open>What a tick does to the program \<open>p\<close> it suspends and the program \<open>q\<close> it resumes.\<close>

definition switched_to :: "'a kernel_scheme \<Rightarrow> i32 \<Rightarrow> i32 \<Rightarrow> 'a kernel_scheme \<Rightarrow> bool" where
  "switched_to s p q s' \<longleftrightarrow>
     curr_scheduler s' = next_terminal (curr_scheduler s) \<and> current_terminal s' = current_terminal s \<and>
     ebp_val (pcbs s' (pcb_addr p)) = ebp s \<and> esp_val (pcbs s' (pcb_addr p)) = esp s \<and>
     (\<forall>a. a \<noteq> pcb_addr p \<longrightarrow> pcbs s' a = pcbs s a) \<and>
     ebp s' = ebp_val (pcbs s (pcb_addr q)) \<and> esp s' = esp_val (pcbs s (pcb_addr q)) \<and>
     page_directory s' 32 = user_pde q \<and> tss_ss0 s' = KERNEL_DS \<and> tss_esp0 s' = EIGHT_MB - q * EIGHT_KB - 4 \<and>
     page_table_video s' 0 = page_of s (next_terminal (curr_scheduler s)) OR vid_mem_flag \<and>
     (irq_masked s' 1 \<longleftrightarrow> curr_scheduler s' \<noteq> current_terminal s') \<and> if_flag s'"

lemma scheduler_switches:
  assumes pt: "proc_table s ch" and cs: "curr_scheduler s < 3"
    and p: "ch (curr_scheduler s) = p # ps" and q: "ch (next_terminal (curr_scheduler s)) = q # qs"
  shows "\<exists>s'. scheduler lo s = Some (Resumed, s') \<and> proc_table s' ch \<and> switched_to s p q s'"
proof -
  let ?n = "next_terminal (curr_scheduler s)" and ?s = "switched s"
  have P: "pcb (terminal s (curr_scheduler s)) = pcb_addr p" "p < 6"
    using proc_table_chain [OF pt cs] by (simp_all add: p)
  have Q: "pcb (terminal s ?n) = pcb_addr q" "q < 6" "pcb_pid (pcbs s (pcb_addr q)) = q"
    using proc_table_chain [OF pt next_terminal_range, of "curr_scheduler s"] by (auto simp: q)
  have "p \<noteq> q"
  proof -
    have "p \<in> set (ch (curr_scheduler s))" "q \<in> set (ch ?n)" by (simp_all add: p q)
    moreover have "set (ch (curr_scheduler s)) \<inter> set (ch ?n) = {}"
      using pt cs next_terminal_range [of "curr_scheduler s"] next_terminal_neq [OF cs]
      by (auto simp: proc_table_def all_procs_def u8_less_3)
    ultimately show ?thesis by blast
  qed
  then have ne: "pcb_addr q \<noteq> pcb_addr p" using P(2) Q(2) pcb_addr_inj by blast
  have sch: "scheduler lo s = Some (Resumed, resume_context ?s)"
    using scheduler_eq [of s lo] P Q pcb_addr_nonzero by simp
  have cur: "cur_pcb ?s = pcbs s (pcb_addr q)"
    using ne P(1) Q(1) by (simp add: cur_pcb_def cur_pcb_addr_def switched_fields)
  note f = resume_context_fields [of ?s, unfolded cur Q(3)]
  have m: "irq_masked ?s 1 \<longleftrightarrow> curr_scheduler ?s \<noteq> current_terminal ?s"
    unfolding switched_def gate_keyboard_masked by (simp add: frame_simps)
  have "switched_to s p q (resume_context ?s)"
    unfolding switched_to_def using f m P(1) by (simp add: switched_fields cur_pcb_addr_def page_of_def)
  moreover have "proc_table (resume_context ?s) ch"
    using proc_table_switched [OF pt] f(1-4) by (simp add: proc_table_def)
  ultimately show ?thesis using sch by blast
qed

text \<open>A tick that comes to a terminal without a program is \<open>start_shell\<close> on that terminal.\<close>

lemma scheduler_starts:
  assumes "proc_table s ch" and "curr_scheduler s < 3" and "ch (curr_scheduler s) = p # ps"
    and "ch (next_terminal (curr_scheduler s)) = []"
  shows "scheduler lo s = start_shell lo (sti (switched s))" "proc_table (sti (switched s)) ch"
    "curr_scheduler (sti (switched s)) = next_terminal (curr_scheduler s)"
proof -
  have "pcb (terminal s (curr_scheduler s)) \<noteq> 0"
    using proc_table_chain [OF assms(1,2)] pcb_addr_nonzero by (auto simp: assms(3))
  moreover have "pcb (terminal s (next_terminal (curr_scheduler s))) = 0"
    using proc_table_chain [OF assms(1) next_terminal_range, of "curr_scheduler s"] by (simp add: assms(4))
  ultimately show "scheduler lo s = start_shell lo (sti (switched s))" by (simp add: scheduler_eq)
  show "proc_table (sti (switched s)) ch" using proc_table_switched [OF assms(1)] by (simp add: proc_table_def sti_def)
  show "curr_scheduler (sti (switched s)) = next_terminal (curr_scheduler s)" by (simp add: sti_def switched_fields)
qed

section \<open>Properties\<close>

text \<open>C21. A tick resumes the next terminal's program. The running program's stack registers are saved in its
  control block, and the next terminal's program gets its own back, with its page, its kernel
  stack and its view of the screen; the keyboard line is open exactly when the scheduled
  terminal is the visible one; the process table does not change.\<close>

theorem scheduler_resumes_next:
  assumes "proc_table s ch" and "curr_scheduler s < 3"
    and "ch (curr_scheduler s) = p # ps" and "ch (next_terminal (curr_scheduler s)) = q # qs"
  shows "\<exists>s'. scheduler lo s = Some (Resumed, s') \<and> proc_table s' ch \<and> switched_to s p q s'"
  using scheduler_switches [OF assms] .

text \<open>Three shells, one on each terminal, for the witnesses.\<close>

definition sample_three :: kernel where
  "sample_three = sample_kernel\<lparr>
     terminal := (\<lambda>t. \<lparr>pcb = pcb_addr (ucast t), screen_x = 0, screen_y = 0\<rparr>),
     pcbs := (pcbs sample_kernel)(pcb_addr 0 := sample_pcb 0 (- 1) 0, pcb_addr 1 := sample_pcb 1 (- 1) 0,
       pcb_addr 2 := sample_pcb 2 (- 1) 0),
     pid := (\<lambda>_. VACANT)(0 := OCCUPIED, 1 := OCCUPIED, 2 := OCCUPIED), process_counter := 2\<rparr>"

lemma sample_three_table: "proc_table sample_three (\<lambda>t. [ucast t])"
proof -
  have "pcb_addr 0 \<noteq> pcb_addr 1" "pcb_addr 0 \<noteq> pcb_addr 2" "pcb_addr 1 \<noteq> pcb_addr 2" by (simp_all add: pcb_addr_inj)
  then show ?thesis
    by (auto simp: proc_table_def sample_three_def all_procs_def sample_pcb_def u8_less_3)
qed

lemma sample_three_fields: "curr_scheduler sample_three = 0" "current_terminal sample_three = 0"
  by (simp_all add: sample_three_def sample_kernel_fields)

theorem scheduler_resumes_next_witness:
  "\<exists>s'. scheduler sample_locals sample_three = Some (Resumed, s') \<and> switched_to sample_three 0 1 s' \<and> curr_scheduler s' = 1"
proof -
  from scheduler_resumes_next [OF sample_three_table, of 0 "[]" 1 "[]" sample_locals] obtain s' where
    "scheduler sample_locals sample_three = Some (Resumed, s')" "switched_to sample_three 0 1 s'"
    by (auto simp: sample_three_fields next_terminal_eqs)
  then show ?thesis by (auto simp: switched_to_def sample_three_fields next_terminal_eqs)
qed

text \<open>A turn of other programs that leaves the process table, and the saved registers of the program \<open>p\<close>, alone.\<close>

definition other_turn :: "(u8 \<Rightarrow> i32 list) \<Rightarrow> i32 \<Rightarrow> ('a kernel_scheme \<Rightarrow> 'a kernel_scheme) \<Rightarrow> bool" where
  "other_turn ch p f \<longleftrightarrow> (\<forall>u. proc_table u ch \<longrightarrow> proc_table (f u) ch \<and> curr_scheduler (f u) = curr_scheduler u \<and>
     ebp_val (pcbs (f u) (pcb_addr p)) = ebp_val (pcbs u (pcb_addr p)) \<and>
     esp_val (pcbs (f u) (pcb_addr p)) = esp_val (pcbs u (pcb_addr p)))"

lemma proc_table_heads:
  assumes pt: "proc_table s ch" and "t < 3" "u < 3" "t \<noteq> u" "ch t = p # ps" "ch u = q # qs"
  shows "pcb_addr p \<noteq> pcb_addr q"
proof -
  have "p < 6" "q < 6" using proc_table_chain [OF pt, of t] proc_table_chain [OF pt, of u] assms(2-6) by simp_all
  moreover have "set (ch t) \<inter> set (ch u) = {}" using assms(1-4) by (auto simp: proc_table_def all_procs_def u8_less_3)
  then have "p \<noteq> q" using assms(5,6) by auto
  ultimately show ?thesis using pcb_addr_inj by blast
qed

text \<open>C22. Three ticks are a round: with a program on every terminal, the program interrupted by the first tick
  continues after the third with the registers it had, whatever the programs of the other
  two terminals did in their turns, as long as they left the process table and the saved
  registers of the program alone.\<close>

theorem scheduler_round:
  assumes pt: "proc_table s ch" and cs: "curr_scheduler s < 3"
    and p: "ch (curr_scheduler s) = p # ps" and q: "ch (next_terminal (curr_scheduler s)) = q # qs"
    and r: "ch (next_terminal (next_terminal (curr_scheduler s))) = r # rs"
    and f: "other_turn ch p f" and g: "other_turn ch p g"
  shows "\<exists>s1 s2 s3. scheduler lo s = Some (Resumed, s1) \<and> scheduler lo (f s1) = Some (Resumed, s2) \<and>
    scheduler lo (g s2) = Some (Resumed, s3) \<and> curr_scheduler s3 = curr_scheduler s \<and>
    ebp s3 = ebp s \<and> esp s3 = esp s \<and> page_directory s3 32 = user_pde p \<and> proc_table s3 ch"
proof -
  let ?n = "next_terminal" and ?c = "curr_scheduler s"
  obtain s1 where s1: "scheduler lo s = Some (Resumed, s1)" "proc_table s1 ch" "switched_to s p q s1"
    using scheduler_switches [OF pt cs p q] by blast
  have t1: "proc_table (f s1) ch" "curr_scheduler (f s1) = ?n ?c" "ebp_val (pcbs (f s1) (pcb_addr p)) = ebp s"
    "esp_val (pcbs (f s1) (pcb_addr p)) = esp s"
    using f s1(2,3) by (simp_all add: other_turn_def switched_to_def)
  obtain s2 where s2: "scheduler lo (f s1) = Some (Resumed, s2)" "proc_table s2 ch" "switched_to (f s1) q r s2"
    using scheduler_switches [OF t1(1), of q qs r rs lo] q r t1(2) next_terminal_range by auto
  have "pcb_addr p \<noteq> pcb_addr q"
    using proc_table_heads [OF pt cs next_terminal_range _ p q] next_terminal_neq [OF cs] by simp
  then have "pcbs s2 (pcb_addr p) = pcbs (f s1) (pcb_addr p)" using s2(3) by (simp add: switched_to_def)
  then have t2: "proc_table (g s2) ch" "curr_scheduler (g s2) = ?n (?n ?c)" "ebp_val (pcbs (g s2) (pcb_addr p)) = ebp s"
    "esp_val (pcbs (g s2) (pcb_addr p)) = esp s"
    using g s2(2,3) t1 by (simp_all add: other_turn_def switched_to_def)
  obtain s3 where "scheduler lo (g s2) = Some (Resumed, s3)" "proc_table s3 ch" "switched_to (g s2) r p s3"
    using scheduler_switches [OF t2(1), of r rs p ps lo] p r t2(2) next_terminal_range next_terminal_round [OF cs] by auto
  then show ?thesis using s1(1) s2(1) t2 next_terminal_round [OF cs] by (auto simp: switched_to_def)
qed

theorem scheduler_round_witness:
  "\<exists>s1 s2 s3. scheduler sample_locals sample_three = Some (Resumed, s1) \<and> scheduler sample_locals s1 = Some (Resumed, s2) \<and>
     scheduler sample_locals s2 = Some (Resumed, s3) \<and> curr_scheduler s3 = 0 \<and> esp s3 = esp sample_three"
proof -
  have "other_turn (\<lambda>t. [ucast t]) 0 (\<lambda>s. s :: kernel)" by (simp add: other_turn_def)
  from scheduler_round [OF sample_three_table _ _ _ _ this this, of "[]" 1 "[]" 2 "[]" sample_locals]
  show ?thesis by (auto simp: sample_three_fields next_terminal_eqs)
qed

text \<open>\<open>pit_init\<close> opens the timer's line and no other, but the divisor it programs is not the one for
  100 Hz: the high byte is taken from the sign of the low one, so the timer counts down from
  65436 instead of 11932.\<close>

theorem pit_init_divisor:
  "written 0x40 (io_log (pit_init s)) = written 0x40 (io_log s) @ [0x9C, 0xFF] \<and>
   unat (0x9C :: u8) + 256 * unat (0xFF :: u8) = 65436 \<and> unat PIT_FREQ = 11932 \<and>
   (\<forall>k < 16. irq_masked (pit_init s) k \<longleftrightarrow> irq_masked s k \<and> k \<noteq> 0)"
proof -
  have "signed_drop_bit 8 (scast (0x9C :: u8) :: i32) = - 1" by code_simp
  moreover have "(ucast (- 1 :: i32) :: u8) = 0xFF"
    by (subst minus_1_eq_mask) (simp add: ucast_mask_eq mask_eq_exp_minus_1)
  ultimately have b: "(ucast (signed_drop_bit 8 (scast (0x9C :: u8) :: i32)) :: u8) = 0xFF" by (simp only:)
  have low: "(ucast PIT_FREQ :: u8) = 0x9C" by (simp add: PIT_FREQ_def)
  have "written 0x40 (io_log (pit_init s)) = written 0x40 (io_log s) @ [0x9C, 0xFF]"
    by (simp only: pit_init_def b low) (simp add: enable_irq_def Let_def io_simps)
  moreover have "irq_masked (pit_init s) k \<longleftrightarrow> irq_masked s k \<and> k \<noteq> 0" if "k < 16" for k
    using that by (simp add: pit_init_def Let_def io_simps irq_masked_enable)
  ultimately show ?thesis by (simp add: PIT_FREQ_def)
qed

theorem pit_init_divisor_witness: "\<not> irq_masked (pit_init pic0) 0 \<and> irq_masked (pit_init pic0) 1"
proof -
  have "irq_masked pic0 1" by (simp add: irq_masked_def)
  then show ?thesis using pit_init_divisor [of pic0] by auto
qed

end
