(* ===== verification/Dispatch.thy ===== *)
theory Dispatch
  imports Pit
begin

text \<open>
  How control enters the kernel: the system call linkage of
  \<^verbatim>\<open>student-distrib/system_call_asm.S\<close> with its jump table, and the exception handlers that the
  macro of \<^verbatim>\<open>student-distrib/exception_handler.c\<close> generates.
\<close>

section \<open>System calls\<close>

text \<open>
  How a system call ends: it returns to its caller, enters a new program, resumes the
  parent's pending \<open>execute\<close>, or follows a null control-block pointer.
\<close>

datatype call_result = Return i32 | Enter u32 | Resume i32 | Null_deref

fun halt_outcome :: "halt_result \<Rightarrow> call_result" where
  "halt_outcome (Resume_parent r) = Resume r"
| "halt_outcome (Restarted e) = Enter e"
| "halt_outcome Null_pcb = Null_deref"

fun exec_outcome :: "exec_result \<Rightarrow> call_result" where
  "exec_outcome (Ret r) = Return r"
| "exec_outcome (To_user e) = Enter e"

text \<open>The function at each index of \<open>jmp_table\<close>, called with the three words pushed from \<open>ebx\<close>, \<open>ecx\<close>, \<open>edx\<close>.\<close>

definition jmp_table ::
  "locals \<Rightarrow> ('e \<Rightarrow> 'a kernel_scheme \<Rightarrow> 'a kernel_scheme) \<Rightarrow> 'e list \<Rightarrow> u32 \<Rightarrow> u32 \<Rightarrow> u32 \<Rightarrow> u32 \<Rightarrow> 'a kernel_scheme
     \<Rightarrow> (call_result \<times> 'a kernel_scheme \<times> 'e list) option" where
  "jmp_table lo isr es i b c d s =
     (let ret = map_option (\<lambda>(r, s'). (Return r, s', es))
      in if i = 0 then map_option (\<lambda>(r, s'). (halt_outcome r, s', es)) (halt lo (ucast b) s)
         else if i = 1 then
           map_option (\<lambda>(r, s'). (exec_outcome r, s', es)) (execute lo (if b = 0 then None else Some (ptr (mem s) b)) s)
         else if i = 2 then map_option (\<lambda>(r, s', es'). (Return r, s', es')) (sys_read isr es b c d s)
         else if i = 3 then ret (sys_write b c d s)
         else if i = 4 then ret (sys_open b s)
         else if i = 5 then ret (sys_close b s)
         else if i = 6 then ret (getargs b c s)
         else if i = 7 then ret (Some (vidmap b s))
         else if i = 8 then ret (Some (set_handler b c s))
         else if i = 9 then ret (Some (sigreturn s))
         else None)"

text \<open>
  The linkage: the range check of the call number, the saved flags, the call, and for a call
  that returns the restored flags.
\<close>

definition system_call_asm ::
  "locals \<Rightarrow> ('e \<Rightarrow> 'a kernel_scheme \<Rightarrow> 'a kernel_scheme) \<Rightarrow> 'e list \<Rightarrow> u32 \<Rightarrow> u32 \<Rightarrow> u32 \<Rightarrow> u32 \<Rightarrow> 'a kernel_scheme
     \<Rightarrow> (call_result \<times> 'a kernel_scheme \<times> 'e list) option" where
  "system_call_asm lo isr es eax ebx ecx edx s =
     (if eax > 10 then Some (Return (- 1), s, es)
      else if eax < 1 then Some (Return (- 1), s, es)
      else
        case jmp_table lo isr es (eax - 1) ebx ecx edx s of
          None \<Rightarrow> None
        | Some (Return r, s', es') \<Rightarrow> Some (Return r, s'\<lparr>if_flag := if_flag s\<rparr>, es')
        | Some out \<Rightarrow> Some out)"

section \<open>Exceptions\<close>

text \<open>
  The macro's argument is a string literal and \<^verbatim>\<open>#error_msg\<close> quotes it again, so the string
  passed to \<open>printf\<close>, which the compiler places at \<open>msg\<close>, has the quotation marks in it.
  \<open>conv_buf\<close> is the conversion buffer of \<open>printf\<close>.
\<close>

datatype exception_macro =
    DE_exception | DB_exception | NMI_exception | BP_exception | OF_exception | BR_exception | UD_exception
  | NM_exception | DF_exception | CSO_exception | TS_exception | NP_exception | SS_exception | GP_exception
  | PF_exception | MF_exception | AC_exception | MC_exception | XF_exception

fun error_msg :: "exception_macro \<Rightarrow> string" where
  "error_msg DE_exception = ''Divide Error''"
| "error_msg DB_exception = ''RESERVED''"
| "error_msg NMI_exception = ''NMI Interrupt''"
| "error_msg BP_exception = ''Breakpoint Exception''"
| "error_msg OF_exception = ''Overflow Exception''"
| "error_msg BR_exception = ''BOUND Range Exceeded''"
| "error_msg UD_exception = ''Invalid Opcode''"
| "error_msg NM_exception = ''Device Not Available''"
| "error_msg DF_exception = ''Double Fault''"
| "error_msg CSO_exception = ''Coprocessor Segment Overrun''"
| "error_msg TS_exception = ''Invalid TSS''"
| "error_msg NP_exception = ''Segment Not Present''"
| "error_msg SS_exception = ''Stack-Segment Fault''"
| "error_msg GP_exception = ''General Protection''"
| "error_msg PF_exception = ''Page Fault''"
| "error_msg MF_exception = ''x87 FPU Floating-Point error''"
| "error_msg AC_exception = ''Alignment Check''"
| "error_msg MC_exception = ''Machine Check''"
| "error_msg XF_exception = ''SIMD Floating-Point Exception''"

definition quoted_msg :: "exception_macro \<Rightarrow> string" where
  "quoted_msg e = [CHR 0x22] @ error_msg e @ [CHR 0x22]"

definition exception_handler ::
  "locals \<Rightarrow> u32 \<Rightarrow> u32 \<Rightarrow> 'a kernel_scheme \<Rightarrow> (halt_result \<times> 'a kernel_scheme) option" where
  "exception_handler lo conv_buf msg s =
     (case printf conv_buf (''%s'' @ [CHR 0x0A]) [msg] s of
        None \<Rightarrow> None
      | Some (_, s') \<Rightarrow> halt lo 1 (s'\<lparr>global_halt := 1\<rparr>))"

section \<open>What the calls keep\<close>

text \<open>\<open>keeps s s'\<close>: the processes, the terminals' programs, the keyboard's lines and modifiers are as they were.\<close>

definition keeps :: "'a kernel_scheme \<Rightarrow> 'a kernel_scheme \<Rightarrow> bool" where
  "keeps s s' \<longleftrightarrow> (\<forall>a. same_links (pcbs s' a) (pcbs s a)) \<and> (\<forall>t. pcb (terminal s' t) = pcb (terminal s t)) \<and>
     pid s' = pid s \<and> process_counter s' = process_counter s \<and> curr_scheduler s' = curr_scheduler s \<and>
     current_terminal s' = current_terminal s \<and> typed s' = typed s \<and> mods_of s' = mods_of s \<and> mods_inv s' = mods_inv s"

lemma keeps_refl: "keeps s s"
  by (simp add: keeps_def same_links_def)

lemma keeps_trans: "keeps s t \<Longrightarrow> keeps t u \<Longrightarrow> keeps s u"
  by (simp add: keeps_def same_links_def)

lemma keeps_same_kb:
  assumes "same_kb s s'" "\<And>a. same_links (pcbs s' a) (pcbs s a)" "\<And>t. pcb (terminal s' t) = pcb (terminal s t)"
    "pid s' = pid s" "process_counter s' = process_counter s"
  shows "keeps s s'"
  using assms same_kb_inv [OF assms(1)] by (simp add: keeps_def same_kb_def)

lemma keeps_console: "console_step s s' \<Longrightarrow> keeps s s'"
  by (intro keeps_same_kb same_kb_console) (simp_all add: console_step_fields same_links_def)

lemma keeps_fd: "fd_step s s' \<Longrightarrow> keeps s s'"
  using fd_step_fields [of s s'] by (intro keeps_same_kb same_kb_fd_step) simp_all

lemma keeps_proc_table: "keeps s s' \<Longrightarrow> proc_table s ch \<Longrightarrow> proc_table s' ch"
proof -
  assume k: "keeps s s'" and pt: "proc_table s ch"
  have "chain (pcbs s') a ps = chain (pcbs s) a ps" for a ps
    using k by (intro chain_cong) (simp add: keeps_def)
  then show ?thesis using k pt by (simp add: proc_table_def keeps_def)
qed

lemma io_log_step: "console_step s (s\<lparr>io_log := l\<rparr>)"
  by (simp add: console_step_def)

lemma rtc_write_step: "console_step s (snd (rtc_write buf n s))"
  by (auto simp: rtc_write_def Let_def split_def outb_def inb_def console_step_refl io_log_step split: option.splits)

lemma rtc_open_step: "console_step s (snd (rtc_open s))"
  by (simp add: rtc_open_def Let_def split_def outb_def inb_def io_log_step)

lemma terminal_write_step: "console_step s (snd (terminal_write buf n s))"
proof -
  have "console_step s (fold (\<lambda>i s. putc (mem s (buf + of_nat i)) s) is s)" for "is"
    by (induction "is" arbitrary: s) (auto intro: console_step_refl console_step_trans putc_step)
  then show ?thesis by (simp add: terminal_write_def console_step_refl)
qed

lemma sys_open_cases:
  assumes "sys_open a s = Some (r, s')"
  obtains "s' = s" | fd ops ino where "ops \<in> {rtc_fops s, dir_fops s, file_fops s}" "open_as fd ops ino s = Some (r, s')"
  using assms by (auto simp: sys_open_def split: if_splits option.splits)

text \<open>
  A predicate of the kernel that the file calls keep. It has to survive console output, the
  two locks, the directory position, the three ways a descriptor is written, and the video
  mapping; a call that waits also lets the interrupts run that arrive meanwhile.
\<close>

locale call_invariant =
  fixes inv :: "'a kernel_scheme \<Rightarrow> bool"
  assumes inv_console: "inv s \<Longrightarrow> console_step s s' \<Longrightarrow> inv s'"
    and inv_rtc_flag: "inv s \<Longrightarrow> inv (s\<lparr>rtc_interrupt_occurred := x\<rparr>)"
    and inv_read_flag: "inv s \<Longrightarrow> inv (s\<lparr>readFlag := y\<rparr>)"
    and inv_index: "inv s \<Longrightarrow> inv (s\<lparr>directory_index := z\<rparr>)"
    and inv_seek: "inv s \<Longrightarrow> inv (set_fd i ((fd_entry i s)\<lparr>file_position := n\<rparr>) s)"
    and inv_close: "inv s \<Longrightarrow> inv (set_fd i ((fd_entry i s)\<lparr>inode := 0, file_position := 0, flags := 0\<rparr>) s)"
    and inv_open: "inv s \<Longrightarrow> ops \<in> {rtc_fops s, dir_fops s, file_fops s} \<Longrightarrow>
      inv (set_fd i \<lparr>pointer = ops, inode = n, file_position = 0, flags = 1\<rparr> s)"
    and inv_vidmap: "inv s \<Longrightarrow> inv (snd (vidmap a s))"
begin

lemma inv_mem: "inv s \<Longrightarrow> inv (s\<lparr>mem := m\<rparr>)"
  by (rule inv_console [OF _ console_step_mem])

lemma spin_inv:
  assumes "\<And>e s. inv s \<Longrightarrow> inv (isr e s)" and "inv s" and "spin locked isr es s = Some (s', es')"
  shows "inv s'"
proof -
  have "inv s \<Longrightarrow> inv (fold isr ds s)" for ds s by (induction ds arbitrary: s) (auto intro: assms(1))
  then show ?thesis using spin_Some [OF assms(3)] assms(2) by auto
qed

lemma terminal_read_inv:
  assumes "\<And>e s. inv s \<Longrightarrow> inv (isr e s)" and "inv s" and r: "terminal_read isr es buf n s = Some (r, s', es')"
  shows "inv s'"
proof -
  let ?s = "s\<lparr>readFlag := (readFlag s)(curr_scheduler s := LOCK)\<rparr>"
  have s: "inv ?s" using assms(2) by (rule inv_read_flag)
  consider "s' = ?s" | s1 m where "spin terminal_locked isr es ?s = Some (s1, es')" "s' = s1\<lparr>mem := m\<rparr>"
    using r by (auto simp: terminal_read_def terminal_read_loop_line Let_def split: option.splits if_splits)
  then show ?thesis using s spin_inv [where isr = isr, OF assms(1) s] inv_mem by cases simp_all
qed

lemma rtc_read_inv:
  assumes "\<And>e s. inv s \<Longrightarrow> inv (isr e s)" and "inv s" and r: "rtc_read isr es s = Some (r, s', es')"
  shows "inv s'"
proof -
  have "spin rtc_locked isr es (s\<lparr>rtc_interrupt_occurred := LOCK\<rparr>) = Some (s', es')"
    using r by (auto simp: rtc_read_def split: option.splits)
  then show ?thesis using spin_inv [where isr = isr, OF assms(1)] inv_rtc_flag [OF assms(2)] by blast
qed

lemma dir_read_inv:
  assumes "inv s" and "dir_read buf n s = Some (r, s')"
  shows "inv s'"
proof -
  consider "s' = s" | i where "s' = s\<lparr>directory_index := i\<rparr>" | m i where "s' = s\<lparr>mem := m, directory_index := i\<rparr>"
    using assms(2) by (auto simp: dir_read_def Let_def split: if_splits option.splits)
  then show ?thesis using assms(1) inv_index inv_mem by cases simp_all
qed

lemma read_op_inv:
  assumes isr: "\<And>e s. inv s \<Longrightarrow> inv (isr e s)" and "inv s" and r: "read_op isr es f fd buf n s = Some (r, s', es')"
  shows "inv s'"
proof (cases f)
  case Terminal_read
  then show ?thesis using r terminal_read_inv [where isr = isr, OF isr assms(2)] by (simp add: read_op_def)
next
  case Rtc_read
  then show ?thesis using r rtc_read_inv [where isr = isr, OF isr assms(2)] by (simp add: read_op_def)
next
  case Dir_read
  then show ?thesis using r dir_read_inv [OF assms(2)] by (auto simp: read_op_def split: option.splits)
next
  case File_read
  then have "s' = snd (file_read fd buf n s)" using r by (auto simp: read_op_def split: prod.splits)
  then show ?thesis using assms(2) by (simp add: file_read_def Let_def inv_console [OF _ read_data_console_step])
qed (use assms in \<open>auto simp: read_op_def invalid_read_op_def\<close>)

lemma sys_read_inv:
  assumes isr: "\<And>e s. inv s \<Longrightarrow> inv (isr e s)" and "inv s" and r: "sys_read isr es fd buf n s = Some (r, s', es')"
  shows "inv s'"
proof -
  consider "s' = s" | f s1 where "read_op isr es f fd buf n s = Some (r, s1, es')"
      "s' = set_fd (unat fd) ((fd_entry (unat fd) s1)\<lparr>file_position := file_position (fd_entry (unat fd) s1) + r\<rparr>) s1"
    using r by (auto simp: sys_read_def Let_def split: if_splits option.splits)
  then show ?thesis using assms(2) read_op_inv [where isr = isr, OF isr assms(2)] inv_seek by cases simp_all
qed

lemma sys_write_inv: "inv s \<Longrightarrow> sys_write fd buf n s = Some (r, s') \<Longrightarrow> inv s'"
  using inv_console [OF _ rtc_write_step, of s buf n] inv_console [OF _ terminal_write_step, of s buf n]
  by (auto simp: sys_write_def write_op_def invalid_write_op_def dir_write_def file_write_def
      split: if_splits write_fn.splits)

lemma open_as_inv:
  assumes "inv s" and "ops \<in> {rtc_fops s, dir_fops s, file_fops s}" and o: "open_as fd ops ino s = Some (r, s')"
  shows "inv s'"
proof -
  let ?s = "set_fd fd \<lparr>pointer = ops, inode = ino, file_position = 0, flags = 1\<rparr> s"
  have "s' = ?s \<or> s' = snd (rtc_open ?s)"
    using o by (auto simp: open_as_def Let_def open_op_def terminal_open_def dir_open_def file_open_def split: open_fn.splits)
  then show ?thesis using inv_open [OF assms(1,2)] inv_console [OF _ rtc_open_step] by blast
qed

lemma sys_open_inv:
  assumes "inv s" and "sys_open a s = Some (r, s')"
  shows "inv s'"
  using assms(2)
proof (cases rule: sys_open_cases)
  case 1
  then show ?thesis using assms(1) by simp
next
  case 2
  then show ?thesis using open_as_inv [OF assms(1)] by simp
qed

lemma sys_close_inv: "inv s \<Longrightarrow> sys_close fd s = Some (r, s') \<Longrightarrow> inv s'"
  using inv_close [of s "unat fd"]
  by (auto simp: sys_close_def Let_def close_op_def terminal_close_def rtc_close_def dir_close_def file_close_def
      split: if_splits close_fn.splits)

lemma getargs_inv: "inv s \<Longrightarrow> getargs buf n s = Some (r, s') \<Longrightarrow> inv s'"
  by (auto simp: getargs_def Let_def inv_mem split: if_splits option.splits)

text \<open>Through the jump table: \<open>halt\<close> and \<open>execute\<close> change processes, every other call keeps the predicate and returns.\<close>

lemma jmp_table_inv:
  assumes isr: "\<And>e s. inv s \<Longrightarrow> inv (isr e s)" and "inv s" and j: "jmp_table lo isr es i b c d s = Some (out, s', es')"
  shows "(\<exists>r. i = 0 \<and> halt lo (ucast b) s = Some (r, s') \<and> out = halt_outcome r) \<or>
    (\<exists>cmd r. i = 1 \<and> execute lo cmd s = Some (r, s') \<and> out = exec_outcome r) \<or>
    (\<exists>r. i \<noteq> 0 \<and> inv s' \<and> out = Return r)"
proof -
  have v: "vidmap b s = (r, t) \<Longrightarrow> inv t" for r t using inv_vidmap [OF assms(2), of b] by simp
  have rd: "sys_read isr es b c d s = Some (r, t, es'') \<Longrightarrow> inv t" for r t es''
    using isr assms(2) by (rule sys_read_inv)
  show ?thesis
    using j assms(2) unfolding jmp_table_def Let_def
    by (auto simp: set_handler_def sigreturn_def
        dest: rd sys_write_inv sys_open_inv sys_close_inv getargs_inv v
        split: if_splits prod.splits)
qed

end

lemma vidmap_same_kb: "same_kb s (snd (vidmap a s))"
  by (simp add: vidmap_def cli_def sti_def map_video_memory_def flush_tlb_def Let_def same_kb_def)

lemma vidmap_processes:
  "pcbs (snd (vidmap a s)) = pcbs s" "terminal (snd (vidmap a s)) = terminal s" "pid (snd (vidmap a s)) = pid s"
  "process_counter (snd (vidmap a s)) = process_counter s" "stdin_fops (snd (vidmap a s)) = stdin_fops s"
  "stdout_fops (snd (vidmap a s)) = stdout_fops s" "rtc_fops (snd (vidmap a s)) = rtc_fops s"
  "dir_fops (snd (vidmap a s)) = dir_fops s" "file_fops (snd (vidmap a s)) = file_fops s"
  by (simp_all add: vidmap_def cli_def sti_def map_video_memory_def flush_tlb_def Let_def)

interpretation kept: call_invariant "keeps u" for u :: "'a kernel_scheme"
proof (unfold_locales, goal_cases)
  case 1
  then show ?case using keeps_console keeps_trans by blast
next
  case (2 s x)
  have "keeps s (s\<lparr>rtc_interrupt_occurred := x\<rparr>)" by (rule keeps_same_kb) (simp_all add: same_kb_def same_links_def)
  with 2 show ?case by (rule keeps_trans)
next
  case (3 s y)
  have "keeps s (s\<lparr>readFlag := y\<rparr>)"
    by (simp add: keeps_def same_links_def typed_def mods_of_def mods_inv_def fun_eq_iff)
  with 3 show ?case by (rule keeps_trans)
next
  case (4 s z)
  have "keeps s (s\<lparr>directory_index := z\<rparr>)" by (rule keeps_same_kb) (simp_all add: same_kb_def same_links_def)
  with 4 show ?case by (rule keeps_trans)
next
  case 8
  then show ?case
    by (rule keeps_trans) (rule keeps_same_kb, simp_all add: vidmap_same_kb vidmap_processes same_links_def)
qed (use keeps_fd [OF set_fd_step] keeps_trans in blast)+

section \<open>Properties\<close>

text \<open>The effect of a call on the stacks of processes, for each way it can end.\<close>

definition call_effect :: "'a kernel_scheme \<Rightarrow> (u8 \<Rightarrow> i32 list) \<Rightarrow> call_result \<Rightarrow> 'a kernel_scheme \<Rightarrow> bool" where
  "call_effect s ch out s' \<longleftrightarrow>
     (let cs = curr_scheduler s in
      case out of
        Return _ \<Rightarrow> proc_table s' ch \<and> if_flag s' = if_flag s
      | Enter _ \<Rightarrow> (\<exists>p. p < 6 \<and> (p \<notin> set (all_procs ch) \<and> proc_table s' (ch(cs := p # ch cs)) \<or>
            length (ch cs) = 1 \<and> proc_table s' (ch(cs := [p]))))
      | Resume _ \<Rightarrow> 1 < length (ch cs) \<and> proc_table s' (ch(cs := tl (ch cs)))
      | Null_deref \<Rightarrow> length (ch cs) = 1 \<and> proc_table s' (ch(cs := [])))"

text \<open>Which calls can end in which way: only \<open>halt\<close> leaves the program, only \<open>halt\<close> and \<open>execute\<close> enter one.\<close>

definition call_kind :: "u32 \<Rightarrow> call_result \<Rightarrow> bool" where
  "call_kind eax out \<longleftrightarrow>
     (case out of Return _ \<Rightarrow> eax \<noteq> 1 | Enter _ \<Rightarrow> eax = 1 \<or> eax = 2 | Resume _ \<Rightarrow> eax = 1 | Null_deref \<Rightarrow> eax = 1)"

lemma call_kind_exec: "call_kind 2 (exec_outcome r)"
  by (cases r) (simp_all add: call_kind_def)

lemma halt_call_effect:
  assumes "proc_table s ch" "curr_scheduler s < 3" "closable s" "ch (curr_scheduler s) \<noteq> []"
    and h: "halt lo st s = Some (r, s')"
  shows "call_effect s ch (halt_outcome r) s'"
proof -
  obtain p ps where c: "ch (curr_scheduler s) = p # ps" using assms(4) by (cases "ch (curr_scheduler s)") auto
  show ?thesis
  proof (cases ps)
    case Nil
    then have c1: "ch (curr_scheduler s) = [p]" using c by simp
    from halt_base [OF assms(1,2) c1 h] consider e q where "r = Restarted e" "proc_table s' (ch(curr_scheduler s := [q]))"
      | "r = Null_pcb" "proc_table s' (ch(curr_scheduler s := []))" by blast
    then show ?thesis
    proof cases
      case 1
      have "chain (pcbs s') (pcb (terminal s' (curr_scheduler s))) ((ch(curr_scheduler s := [q])) (curr_scheduler s))"
        by (rule proc_table_chain [OF 1(2) assms(2)])
      then have "q < 6" by simp
      then show ?thesis using 1 c1 by (auto simp: call_effect_def Let_def)
    next
      case 2
      then show ?thesis using c1 by (simp add: call_effect_def Let_def)
    qed
  next
    case (Cons q qs)
    then have c2: "ch (curr_scheduler s) = p # q # qs" using c by simp
    from halt_pops [OF assms(1,2,3) c2, of lo st] h show ?thesis by (auto simp: call_effect_def c2 Let_def)
  qed
qed

lemma returned_effect:
  "keeps s s' \<Longrightarrow> proc_table s ch \<Longrightarrow> call_effect s ch (Return r) (s'\<lparr>if_flag := if_flag s\<rparr>)"
  using keeps_proc_table [of s s' ch] by (simp add: call_effect_def Let_def proc_table_def)



lemma printf_string:
  assumes "console_inv s" and "cstr (ptr (mem s) a) bs"
    and "\<And>i. i \<le> length bs \<Longrightarrow> \<not> in_page (page_of s (curr_scheduler s)) (a + of_nat i)"
  shows "printf cb (''%s'' @ [CHR 0x0A]) [a] s = Some (3, fold putc (bs @ [NEWLINE]) s)"
  using puts_cstr [OF assms] by (simp add: printf_def bytes_of_def)

lemma closable_console: "console_step s s' \<Longrightarrow> closable s' = closable s"
  by (simp add: closable_def fd_entry_def cur_pcb_def cur_pcb_addr_def console_step_fields)

text \<open>C26. An exception in a program started by another one is reported on the program's terminal and ends the program
  only: the message, with its quotation marks, and a newline are typed, the program is popped
  and its parent's \<open>execute\<close> returns 256, with the exception flag reset.\<close>

theorem exception_ends_program:
  assumes "proc_table s ch" and "curr_scheduler s < 3" and "closable s" and "ch (curr_scheduler s) = p # q # ps"
    and "console_inv s" and "cstr (ptr (mem s) msg) (bytes_of (quoted_msg e))"
    and "\<forall>i \<le> length (quoted_msg e). \<not> in_page (page_of s (curr_scheduler s)) (msg + of_nat i)"
  shows "\<exists>s1 s'. exception_handler lo conv_buf msg s = halt lo 1 (s1\<lparr>global_halt := 1\<rparr>) \<and>
    tty_of s1 (curr_scheduler s) = fold tty_putc (bytes_of (quoted_msg e) @ [NEWLINE]) (tty_of s (curr_scheduler s)) \<and>
    halt lo 1 (s1\<lparr>global_halt := 1\<rparr>) = Some (Resume_parent 256, s') \<and> global_halt s' = 0 \<and>
    proc_table s' (ch(curr_scheduler s := q # ps)) \<and> page_directory s' 32 = user_pde q"
proof -
  let ?bs = "bytes_of (quoted_msg e)"
  let ?s1 = "fold putc (?bs @ [NEWLINE]) s"
  have "length ?bs = length (quoted_msg e)" by (simp add: bytes_of_def)
  then have pr: "printf conv_buf (''%s'' @ [CHR 0x0A]) [msg] s = Some (3, ?s1)"
    using assms(7) by (intro printf_string [OF assms(5,6)]) auto
  have step: "console_step s ?s1" by (rule fold_putc_step)
  note f = console_step_fields [OF step]
  have "proc_table (?s1\<lparr>global_halt := 1\<rparr>) ch"
    using keeps_proc_table [OF keeps_console [OF step] assms(1)] by (simp add: proc_table_def)
  moreover have "closable (?s1\<lparr>global_halt := 1\<rparr>)"
    using assms(3) closable_console [OF step] by (simp add: closable_def fd_entry_def cur_pcb_def cur_pcb_addr_def)
  ultimately obtain s' where h: "halt lo 1 (?s1\<lparr>global_halt := 1\<rparr>) = Some (Resume_parent 256, s')" "global_halt s' = 0"
    "proc_table s' (ch(curr_scheduler s := q # ps))" "page_directory s' 32 = user_pde q"
    using halt_pops [of "?s1\<lparr>global_halt := 1\<rparr>" ch p q ps lo 1] assms(2,4) f(4) by auto
  have "exception_handler lo conv_buf msg s = halt lo 1 (?s1\<lparr>global_halt := 1\<rparr>)" 
    unfolding exception_handler_def pr by simp
  moreover have "tty_of ?s1 (curr_scheduler s) = fold tty_putc (?bs @ [NEWLINE]) (tty_of s (curr_scheduler s))"
    using own_tty.view_fold [OF assms(5), of "?bs @ [NEWLINE]"] by (simp only: fold_putc_frame)
  ultimately show ?thesis using h by blast
qed

text \<open>The two-process kernel with the message of a page fault in memory.\<close>

definition sample_fault :: kernel where
  "sample_fault = sample_two\<lparr>mem := store_bytes (mem sample_two) 0x200000 (bytes_of (quoted_msg PF_exception) @ [0])\<rparr>"

lemma bytes_of_PF: "bytes_of (quoted_msg PF_exception) = [0x22, 0x50, 0x61, 0x67, 0x65, 0x20, 0x46, 0x61, 0x75, 0x6C, 0x74, 0x22]"
  by (simp add: bytes_of_def quoted_msg_def)

lemma cstr_store_bytes:
  assumes "0 \<notin> set bs" and "length bs < 2 ^ 32"
  shows "cstr (ptr (store_bytes m a (bs @ [0])) a) bs"
proof -
  have "store_bytes m a (bs @ [0]) (a + of_nat i) = (bs @ [0]) ! i" if "i \<le> length bs" for i
    using that assms(2) by (intro store_bytes_inside) auto
  then show ?thesis using assms(1) by (auto simp: cstr_def ptr_def nth_append)
qed

lemma sample_fault_msg: "cstr (ptr (mem sample_fault) 0x200000) (bytes_of (quoted_msg PF_exception))"
proof -
  have m: "mem sample_fault = store_bytes (mem sample_two) 0x200000 (bytes_of (quoted_msg PF_exception) @ [0])"
    by (simp add: sample_fault_def)
  have "0 \<notin> set (bytes_of (quoted_msg PF_exception))" "length (bytes_of (quoted_msg PF_exception)) < 2 ^ 32"
    by (simp_all add: bytes_of_PF)
  then show ?thesis unfolding m by (rule cstr_store_bytes)
qed

theorem exception_ends_program_witness:
  "\<exists>s'. exception_handler sample_locals 0x300000 0x200000 sample_fault = Some (Resume_parent 256, s') \<and>
     proc_table s' ((\<lambda>_. [])(0 := [0]))"
proof -
  have cs: "curr_scheduler sample_fault = 0" by (simp add: sample_fault_def sample_two_def sample_kernel_fields)
  have "proc_table sample_fault ((\<lambda>_. [])(0 := [1, 0]))" "closable sample_fault"
    using sample_two_table sample_two_closable
    by (simp_all add: proc_table_def closable_def fd_entry_def cur_pcb_def cur_pcb_addr_def sample_fault_def)
  moreover have "console_inv sample_fault"
    by (simp add: console_inv_def sample_fault_def sample_two_def sample_kernel_fields cursor_ok_def term_pos_def)
  moreover have "\<not> in_page (page_of sample_fault (curr_scheduler sample_fault)) (0x200000 + of_nat i)"
    if "i \<le> length (quoted_msg PF_exception)" for i
  proof
    assume "in_page (page_of sample_fault (curr_scheduler sample_fault)) (0x200000 + of_nat i)"
    moreover have "page_of sample_fault (curr_scheduler sample_fault) = VIDEO"
      by (simp add: page_of_def sample_fault_def sample_two_def sample_kernel_fields)
    ultimately obtain j where j: "j < 4000" "(0x200000 :: u32) + of_nat i = VIDEO + of_nat j" unfolding in_page_def by auto
    have "i < 100" using that by (simp add: quoted_msg_def)
    then have "unat ((0x200000 :: u32) + of_nat i) = 0x200000 + i" using unat_run [of "0x200000" 100 i] by simp
    moreover have "unat (VIDEO + of_nat j) = 753664 + j" using unat_run [of VIDEO 4000 j] j(1) by simp
    ultimately show False using j(1) unfolding j(2) by linarith
  qed
  ultimately show ?thesis
    using exception_ends_program [OF _ _ _ _ _ sample_fault_msg, of "(\<lambda>_. [])(0 := [1, 0])" 1 0 "[]" sample_locals "0x300000"]
    by (auto simp: cs)
qed

end
