(* ===== verification/Idt.thy ===== *)
theory Idt
  imports Dispatch
begin

text \<open>
  The descriptors of \<^verbatim>\<open>student-distrib/x86_desc.h\<close> and the interrupt descriptor table
  that \<^verbatim>\<open>student-distrib/idt.c\<close> fills. Where the linker puts the assembly linkages is a
  parameter, the function \<open>link\<close>.
\<close>

section \<open>Descriptors\<close>

record idt_desc_t =
  offset_15_00 :: u16
  seg_selector :: u16
  reserved4 :: u8
  reserved3 :: "1 word"
  reserved2 :: "1 word"
  reserved1 :: "1 word"
  gate_size :: "1 word"
  reserved0 :: "1 word"
  dpl :: "2 word"
  present :: "1 word"
  offset_31_16 :: u16

definition SET_IDT_ENTRY :: "u32 \<Rightarrow> idt_desc_t \<Rightarrow> idt_desc_t" where
  "SET_IDT_ENTRY handler str =
     str\<lparr>offset_31_16 := ucast (drop_bit 16 (handler AND 0xFFFF0000)),
         offset_15_00 := ucast (handler AND 0xFFFF)\<rparr>"

record seg_desc_t =
  seg_lim_15_00 :: u16
  base_15_00 :: u16
  base_23_16 :: u8
  seg_type :: "4 word"
  seg_sys :: "1 word"
  seg_dpl :: "2 word"
  seg_present :: "1 word"
  seg_lim_19_16 :: "4 word"
  seg_avail :: "1 word"
  seg_reserved :: "1 word"
  seg_opsize :: "1 word"
  seg_granularity :: "1 word"
  base_31_24 :: u8

text \<open>\<open>SET_LDT_PARAMS\<close> and \<open>SET_TSS_PARAMS\<close> are the same assignments.\<close>

definition SET_SEG_PARAMS :: "u32 \<Rightarrow> u32 \<Rightarrow> seg_desc_t \<Rightarrow> seg_desc_t" where
  "SET_SEG_PARAMS addr lim str =
     str\<lparr>base_31_24 := ucast (drop_bit 24 (addr AND 0xFF000000)),
         base_23_16 := ucast (drop_bit 16 (addr AND 0x00FF0000)),
         base_15_00 := ucast (addr AND 0x0000FFFF),
         seg_lim_19_16 := ucast (drop_bit 16 (lim AND 0x000F0000)),
         seg_lim_15_00 := ucast (lim AND 0x0000FFFF)\<rparr>"

section \<open>The interrupt descriptor table\<close>

datatype linkage =
    de_asm | db_asm | nmi_asm | bp_asm | of_asm | br_asm | ud_asm | nm_asm | df_asm | cso_asm | ts_asm | np_asm
  | ss_asm | gp_asm | pf_asm | mf_asm | ac_asm | mc_asm | xf_asm | keyboard_asm | rtc_asm | syscall_asm | pit_asm

definition fill_entry :: "nat \<Rightarrow> idt_desc_t \<Rightarrow> idt_desc_t" where
  "fill_entry i d =
     d\<lparr>present := 1,
       dpl := (if i = 0x80 then 3 else 0),
       gate_size := 1,
       seg_selector := 0x0010,
       reserved0 := 0,
       reserved1 := 1,
       reserved2 := 1,
       reserved3 := (if i \<ge> 0x20 \<and> i \<le> 0x2F then 0 else 1),
       reserved4 := 0\<rparr>"

definition idt_handlers :: "(nat \<times> linkage) list" where
  "idt_handlers =
     [(0, de_asm), (1, db_asm), (2, nmi_asm), (3, bp_asm), (4, of_asm), (5, br_asm), (6, ud_asm), (7, nm_asm),
      (8, df_asm), (9, cso_asm), (10, ts_asm), (11, np_asm), (12, ss_asm), (13, gp_asm), (14, pf_asm), (16, mf_asm),
      (17, ac_asm), (18, mc_asm), (19, xf_asm), (0x21, keyboard_asm), (0x28, rtc_asm), (0x80, syscall_asm),
      (0x20, pit_asm)]"

definition idt_init :: "(linkage \<Rightarrow> u32) \<Rightarrow> (nat \<Rightarrow> idt_desc_t) \<Rightarrow> nat \<Rightarrow> idt_desc_t" where
  "idt_init link idt0 =
     (let idt = fold (\<lambda>i t. t(i := fill_entry i (t i))) [0..<256] idt0
      in fold (\<lambda>(i, h) t. t(i := SET_IDT_ENTRY (link h) (t i))) idt_handlers idt)"

section \<open>Reading the descriptors as the processor does\<close>

definition gate_offset :: "idt_desc_t \<Rightarrow> u32" where
  "gate_offset d = push_bit 16 (ucast (offset_31_16 d)) OR ucast (offset_15_00 d)"

text \<open>The access byte at offset 5 of a gate.\<close>

definition gate_access :: "idt_desc_t \<Rightarrow> u8" where
  "gate_access d = ucast (reserved3 d) OR push_bit 1 (ucast (reserved2 d)) OR push_bit 2 (ucast (reserved1 d)) OR
     push_bit 3 (ucast (gate_size d)) OR push_bit 4 (ucast (reserved0 d)) OR push_bit 5 (ucast (dpl d)) OR
     push_bit 7 (ucast (present d))"

definition seg_base :: "seg_desc_t \<Rightarrow> u32" where
  "seg_base d = push_bit 24 (ucast (base_31_24 d)) OR push_bit 16 (ucast (base_23_16 d)) OR ucast (base_15_00 d)"

definition seg_limit :: "seg_desc_t \<Rightarrow> u32" where
  "seg_limit d = push_bit 16 (ucast (seg_lim_19_16 d)) OR ucast (seg_lim_15_00 d)"

text \<open>The masks and shifts of the macros cut bit fields out of a word.\<close>

lemma mask_fields:
  fixes w :: u32
  shows "w AND 0xFFFF = take_bit 16 w" "drop_bit 16 (w AND 0xFFFF0000) = drop_bit 16 w"
    "drop_bit 24 (w AND 0xFF000000) = drop_bit 24 w" "drop_bit 16 (w AND 0x00FF0000) = take_bit 8 (drop_bit 16 w)"
    "drop_bit 16 (w AND 0x000F0000) = take_bit 4 (drop_bit 16 w)"
proof -
  have m: "(0xFFFF :: u32) = mask 16" "(0xFFFF0000 :: u32) = push_bit 16 (mask 16)" "(0xFF000000 :: u32) = push_bit 24 (mask 8)"
    "(0x00FF0000 :: u32) = push_bit 16 (mask 8)" "(0x000F0000 :: u32) = push_bit 16 (mask 4)"
    by (simp_all add: mask_eq_exp_minus_1 push_bit_eq_mult)
  show "w AND 0xFFFF = take_bit 16 w" unfolding m take_bit_eq_mask ..
  show "drop_bit 16 (w AND 0xFFFF0000) = drop_bit 16 w" unfolding m by (rule bit_word_eqI) (auto simp: bit_simps dest: bit_imp_le_length)
  show "drop_bit 24 (w AND 0xFF000000) = drop_bit 24 w" unfolding m by (rule bit_word_eqI) (auto simp: bit_simps dest: bit_imp_le_length)
  show "drop_bit 16 (w AND 0x00FF0000) = take_bit 8 (drop_bit 16 w)" unfolding m by (rule bit_word_eqI) (auto simp: bit_simps dest: bit_imp_le_length)
  show "drop_bit 16 (w AND 0x000F0000) = take_bit 4 (drop_bit 16 w)" unfolding m by (rule bit_word_eqI) (auto simp: bit_simps dest: bit_imp_le_length)
qed

lemma gate_offset_set: "gate_offset (SET_IDT_ENTRY h d) = h"
  unfolding gate_offset_def SET_IDT_ENTRY_def mask_fields by (rule bit_word_eqI) (auto simp: bit_simps)

lemma seg_base_set: "seg_base (SET_SEG_PARAMS a l d) = a"
proof (rule bit_word_eqI)
  fix n assume "n < LENGTH(32)"
  then consider "n < 16" | "16 \<le> n" "n < 24" | "24 \<le> n" "n < 32" by fastforce
  then show "bit (seg_base (SET_SEG_PARAMS a l d)) n = bit a n"
    unfolding seg_base_def SET_SEG_PARAMS_def mask_fields by cases (auto simp: bit_simps)
qed

lemma seg_limit_set: "seg_limit (SET_SEG_PARAMS a l d) = take_bit 20 l"
proof (rule bit_word_eqI)
  fix n assume "n < LENGTH(32)"
  then consider "n < 16" | "16 \<le> n" "n < 20" | "20 \<le> n" "n < 32" by fastforce
  then show "bit (seg_limit (SET_SEG_PARAMS a l d)) n = bit (take_bit 20 l) n"
    unfolding seg_limit_def SET_SEG_PARAMS_def mask_fields by cases (auto simp: bit_simps)
qed

section \<open>The table after initialisation\<close>

lemma fold_fill: "fold (\<lambda>i t. t(i := f i (t i))) [0..<n] t v = (if v < n then f v (t v) else t v)"
  by (induction n) (auto simp: less_Suc_eq)

lemma fold_set_entries:
  "distinct (map fst hs) \<Longrightarrow>
     fold (\<lambda>(i, h) t. t(i := g h (t i))) hs t v = (case map_of hs v of None \<Rightarrow> t v | Some h \<Rightarrow> g h (t v))"
proof (induction hs arbitrary: t)
  case (Cons p hs)
  obtain i h where p: "p = (i, h)" by fastforce
  have "map_of hs i = None" using Cons.prems p by (simp add: map_of_eq_None_iff)
  with Cons p show ?case by (auto split: option.splits)
qed simp

lemma idt_init_entry:
  "v < 256 \<Longrightarrow> idt_init link idt0 v =
     (case map_of idt_handlers v of None \<Rightarrow> fill_entry v (idt0 v) | Some h \<Rightarrow> SET_IDT_ENTRY (link h) (fill_entry v (idt0 v)))"
proof -
  assume "v < 256"
  have d: "distinct (map fst idt_handlers)" by (simp add: idt_handlers_def)
  show ?thesis
    using \<open>v < 256\<close> unfolding idt_init_def Let_def fold_set_entries [OF d, of "\<lambda>h. SET_IDT_ENTRY (link h)"] fold_fill by simp
qed

lemma gate_access_fill:
  "gate_access (fill_entry v d) = (if v = 0x80 then 0xEF else if 0x20 \<le> v \<and> v \<le> 0x2F then 0x8E else 0x8F)"
  by (simp add: gate_access_def fill_entry_def)

lemma SET_IDT_ENTRY_fields:
  "gate_access (SET_IDT_ENTRY h d) = gate_access d" "seg_selector (SET_IDT_ENTRY h d) = seg_selector d"
  by (simp_all add: gate_access_def SET_IDT_ENTRY_def)

section \<open>Properties\<close>

text \<open>\<open>idt_init\<close> makes every one of the 256 gates a present 32-bit gate into the kernel's code segment: an
  interrupt gate (interrupts off) for the sixteen device vectors, a trap gate otherwise, and
  only the system call gate open to user programs. Each vector with a handler points to it;
  a vector without one, such as 15, keeps the offset it had, 0 in the initial table, and is
  present all the same.\<close>

theorem idt_init_gates:
  assumes "v < 256"
  shows "gate_access (idt_init link idt0 v) = (if v = 0x80 then 0xEF else if 0x20 \<le> v \<and> v \<le> 0x2F then 0x8E else 0x8F) \<and>
    seg_selector (idt_init link idt0 v) = 0x0010 \<and>
    gate_offset (idt_init link idt0 v) =
      (case map_of idt_handlers v of Some h \<Rightarrow> link h | None \<Rightarrow> gate_offset (idt0 v))"
proof -
  have "seg_selector (fill_entry v (idt0 v)) = 0x0010" "gate_offset (fill_entry v (idt0 v)) = gate_offset (idt0 v)"
    by (simp_all add: fill_entry_def gate_offset_def)
  then show ?thesis
    unfolding idt_init_entry [OF assms]
    by (cases "map_of idt_handlers v") (simp_all add: gate_access_fill SET_IDT_ENTRY_fields gate_offset_set)
qed

theorem idt_init_gates_witness:
  "gate_offset (idt_init (\<lambda>_. 0x00401234) (\<lambda>_. \<lparr>offset_15_00 = 0, seg_selector = 0, reserved4 = 0, reserved3 = 0, reserved2 = 0,
     reserved1 = 0, gate_size = 0, reserved0 = 0, dpl = 0, present = 0, offset_31_16 = 0\<rparr>) 0x80) = 0x00401234"
  using idt_init_gates [of "0x80" "\<lambda>_. 0x00401234"] by (simp add: idt_handlers_def)

text \<open>The segment macros store a base address and a limit so that the processor reads them back: the
  descriptor's base is the address and its limit the low twenty bits of the limit given.\<close>

theorem segment_roundtrip:
  "seg_base (SET_SEG_PARAMS addr lim d) = addr \<and> seg_limit (SET_SEG_PARAMS addr lim d) = take_bit 20 lim"
  by (simp add: seg_base_set seg_limit_set)

end
