(* ===== verification/Printf_Spec.thy ===== *)
theory Printf_Spec
  imports Console_Spec Lib_Itoa
begin

text \<open>
  What \<open>printf\<close> prints. \<open>render\<close> is the text of a format with its arguments; \<open>printf\<close> is
  shown to type exactly that text on the scheduled terminal, and to write nothing but the
  screen page and its conversion buffer.
\<close>

section \<open>The specification\<close>

definition pad_hex :: "u8 list \<Rightarrow> u8 list" where
  "pad_hex cs = replicate (8 - length cs) 0x30 @ cs"

definition conv_text :: "(u32 \<Rightarrow> u8 list option) \<Rightarrow> u8 \<Rightarrow> bool \<Rightarrow> u32 \<Rightarrow> u8 list option" where
  "conv_text str c alt a =
     (if c = 0x78 then Some (if alt then pad_hex (numeral_str 16 (unat a)) else numeral_str 16 (unat a))
      else if c = 0x75 then Some (numeral_str 10 (unat a))
      else if c = 0x64 then Some (if sint a < 0 then 0x2D # numeral_str 10 (unat (- a)) else numeral_str 10 (unat a))
      else if c = 0x63 then Some [ucast a]
      else str a)"

text \<open>\<open>str\<close> gives the strings at the addresses where there is one; the flags are those of \<^const>\<open>printf_loop\<close>.\<close>

fun render :: "(u32 \<Rightarrow> u8 list option) \<Rightarrow> u8 list \<Rightarrow> bool \<Rightarrow> bool \<Rightarrow> u32 list \<Rightarrow> u8 list option" where
  "render str [] False alt args = Some []"
| "render str (c # fmt) False alt args =
     (if c = 0x25 then render str fmt True False args else map_option ((#) c) (render str fmt False False args))"
| "render str [] True alt args = None"
| "render str (c # fmt) True alt args =
     (if c = 0x25 then map_option ((#) 0x25) (render str fmt False False args)
      else if c = 0x23 then render str fmt True True args
      else if c \<in> {0x78, 0x75, 0x64, 0x63, 0x73} then
        (case args of
           [] \<Rightarrow> None
         | a # args' \<Rightarrow>
             (case conv_text str c alt a of
                None \<Rightarrow> None
              | Some cs \<Rightarrow> map_option ((@) cs) (render str fmt False False args')))
      else render str fmt False False args)"

section \<open>The conversions\<close>

text \<open>The conversion buffer lies outside the pages of the terminals.\<close>

definition in_conv :: "u32 \<Rightarrow> u32 \<Rightarrow> bool" where
  "in_conv cb x \<longleftrightarrow> (\<exists>i < 64. x = cb + of_nat i)"

definition conv_ok :: "u32 \<Rightarrow> 'a console_scheme \<Rightarrow> bool" where
  "conv_ok cb s \<longleftrightarrow> console_inv s \<and> (\<forall>t < 3. \<forall>x. in_conv cb x \<longrightarrow> \<not> in_page (page_of s t) x)"

lemma conv_ok_own: "conv_ok cb s \<Longrightarrow> in_conv cb x \<Longrightarrow> \<not> in_page (page_of s (curr_scheduler s)) x"
  by (simp add: conv_ok_def console_inv_def)

lemma in_convI: "i < 64 \<Longrightarrow> in_conv cb (cb + of_nat i)"
  by (auto simp: in_conv_def)

lemma conv_ok_mem: "conv_ok cb (s\<lparr>mem := m\<rparr>) = conv_ok cb s"
  by (simp add: conv_ok_def console_inv_def page_of_def)

text \<open>Typing a string that the conversion has put into the buffer.\<close>

lemma puts_conv:
  assumes ok: "conv_ok cb s" and str: "cstr (ptr m (cb + of_nat k)) cs" and fit: "k + length cs < 64"
  shows "puts (cb + of_nat k) (s\<lparr>mem := m\<rparr>) = Some (of_nat (length cs), fold putc cs (s\<lparr>mem := m\<rparr>))"
proof (rule puts_cstr)
  show "console_inv (s\<lparr>mem := m\<rparr>)" using ok by (simp add: conv_ok_def console_inv_def)
  show "cstr (ptr (mem (s\<lparr>mem := m\<rparr>)) (cb + of_nat k)) cs" using str by simp
  fix i assume "i \<le> length cs"
  then have "in_conv cb (cb + of_nat (k + i))" using fit by (intro in_convI) simp
  then show "\<not> in_page (page_of (s\<lparr>mem := m\<rparr>) (curr_scheduler (s\<lparr>mem := m\<rparr>))) (cb + of_nat k + of_nat i)"
    using conv_ok_own [OF ok] by (simp add: page_of_def add.assoc)
qed

definition converted :: "u32 \<Rightarrow> u8 list \<Rightarrow> 'a console_scheme \<Rightarrow> 'a console_scheme \<Rightarrow> bool" where
  "converted cb cs s s' \<longleftrightarrow> (\<exists>m. s' = fold putc cs (s\<lparr>mem := m\<rparr>) \<and> (\<forall>x. \<not> in_conv cb x \<longrightarrow> m x = mem s x))"

lemma put_number_converted:
  assumes "conv_ok cb s" and "radix = 10 \<or> radix = 16"
  shows "\<exists>s'. put_number cb v radix s = Some s' \<and> converted cb (numeral_str (unat radix) (unat v)) s s'"
proof -
  let ?cs = "numeral_str (unat radix) (unat v)"
  have l: "length ?cs \<le> 10" using assms(2) numeral_str_length [of v] by auto
  obtain m where m: "itoa (mem s) v cb radix = Some m" "cstr (ptr m cb) ?cs"
    "\<forall>x. (\<forall>i \<le> length ?cs. x \<noteq> cb + of_nat i) \<longrightarrow> m x = mem s x"
    using itoa_numeral [of radix "mem s" v cb] assms(2) by auto
  have "puts cb (s\<lparr>mem := m\<rparr>) = Some (of_nat (length ?cs), fold putc ?cs (s\<lparr>mem := m\<rparr>))"
    using puts_conv [OF assms(1), of m 0 ?cs] m(2) l by simp
  moreover have "m x = mem s x" if "\<not> in_conv cb x" for x
    using m(3) that l by (auto simp: in_conv_def)
  ultimately show ?thesis using m(1) by (auto simp: put_number_def converted_def)
qed

lemma put_signed_converted:
  assumes "conv_ok cb s"
  shows "\<exists>s'. put_signed cb v s = Some s' \<and>
    converted cb (if sint v < 0 then 0x2D # numeral_str 10 (unat (- v)) else numeral_str 10 (unat v)) s s'"
proof (cases "sint v < 0")
  case False
  then show ?thesis using put_number_converted [OF assms, of 10 v] by (simp add: put_signed_def)
next
  case True
  let ?cs = "numeral_str 10 (unat (- v))"
  have l: "length ?cs \<le> 10" by (rule numeral_str_length)
  obtain m where m: "itoa ((mem s)(cb := 0x2D)) (- v) (cb + 1) 10 = Some m" "cstr (ptr m (cb + 1)) ?cs"
    "\<forall>x. (\<forall>i \<le> length ?cs. x \<noteq> cb + 1 + of_nat i) \<longrightarrow> m x = ((mem s)(cb := 0x2D)) x"
    using itoa_numeral [of 10 "(mem s)(cb := 0x2D)" "- v" "cb + 1"] by auto
  have "cb \<noteq> cb + 1 + of_nat i" if "i \<le> length ?cs" for i
  proof -
    have "(of_nat (Suc i) :: u32) \<noteq> of_nat 0" using that l by (subst of_nat_u32_inj) auto
    then show ?thesis by (simp add: add.assoc)
  qed
  then have "m cb = 0x2D" using m(3) by simp
  moreover have "(0x2D :: u8) \<noteq> 0" by simp
  ultimately have "cstr (ptr m (cb + of_nat 0)) (0x2D # ?cs)"
    using m(2) by (simp add: cstr_def ptr_def All_less_Suc2 ac_simps)
  from puts_conv [OF assms this] have p: "puts cb (s\<lparr>mem := m\<rparr>) = Some (of_nat (length (0x2D # ?cs)), fold putc (0x2D # ?cs) (s\<lparr>mem := m\<rparr>))"
    using l by simp
  have "m x = mem s x" if "\<not> in_conv cb x" for x
  proof -
    have "x \<noteq> cb + of_nat i" if "i < 64" for i using \<open>\<not> in_conv cb x\<close> that by (auto simp: in_conv_def)
    from this [of 0] this [of "Suc i" for i] have "x \<noteq> cb" "\<And>i. i \<le> length ?cs \<Longrightarrow> x \<noteq> cb + 1 + of_nat i"
      using l by (simp_all add: add.assoc)
    then show ?thesis using m(3) by simp
  qed
  then have "converted cb (0x2D # ?cs) s (fold putc (0x2D # ?cs) (s\<lparr>mem := m\<rparr>))" unfolding converted_def by blast
  then show ?thesis using True m(1) p by (simp add: put_signed_def)
qed

lemma put_hex_padded_converted:
  assumes "conv_ok cb s"
  shows "\<exists>s'. put_hex_padded cb v s = Some s' \<and> converted cb (pad_hex (numeral_str 16 (unat v))) s s'"
proof -
  let ?cs = "numeral_str 16 (unat v)"
  let ?L = "length ?cs"
  have l: "?L \<le> 8" by (rule numeral_str_length)
  have l32: "unat (of_nat ?L :: u32) = ?L" using l by (simp add: unat_of_nat take_bit_nat_eq_self)
  obtain m where m: "itoa (mem s) v (cb + 8) 16 = Some m" "cstr (ptr m (cb + 8)) ?cs"
    "\<forall>x. (\<forall>i \<le> ?L. x \<noteq> cb + 8 + of_nat i) \<longrightarrow> m x = mem s x"
    using itoa_numeral [of 16 "mem s" v "cb + 8"] by auto
  define m1 where "m1 = fold (\<lambda>i m. m(cb + of_nat i := 0x30)) [?L..<8] m"
  have zeros: "fold (\<lambda>i m. m(cb + of_nat i := 0x30)) [a..<b] m (cb + of_nat j) = (if a \<le> j \<and> j < b then 0x30 else m (cb + of_nat j))"
    if "j < 64" "b \<le> 64" for a b j
    using that by (induction b) (auto simp: of_nat_u32_inj less_Suc_eq)
  have m1: "m1 (cb + of_nat j) = (if ?L \<le> j \<and> j < 8 then 0x30 else m (cb + of_nat j))" if "j < 64" for j
    unfolding m1_def using zeros [OF that] by simp
  have eight: "cb + 8 + of_nat i = cb + of_nat (8 + i)" for i by (simp add: ac_simps)
  have digit: "m (cb + of_nat (8 + i)) = (?cs @ [0]) ! i" if "i \<le> ?L" for i
    using m(2) that unfolding cstr_def ptr_def eight by (auto simp: nth_append le_less)
  have "cstr (ptr m1 (cb + of_nat ?L)) (pad_hex ?cs)"
  proof -
    have at: "m1 (cb + of_nat (?L + i)) = (pad_hex ?cs @ [0]) ! i" if "i \<le> 8" for i
    proof (cases "?L + i < 8")
      case True
      then have "i < 8 - ?L" by simp
      then show ?thesis using m1 [of "?L + i"] l True by (simp add: pad_hex_def nth_append)
    next
      case False
      then have "?L + i = 8 + (?L + i - 8)" "?L + i - 8 \<le> ?L" using that l by simp_all
      then have "m1 (cb + of_nat (?L + i)) = (?cs @ [0]) ! (?L + i - 8)"
        using m1 [of "?L + i"] digit [of "?L + i - 8"] False l that by simp
      moreover have "i - (8 - ?L) = ?L + i - 8" "\<not> i < 8 - ?L" using False l by linarith+
      ultimately show ?thesis unfolding pad_hex_def append_assoc by (subst nth_append) simp
    qed
    have "length (pad_hex ?cs) = 8" using l by (simp add: pad_hex_def)
    moreover have "0 \<notin> set (pad_hex ?cs)" using m(2) by (simp add: pad_hex_def cstr_def)
    ultimately show ?thesis using at at [of 8] by (auto simp: cstr_def ptr_def nth_append add.assoc)
  qed
  from puts_conv [OF assms this]
  have "puts (cb + of_nat ?L) (s\<lparr>mem := m1\<rparr>) = Some (8, fold putc (pad_hex ?cs) (s\<lparr>mem := m1\<rparr>))"
    using l by (simp add: pad_hex_def)
  moreover have "strlen (ptr m (cb + 8)) = Some (of_nat ?L)" using m(2) by (rule strlen_cstr)
  ultimately have "put_hex_padded cb v s = Some (fold putc (pad_hex ?cs) (s\<lparr>mem := m1\<rparr>))"
    unfolding put_hex_padded_def m(1) by (simp add: l32 m1_def)
  moreover have "m1 x = mem s x" if "\<not> in_conv cb x" for x
  proof -
    have x: "x \<noteq> cb + of_nat i" if "i < 64" for i using \<open>\<not> in_conv cb x\<close> that by (auto simp: in_conv_def)
    have "fold (\<lambda>i m. m(cb + of_nat i := 0x30)) [a..<b] m x = m x" if "b \<le> 64" for a b
      using that x by (induction b) auto
    then have "m1 x = m x" by (simp add: m1_def)
    moreover have "x \<noteq> cb + 8 + of_nat i" if "i \<le> ?L" for i unfolding eight using that l by (intro x) simp
    ultimately show ?thesis using m(3) by simp
  qed
  ultimately show ?thesis unfolding converted_def by blast
qed

section \<open>The loop\<close>

text \<open>\<open>typed_text cb s cs s'\<close>: the text \<open>cs\<close> was typed on the scheduled terminal, and nothing else happened.\<close>

definition typed_text :: "u32 \<Rightarrow> 'a console_scheme \<Rightarrow> u8 list \<Rightarrow> 'a console_scheme \<Rightarrow> bool" where
  "typed_text cb s cs s' \<longleftrightarrow> console_inv s' \<and> curr_scheduler s' = curr_scheduler s \<and> current_terminal s' = current_terminal s \<and>
     tty_of s' (curr_scheduler s) = fold tty_putc cs (tty_of s (curr_scheduler s)) \<and>
     (\<forall>t < 3. t \<noteq> curr_scheduler s \<longrightarrow> tty_of s' t = tty_of s t) \<and>
     (\<forall>x. \<not> in_conv cb x \<longrightarrow> \<not> in_page (page_of s (curr_scheduler s)) x \<longrightarrow> mem s' x = mem s x)"

lemma typed_text_page: "typed_text cb s cs s' \<Longrightarrow> page_of s' = page_of s"
  by (simp add: typed_text_def page_of_def fun_eq_iff)

lemma typed_text_refl: "console_inv s \<Longrightarrow> typed_text cb s [] s"
  by (simp add: typed_text_def)

lemma typed_text_trans: "typed_text cb s cs s1 \<Longrightarrow> typed_text cb s1 ds s2 \<Longrightarrow> typed_text cb s (cs @ ds) s2"
  using typed_text_page [of cb s cs s1] by (simp add: typed_text_def)

lemma typed_text_conv_ok: "typed_text cb s cs s' \<Longrightarrow> conv_ok cb s \<Longrightarrow> conv_ok cb s'"
  using typed_text_page [of cb s cs s'] by (simp add: conv_ok_def typed_text_def)

lemma others_fold_putc:
  assumes "console_inv s" "t < 3" "t \<noteq> curr_scheduler s"
  shows "tty_of (fold putc cs s) t = tty_of s t"
proof -
  have "fold (\<lambda>c v. v) ds v = v" for ds :: "u8 list" and v :: "u8 \<Rightarrow> tty option" by (induction ds) simp_all
  then have "others (fold putc cs s) t = others s t" using other_ttys.view_fold [OF assms(1), of cs] by simp
  then show ?thesis using assms(2,3) by (simp add: others_def frame_simps)
qed

lemma converted_typed:
  assumes ok: "conv_ok cb s" and "converted cb cs s s'"
  shows "typed_text cb s cs s'"
proof -
  obtain m where s': "s' = fold putc cs (s\<lparr>mem := m\<rparr>)" and m: "\<And>x. \<not> in_conv cb x \<Longrightarrow> m x = mem s x"
    using assms(2) unfolding converted_def by blast
  let ?s = "s\<lparr>mem := m\<rparr>"
  have inv: "console_inv ?s" using ok by (simp add: conv_ok_def console_inv_def)
  have pg: "page_of ?s t = page_of s t" for t by (simp add: page_of_def)
  have same: "tty_of ?s t = tty_of s t" if "t < 3" for t
  proof -
    have "screen m (page_of s t) = screen (mem s) (page_of s t)"
      using ok that m by (intro screen_cong) (auto simp: conv_ok_def)
    then show ?thesis by (simp add: tty_of_def abs_tty_def pg)
  qed
  have cs3: "curr_scheduler s < 3" using ok by (simp add: conv_ok_def console_inv_def)
  have "tty_of s' (curr_scheduler s) = fold tty_putc cs (tty_of s (curr_scheduler s))"
    using own_tty.view_fold [OF inv, of cs] same [OF cs3] by (simp add: s' frame_simps)
  moreover have "tty_of s' t = tty_of s t" if "t < 3" "t \<noteq> curr_scheduler s" for t
    using others_fold_putc [OF inv, of t cs] same that by (simp add: s')
  moreover have "mem s' x = mem s x" if "\<not> in_conv cb x" "\<not> in_page (page_of s (curr_scheduler s)) x" for x
    using fold_putc_outside [OF inv, of x cs] m that by (simp add: s' pg)
  moreover have "console_inv s'" using own_tty.inv_fold [OF inv] by (simp add: s')
  ultimately show ?thesis by (simp add: typed_text_def s' frame_simps)
qed

lemma fold_putc_converted: "converted cb cs s (fold putc cs s)"
  unfolding converted_def by (rule exI [of _ "mem s"]) simp

text \<open>Strings that neither the screen nor the conversion buffer overlaps.\<close>

definition strings_ok :: "u32 \<Rightarrow> (u32 \<Rightarrow> u8 list option) \<Rightarrow> 'a console_scheme \<Rightarrow> bool" where
  "strings_ok cb str s \<longleftrightarrow> (\<forall>a bs. str a = Some bs \<longrightarrow> cstr (ptr (mem s) a) bs \<and>
     (\<forall>i \<le> length bs. \<not> in_conv cb (a + of_nat i) \<and> \<not> in_page (page_of s (curr_scheduler s)) (a + of_nat i)))"

lemma strings_ok_typed:
  assumes "strings_ok cb str s" and t: "typed_text cb s cs s'"
  shows "strings_ok cb str s'"
  unfolding strings_ok_def
proof (intro allI impI)
  fix a bs assume "str a = Some bs"
  then have h: "cstr (ptr (mem s) a) bs" "\<forall>i \<le> length bs. \<not> in_conv cb (a + of_nat i) \<and> \<not> in_page (page_of s (curr_scheduler s)) (a + of_nat i)"
    using assms(1) by (auto simp: strings_ok_def)
  then have "mem s' (a + of_nat i) = mem s (a + of_nat i)" if "i \<le> length bs" for i
    using t that by (simp add: typed_text_def)
  then have "cstr (ptr (mem s') a) bs" using h(1) by (simp add: cstr_def ptr_def)
  moreover have "curr_scheduler s' = curr_scheduler s" using t by (simp add: typed_text_def)
  ultimately show "cstr (ptr (mem s') a) bs \<and>
      (\<forall>i \<le> length bs. \<not> in_conv cb (a + of_nat i) \<and> \<not> in_page (page_of s' (curr_scheduler s')) (a + of_nat i))"
    using h(2) typed_text_page [OF t] by simp
qed

lemma conv_step:
  assumes ok: "conv_ok cb s" "strings_ok cb str s" and "conv_text str c alt a = Some cs" and "c \<in> {0x78, 0x75, 0x64, 0x63, 0x73}"
  shows "\<exists>s'. (if c = 0x78 then (if alt then put_hex_padded cb a s else put_number cb a 16 s)
      else if c = 0x75 then put_number cb a 10 s else if c = 0x64 then put_signed cb a s
      else if c = 0x63 then Some (putc (ucast a) s) else map_option snd (puts a s)) = Some s' \<and> typed_text cb s cs s'"
proof -
  note t = converted_typed [OF ok(1)]
  have inv: "console_inv s" using ok(1) by (simp add: conv_ok_def)
  consider "c = 0x78" | "c = 0x75" | "c = 0x64" | "c = 0x63" | "c = 0x73" using assms(4) by blast
  then show ?thesis
  proof cases
    case 1
    then show ?thesis
      using put_hex_padded_converted [OF ok(1), of a] put_number_converted [OF ok(1), of 16 a] assms(3) t
      by (cases alt) (auto simp: conv_text_def)
  next
    case 2
    then show ?thesis using put_number_converted [OF ok(1), of 10 a] assms(3) t by (auto simp: conv_text_def)
  next
    case 3
    then show ?thesis using put_signed_converted [OF ok(1), of a] assms(3) t by (simp add: conv_text_def) blast
  next
    case 4
    then show ?thesis using fold_putc_converted [of cb "[ucast a]" s] assms(3) t by (simp add: conv_text_def)
  next
    case 5
    then have "str a = Some cs" using assms(3) by (simp add: conv_text_def)
    then have "puts a s = Some (of_nat (length cs), fold putc cs s)"
      using ok(2) by (intro puts_cstr [OF inv]) (auto simp: strings_ok_def)
    then show ?thesis using 5 t [OF fold_putc_converted] by simp
  qed
qed

lemma printf_loop_renders:
  "conv_ok cb s \<Longrightarrow> strings_ok cb str s \<Longrightarrow> render str fmt pct alt args = Some cs \<Longrightarrow>
     \<exists>s'. printf_loop cb fmt pct alt args s = Some s' \<and> typed_text cb s cs s'"
proof (induction fmt arbitrary: pct alt args cs s)
  case Nil
  then show ?case by (cases pct) (auto simp: typed_text_refl conv_ok_def)
next
  case (Cons c fmt)
  have one: "\<exists>s'. printf_loop cb fmt False False args (putc d s) = Some s' \<and> typed_text cb s (d # ds) s'"
    if "render str fmt False False args = Some ds" for d ds
  proof -
    have "typed_text cb s [d] (putc d s)" using converted_typed [OF Cons.prems(1) fold_putc_converted, of "[d]"] by simp
    note p = this typed_text_conv_ok [OF this Cons.prems(1)] strings_ok_typed [OF Cons.prems(2) this]
    from Cons.IH [OF p(2,3) that] typed_text_trans [OF p(1)] show ?thesis by fastforce
  qed
  show ?case
  proof (cases pct)
    case False
    then show ?thesis using Cons.IH [OF Cons.prems(1,2)] Cons.prems(3) one by (auto split: if_splits)
  next
    case True
    consider "c = 0x25" | "c = 0x23" | (conv) "c \<in> {0x78, 0x75, 0x64, 0x63, 0x73}"
      | (skip) "c \<noteq> 0x25" "c \<noteq> 0x23" "c \<notin> {0x78, 0x75, 0x64, 0x63, 0x73}" by blast
    then show ?thesis
    proof cases
      case 1
      then show ?thesis using Cons.prems(3) True one by auto
    next
      case 2
      then show ?thesis using Cons.IH [OF Cons.prems(1,2)] Cons.prems(3) True by simp
    next
      case skip
      then show ?thesis using Cons.IH [OF Cons.prems(1,2)] Cons.prems(3) True by simp
    next
      case conv
      then have c: "c \<noteq> 0x25" "c \<noteq> 0x23" by auto
      obtain a args' xs ys where r: "args = a # args'" "conv_text str c alt a = Some xs"
        "render str fmt False False args' = Some ys" "cs = xs @ ys"
        using Cons.prems(3) True conv c by (auto split: list.splits option.splits)
      obtain s1 where s1: "(if c = 0x78 then (if alt then put_hex_padded cb a s else put_number cb a 16 s)
          else if c = 0x75 then put_number cb a 10 s else if c = 0x64 then put_signed cb a s
          else if c = 0x63 then Some (putc (ucast a) s) else map_option snd (puts a s)) = Some s1" "typed_text cb s xs s1"
        using conv_step [OF Cons.prems(1,2) r(2) conv] by blast
      obtain s2 where "printf_loop cb fmt False False args' s1 = Some s2" "typed_text cb s1 ys s2"
        using Cons.IH [OF typed_text_conv_ok [OF s1(2) Cons.prems(1)] strings_ok_typed [OF Cons.prems(2) s1(2)] r(3)] by blast
      moreover from this have "typed_text cb s cs s2" using typed_text_trans [OF s1(2)] r(4) by simp
      moreover have "printf_loop cb (c # fmt) True alt (a # args') s = printf_loop cb fmt False False args' s1"
        using conv c by (simp only: printf_loop.simps(4) list.case if_True if_False s1(1) option.case)
      ultimately show ?thesis using True r(1) by simp
    qed
  qed
qed

section \<open>Properties\<close>

text \<open>C37. \<open>printf\<close> types exactly the rendered text of its format and arguments on the scheduled terminal: signed
  and unsigned decimals, hexadecimals plain or padded to eight digits, characters, strings and
  percent signs. It returns the length of the format, leaves the other terminals alone and
  writes no memory but the page it draws on and its conversion buffer.\<close>

theorem printf_renders:
  assumes "conv_ok cb s" and "strings_ok cb str s" and "render str (bytes_of fmt) False False args = Some cs"
  shows "\<exists>s'. printf cb fmt args s = Some (of_nat (length fmt), s') \<and> typed_text cb s cs s'"
  using printf_loop_renders [OF assms] by (auto simp: printf_def)

lemma far_from_screens:
  assumes "unat a + n \<le> unat VIDEO" "i < n" "t < 3"
  shows "\<not> in_page (page_of s t) (a + of_nat i)"
proof
  assume "in_page (page_of s t) (a + of_nat i)"
  then obtain j where j: "j < 4000" "a + of_nat i = page_of s t + of_nat j" unfolding in_page_def by blast
  have "unat a + n \<le> 2 ^ 32" using assms(1) by simp
  then have a: "unat (a + of_nat i) = unat a + i" using unat_run [of a n i] assms(2) by simp
  have p: "unat VIDEO \<le> unat (page_of s t)" "unat (page_of s t) \<le> 0xBB000"
    using assms(3) by (auto simp: page_of_def u8_less_3 vid_page_def)
  then have "unat (page_of s t + of_nat j) = unat (page_of s t) + j"
    using unat_run [of "page_of s t" 4000 j] j(1) by simp
  with a p assms j show False by simp
qed

theorem printf_renders_witness:
  "\<exists>s'. printf 0x9000 (''%d:%#x'' @ [CHR 0x0A]) [- 7, 255] sample_console = Some (7, s') \<and>
     tty_of s' 1 = fold tty_putc (bytes_of (''-7:000000FF'' @ [CHR 0x0A])) (tty_of sample_console 1)"
proof -
  have "\<not> in_page (page_of sample_console t) x" if "in_conv 0x9000 x" "t < 3" for x t
    using that far_from_screens [of "0x9000" 64 _ t sample_console] by (auto simp: in_conv_def)
  then have ok: "conv_ok 0x9000 sample_console" using sample_console_inv by (simp add: conv_ok_def)
  have "digits_rev 10 7 = [7]" "digits_rev 16 255 = [15, 15]" by (simp_all add: digits_rev.simps)
  then have n: "numeral_str 10 7 = [0x37]" "numeral_str 16 255 = [0x46, 0x46]"
    by (simp_all add: numeral_str_def digit_char_def lit_def)
  have "replicate 6 x = [x, x, x, x, x, x]" for x :: u8 by (simp add: eval_nat_numeral)
  then have pad: "pad_hex [0x46, 0x46] = bytes_of ''000000FF''" by (simp add: pad_hex_def bytes_of_def)
  have "sint (- 7 :: u32) < 0" by simp
  then have r: "render (\<lambda>_. None) (bytes_of (''%d:%#x'' @ [CHR 0x0A])) False False [- 7, 255] =
      Some (bytes_of (''-7:000000FF'' @ [CHR 0x0A]))"
    by (simp add: bytes_of_def conv_text_def n pad)
  have "strings_ok 0x9000 (\<lambda>_. None) sample_console" by (simp add: strings_ok_def)
  from printf_renders [OF ok this r] have
    "\<exists>s'. printf 0x9000 (''%d:%#x'' @ [CHR 0x0A]) [- 7, 255] sample_console = Some (of_nat (length (''%d:%#x'' @ [CHR 0x0A])), s') \<and>
      typed_text 0x9000 sample_console (bytes_of (''-7:000000FF'' @ [CHR 0x0A])) s'" .
  moreover have "curr_scheduler sample_console = 1" by (simp add: sample_console_def)
  ultimately show ?thesis by (auto simp: typed_text_def)
qed

end
