(* ===== verification/Kernel.thy ===== *)
theory Kernel
  imports Idt Printf_Spec
begin

text \<open>
  The boot path, \<open>entry\<close> of \<^verbatim>\<open>student-distrib/kernel.c\<close>: report what the boot loader passed,
  build the descriptors, initialise the devices and the file system, and wait for
  interrupts; or fault on the file system, when it lies outside the pages just mapped. What
  the linker decides, the addresses of the tables and of \<open>printf\<close>'s conversion buffer, and what
  the variable \<open>start_addr\<close> holds before it is assigned, is the record \<open>image\<close>. The layout of the
  boot loader's structures is that of \<^verbatim>\<open>student-distrib/multiboot.h\<close>.
\<close>

record boot = kernel +
  idt :: "nat \<Rightarrow> idt_desc_t"
  ldt_desc_ptr :: seg_desc_t
  tss_desc_ptr :: seg_desc_t
  tss_ldt_selector :: u16
  ldtr :: u16
  tr :: u16

record image =
  link :: "linkage \<Rightarrow> u32"
  ldt_addr :: u32
  tss_addr :: u32
  conv_addr :: u32
  start_addr0 :: u32
  stack_desc :: seg_desc_t

datatype boot_result = Invalid_magic | Conflicting_flags | File_system_fault | Running

abbreviation (input) MULTIBOOT_BOOTLOADER_MAGIC :: u32 where "MULTIBOOT_BOOTLOADER_MAGIC \<equiv> 0x2BADB002"
abbreviation (input) KERNEL_LDT :: u16 where "KERNEL_LDT \<equiv> 0x0038"
abbreviation (input) KERNEL_TSS :: u16 where "KERNEL_TSS \<equiv> 0x0030"
abbreviation (input) TSS_SIZE :: u32 where "TSS_SIZE \<equiv> 104"

section \<open>The boot loader's structures\<close>

definition mbi_flags :: "mem \<Rightarrow> u32 \<Rightarrow> u32" where "mbi_flags m mbi = load32 m mbi"
definition mbi_mem_lower :: "mem \<Rightarrow> u32 \<Rightarrow> u32" where "mbi_mem_lower m mbi = load32 m (mbi + 4)"
definition mbi_mem_upper :: "mem \<Rightarrow> u32 \<Rightarrow> u32" where "mbi_mem_upper m mbi = load32 m (mbi + 8)"
definition mbi_boot_device :: "mem \<Rightarrow> u32 \<Rightarrow> u32" where "mbi_boot_device m mbi = load32 m (mbi + 12)"
definition mbi_cmdline :: "mem \<Rightarrow> u32 \<Rightarrow> u32" where "mbi_cmdline m mbi = load32 m (mbi + 16)"
definition mbi_mods_count :: "mem \<Rightarrow> u32 \<Rightarrow> u32" where "mbi_mods_count m mbi = load32 m (mbi + 20)"
definition mbi_mods_addr :: "mem \<Rightarrow> u32 \<Rightarrow> u32" where "mbi_mods_addr m mbi = load32 m (mbi + 24)"
definition mbi_elf_sec :: "mem \<Rightarrow> u32 \<Rightarrow> nat \<Rightarrow> u32" where "mbi_elf_sec m mbi k = load32 m (mbi + 28 + 4 * of_nat k)"
definition mbi_mmap_length :: "mem \<Rightarrow> u32 \<Rightarrow> u32" where "mbi_mmap_length m mbi = load32 m (mbi + 44)"
definition mbi_mmap_addr :: "mem \<Rightarrow> u32 \<Rightarrow> u32" where "mbi_mmap_addr m mbi = load32 m (mbi + 48)"
definition mod_start :: "mem \<Rightarrow> u32 \<Rightarrow> u32" where "mod_start m md = load32 m md"
definition mod_end :: "mem \<Rightarrow> u32 \<Rightarrow> u32" where "mod_end m md = load32 m (md + 4)"

definition CHECK_FLAG :: "u32 \<Rightarrow> nat \<Rightarrow> bool" where
  "CHECK_FLAG fl b = (fl AND push_bit b 1 \<noteq> 0)"

section \<open>The report\<close>

definition print :: "image \<Rightarrow> string \<Rightarrow> u32 list \<Rightarrow> 'a console_scheme \<Rightarrow> 'a console_scheme option" where
  "print im fmt args s = map_option snd (printf (conv_addr im) fmt args s)"

text \<open>The bytes are \<open>char\<close>s, widened with their sign.\<close>

fun print_bytes :: "image \<Rightarrow> u32 \<Rightarrow> nat list \<Rightarrow> 'a console_scheme \<Rightarrow> 'a console_scheme option" where
  "print_bytes im md [] s = Some s"
| "print_bytes im md (i # is) s =
     (case print im ''0x%x '' [scast (mem s (mod_start (mem s) md + of_nat i))] s of
        None \<Rightarrow> None
      | Some s' \<Rightarrow> print_bytes im md is s')"

definition print_module :: "image \<Rightarrow> u32 \<Rightarrow> u32 \<Rightarrow> 'a console_scheme \<Rightarrow> 'a console_scheme option" where
  "print_module im md mod_count s =
     (case print im (''Module %d loaded at address: 0x%#x'' @ [CHR 0x0A]) [mod_count, mod_start (mem s) md] s of
        None \<Rightarrow> None
      | Some s \<Rightarrow> (case print im (''Module %d ends at address: 0x%#x'' @ [CHR 0x0A]) [mod_count, mod_end (mem s) md] s of
            None \<Rightarrow> None
          | Some s \<Rightarrow> (case print im (''First few bytes of module:'' @ [CHR 0x0A]) [] s of
                None \<Rightarrow> None
              | Some s \<Rightarrow> (case print_bytes im md [0..<16] s of
                    None \<Rightarrow> None
                  | Some s \<Rightarrow> print im [CHR 0x0A] [] s))))"

partial_function (option) print_modules ::
  "image \<Rightarrow> u32 \<Rightarrow> u32 \<Rightarrow> u32 \<Rightarrow> 'a console_scheme \<Rightarrow> 'a console_scheme option" where
  "print_modules im mbi md mod_count s =
     (if mod_count < mbi_mods_count (mem s) mbi then
        case print_module im md mod_count s of
          None \<Rightarrow> None
        | Some s' \<Rightarrow> print_modules im mbi (md + 16) (mod_count + 1) s'
      else Some s)"

partial_function (option) print_mmap :: "image \<Rightarrow> u32 \<Rightarrow> u32 \<Rightarrow> 'a console_scheme \<Rightarrow> 'a console_scheme option" where
  "print_mmap im mbi mmap s =
     (if mmap < mbi_mmap_addr (mem s) mbi + mbi_mmap_length (mem s) mbi then
        case print im (''    size = 0x%x, base_addr = 0x%#x%#x'' @ [CHR 0x0A] @ ''    type = 0x%x,  length    = 0x%#x%#x'' @ [CHR 0x0A])
               [load32 (mem s) mmap, load32 (mem s) (mmap + 8), load32 (mem s) (mmap + 4), load32 (mem s) (mmap + 20),
                load32 (mem s) (mmap + 16), load32 (mem s) (mmap + 12)] s of
          None \<Rightarrow> None
        | Some s' \<Rightarrow> print_mmap im mbi (mmap + load32 (mem s') mmap + 4) s'
      else Some s)"

text \<open>A report that is printed only when its flag is set.\<close>

definition when_flag ::
  "u32 \<Rightarrow> nat \<Rightarrow> ('a console_scheme \<Rightarrow> 'a console_scheme option) \<Rightarrow> 'a console_scheme \<Rightarrow> 'a console_scheme option" where
  "when_flag mbi b act s = (if CHECK_FLAG (mbi_flags (mem s) mbi) b then act s else Some s)"

definition report_memory :: "image \<Rightarrow> u32 \<Rightarrow> 'a console_scheme \<Rightarrow> 'a console_scheme option" where
  "report_memory im mbi s =
     print im (''mem_lower = %uKB, mem_upper = %uKB'' @ [CHR 0x0A]) [mbi_mem_lower (mem s) mbi, mbi_mem_upper (mem s) mbi] s"

definition report_device :: "image \<Rightarrow> u32 \<Rightarrow> 'a console_scheme \<Rightarrow> 'a console_scheme option" where
  "report_device im mbi s = print im (''boot_device = 0x%#x'' @ [CHR 0x0A]) [mbi_boot_device (mem s) mbi] s"

definition report_cmdline :: "image \<Rightarrow> u32 \<Rightarrow> 'a console_scheme \<Rightarrow> 'a console_scheme option" where
  "report_cmdline im mbi s = print im (''cmdline = %s'' @ [CHR 0x0A]) [mbi_cmdline (mem s) mbi] s"

definition report_modules :: "image \<Rightarrow> u32 \<Rightarrow> 'a console_scheme \<Rightarrow> 'a console_scheme option" where
  "report_modules im mbi s = print_modules im mbi (mbi_mods_addr (mem s) mbi) 0 s"

definition report_elf :: "image \<Rightarrow> u32 \<Rightarrow> 'a console_scheme \<Rightarrow> 'a console_scheme option" where
  "report_elf im mbi s =
     print im (''elf_sec: num = %u, size = 0x%#x, addr = 0x%#x, shndx = 0x%#x'' @ [CHR 0x0A])
       [mbi_elf_sec (mem s) mbi 0, mbi_elf_sec (mem s) mbi 1, mbi_elf_sec (mem s) mbi 2, mbi_elf_sec (mem s) mbi 3] s"

definition report_mmap :: "image \<Rightarrow> u32 \<Rightarrow> 'a console_scheme \<Rightarrow> 'a console_scheme option" where
  "report_mmap im mbi s =
     (case print im (''mmap_addr = 0x%#x, mmap_length = 0x%x'' @ [CHR 0x0A])
             [mbi_mmap_addr (mem s) mbi, mbi_mmap_length (mem s) mbi] s of
        None \<Rightarrow> None
      | Some s' \<Rightarrow> print_mmap im mbi (mbi_mmap_addr (mem s') mbi) s')"

section \<open>Descriptors and devices\<close>

definition build_ldt :: "image \<Rightarrow> 'a boot_scheme \<Rightarrow> 'a boot_scheme" where
  "build_ldt im s =
     (let d = (stack_desc im)\<lparr>seg_granularity := 0, seg_opsize := 1, seg_reserved := 0, seg_avail := 0, seg_present := 1,
                seg_dpl := 0, seg_sys := 0, seg_type := 2\<rparr>
      in s\<lparr>ldt_desc_ptr := SET_SEG_PARAMS (ldt_addr im) (32 - 1) d, ldtr := KERNEL_LDT\<rparr>)"

definition build_tss :: "image \<Rightarrow> 'a boot_scheme \<Rightarrow> 'a boot_scheme" where
  "build_tss im s =
     (let d = (stack_desc im)\<lparr>seg_granularity := 0, seg_opsize := 0, seg_reserved := 0, seg_avail := 0,
                seg_lim_19_16 := ucast (TSS_SIZE AND 0x000F0000), seg_present := 1, seg_dpl := 0, seg_sys := 0,
                seg_type := 9, seg_lim_15_00 := ucast (TSS_SIZE AND 0x0000FFFF)\<rparr>
      in s\<lparr>tss_desc_ptr := SET_SEG_PARAMS (tss_addr im) (TSS_SIZE - 1) d, tss_ldt_selector := KERNEL_LDT,
           tss_ss0 := KERNEL_DS, tss_esp0 := 0x800000, tr := KERNEL_TSS\<rparr>)"

text \<open>
  With paging on, \<open>file_sys_init\<close> reads the number of inodes, the word at \<open>start_addr\<close> + 4. The
  read faults unless the tables map its four bytes; it has assigned two of its three variables
  by then.
\<close>

definition boot_block_mapped :: "u32 \<Rightarrow> 'a paging_scheme \<Rightarrow> bool" where
  "boot_block_mapped start_addr s = list_all (\<lambda>i. translate s False False (start_addr + 4 + of_nat i) \<noteq> None) [0..<4]"

definition init_devices :: "image \<Rightarrow> u32 \<Rightarrow> 'a boot_scheme \<Rightarrow> boot_result \<times> 'a boot_scheme" where
  "init_devices im start_addr s0 =
     (let s = s0\<lparr>idt := idt_init (link im) (idt s0)\<rparr>;
          s = i8259_init s;
          s = keyboard_init s;
          s = paging_init s;
          s = rtc_init s
      in if \<not> boot_block_mapped start_addr s then
           (File_system_fault, s\<lparr>boot_block_addr := start_addr, inode_addr := start_addr + 4096\<rparr>)
         else
           let s = file_sys_init start_addr s;
               s = init_fops_table s;
               s = terminal_init s;
               s = pit_init s
           in (Running, sti s))"

definition kernel_entry :: "image \<Rightarrow> u32 \<Rightarrow> u32 \<Rightarrow> 'a boot_scheme \<Rightarrow> (boot_result \<times> 'a boot_scheme) option" where
  "kernel_entry im magic mbi s0 =
     (let s = clear s0
      in if magic \<noteq> MULTIBOOT_BOOTLOADER_MAGIC then
           map_option (Pair Invalid_magic) (print im (''Invalid magic number: 0x%#x'' @ [CHR 0x0A]) [magic] s)
         else case print im (''flags = 0x%#x'' @ [CHR 0x0A]) [mbi_flags (mem s) mbi] s of None \<Rightarrow> None | Some s \<Rightarrow>
           (case when_flag mbi 0 (report_memory im mbi) s of None \<Rightarrow> None | Some s \<Rightarrow>
           (case when_flag mbi 1 (report_device im mbi) s of None \<Rightarrow> None | Some s \<Rightarrow>
           (case when_flag mbi 2 (report_cmdline im mbi) s of None \<Rightarrow> None | Some s \<Rightarrow>
             let start_addr = (if CHECK_FLAG (mbi_flags (mem s) mbi) 3 then mod_start (mem s) (mbi_mods_addr (mem s) mbi)
                               else start_addr0 im)
             in case when_flag mbi 3 (report_modules im mbi) s of None \<Rightarrow> None | Some s \<Rightarrow>
                  if CHECK_FLAG (mbi_flags (mem s) mbi) 4 \<and> CHECK_FLAG (mbi_flags (mem s) mbi) 5 then
                    map_option (Pair Conflicting_flags) (print im (''Both bits 4 and 5 are set.'' @ [CHR 0x0A]) [] s)
                  else
                    case when_flag mbi 5 (report_elf im mbi) s of None \<Rightarrow> None | Some s \<Rightarrow>
                    (case when_flag mbi 6 (report_mmap im mbi) s of None \<Rightarrow> None | Some s \<Rightarrow>
                      Some (init_devices im start_addr (build_tss im (build_ldt im s))))))))"

end
