(* ===== verification/Kernel_Spec.thy ===== *)
theory Kernel_Spec
  imports Kernel
begin

text \<open>
  What the boot path establishes. From the static data of the image, \<open>entry\<close> reports what the
  boot loader passed without touching anything but the screen and \<open>printf\<close>'s buffer, and
  leaves the kernel in a state in which every invariant of the other theories holds: empty
  process stacks, a reset keyboard, exactly four open interrupt lines, the kernel mapped.
\<close>

section \<open>The initialised kernel\<close>

text \<open>The initial values of the kernel's variables, as far as the boot path does not assign them.\<close>

definition static_data :: "'a boot_scheme \<Rightarrow> bool" where
  "static_data s \<longleftrightarrow> master_mask s = 0xFF \<and> slave_mask s = 0xFF \<and> (\<forall>p. pid s p = VACANT) \<and> process_counter s = - 1 \<and>
     curr_scheduler s = 0 \<and> current_terminal s = 0 \<and> (\<forall>t. keybufferCount s t = 0) \<and>
     (\<forall>a i. flags (file_descriptor (pcbs s a) i) = 0) \<and> page_table_video_addr s AND 0xFFF = 0"

text \<open>
  Every open descriptor, of any control block, has a close function, and so has every
  operations table.
\<close>

definition fds_ok :: "'a kernel_scheme \<Rightarrow> bool" where
  "fds_ok s \<longleftrightarrow> (\<forall>a. \<forall>i < 8. flags (file_descriptor (pcbs s a) i) \<noteq> 0 \<longrightarrow>
     fops_close (pointer (file_descriptor (pcbs s a) i)) \<noteq> Close_null)"

definition fops_ok :: "'a kernel_scheme \<Rightarrow> bool" where
  "fops_ok s \<longleftrightarrow> fops_close (stdin_fops s) \<noteq> Close_null \<and> fops_close (stdout_fops s) \<noteq> Close_null \<and>
     fops_close (rtc_fops s) \<noteq> Close_null \<and> fops_close (dir_fops s) \<noteq> Close_null \<and> fops_close (file_fops s) \<noteq> Close_null"

definition booted :: "image \<Rightarrow> u32 \<Rightarrow> (nat \<Rightarrow> idt_desc_t) \<Rightarrow> 'a boot_scheme \<Rightarrow> bool" where
  "booted im start idt0 s \<longleftrightarrow>
     proc_table s (\<lambda>_. []) \<and> console_inv s \<and> mods_inv s \<and> lines_inv s \<and> curr_scheduler s = 0 \<and> current_terminal s = 0 \<and>
     fds_ok s \<and> fops_ok s \<and> if_flag s \<and> (\<forall>n < 16. irq_masked s n \<longleftrightarrow> n \<notin> {0, 1, 2, 8}) \<and>
     idt s = idt_init (link im) idt0 \<and>
     seg_base (ldt_desc_ptr s) = ldt_addr im \<and> seg_base (tss_desc_ptr s) = tss_addr im \<and> tss_esp0 s = 0x800000 \<and>
     boot_block_addr s = start \<and> inode_addr s = start + 4096 \<and>
     data_block_addr s = start + 4096 + 4096 * stat_inode_num s \<and>
     (\<forall>user wr a. translate s user wr a =
        (if \<not> user \<and> (0xB8000 \<le> a \<and> a < 0xBC000 \<or> 0x400000 \<le> a \<and> a < 0x800000) then Some a else None))"

lemma irq_masked_rest [io_simps]:
  "irq_masked (enable_cursor a b s) n = irq_masked s n" "irq_masked (paging_init t) n = irq_masked t n"
  "irq_masked (file_sys_init st u) n = irq_masked u n" "irq_masked (init_fops_table k) n = irq_masked k n"
  "irq_masked (terminal_init w) n = irq_masked w n" "irq_masked (sti p) n = irq_masked p n"
  "irq_masked (snd (inb port p)) n = irq_masked p n"
  by (simp_all add: irq_masked_def enable_cursor_def paging_init_def file_sys_init_def init_fops_table_def
      terminal_init_def sti_def outb_def inb_def Let_def split_def)

lemma irq_masked_inits [io_simps]:
  "k < 16 \<Longrightarrow> irq_masked (rtc_init s) k \<longleftrightarrow> irq_masked s k \<and> k \<noteq> 8"
  "k < 16 \<Longrightarrow> irq_masked (i8259_init p) k \<longleftrightarrow> irq_masked p k \<and> k \<noteq> 2"
  "k < 16 \<Longrightarrow> irq_masked (pit_init p) k \<longleftrightarrow> irq_masked p k \<and> k \<noteq> 0"
  by (simp_all add: rtc_init_def rtc_open_def i8259_init_def pit_init_def Let_def split_def irq_masked_enable io_simps)

lemma irq_masked_keyboard_init [io_simps]: "k < 16 \<Longrightarrow> irq_masked (keyboard_init s) k \<longleftrightarrow> irq_masked s k \<and> k \<noteq> 1"
  by (simp add: keyboard_init_def Let_def irq_masked_enable io_simps) (simp add: irq_masked_def)

text \<open>What \<open>init_devices\<close> has built before it reads the file system, and at its end.\<close>

definition devices_up :: "image \<Rightarrow> 'a boot_scheme \<Rightarrow> 'a boot_scheme" where
  "devices_up im s = rtc_init (paging_init (keyboard_init (i8259_init (s\<lparr>idt := idt_init (link im) (idt s)\<rparr>))))"

definition initialised :: "image \<Rightarrow> u32 \<Rightarrow> 'a boot_scheme \<Rightarrow> 'a boot_scheme" where
  "initialised im st s = sti (pit_init (terminal_init (init_fops_table (file_sys_init st (devices_up im s)))))"

lemma init_devices_eq:
  "init_devices im st s =
     (if boot_block_mapped st (devices_up im s) then (Running, initialised im st s)
      else (File_system_fault, (devices_up im s)\<lparr>boot_block_addr := st, inode_addr := st + 4096\<rparr>))"
  by (simp add: init_devices_def initialised_def devices_up_def Let_def)

lemma initialised_lines:
  assumes "master_mask s = 0xFF" "slave_mask s = 0xFF" "n < 16"
  shows "irq_masked (initialised im st s) n \<longleftrightarrow> n \<notin> {0, 1, 2, 8}"
proof -
  have "irq_masked (s\<lparr>idt := i\<rparr>) n" for i
  proof -
    have "(0xFF :: u8) = mask 8" by (simp add: mask_eq_exp_minus_1)
    then have "bit (0xFF :: u8) k" if "k < 8" for k using that by (simp only: bit_mask_iff) simp
    then show ?thesis using assms by (auto simp: irq_masked_def)
  qed
  then show ?thesis using assms(3) by (auto simp: initialised_def devices_up_def Let_def io_simps)
qed

text \<open>Driving the ports and the interrupt controller changes nothing else.\<close>

definition device_step :: "'a pic_scheme \<Rightarrow> 'a pic_scheme \<Rightarrow> bool" where
  "device_step s s' \<longleftrightarrow> s' = s\<lparr>io_log := io_log s', master_mask := master_mask s', slave_mask := slave_mask s'\<rparr>"

lemma device_step_trans: "device_step s t \<Longrightarrow> device_step t u \<Longrightarrow> device_step s u"
proof -
  assume st: "device_step s t" and tu: "device_step t u"
  have "u = t\<lparr>io_log := io_log u, master_mask := master_mask u, slave_mask := slave_mask u\<rparr>" using tu by (simp add: device_step_def)
  also have "\<dots> = s\<lparr>io_log := io_log u, master_mask := master_mask u, slave_mask := slave_mask u\<rparr>"
    by (subst st [unfolded device_step_def]) simp
  finally show ?thesis by (simp add: device_step_def)
qed

lemma device_steps:
  "device_step s s" "device_step s (outb d p s)" "device_step s (snd (inb p s))" "device_step s (enable_irq n s)"
  by (simp_all add: device_step_def outb_def inb_def enable_irq_def Let_def)

lemma device_chain:
  "device_step s t \<Longrightarrow> device_step s (outb d p t)" "device_step s t \<Longrightarrow> device_step s (snd (inb p t))"
  "device_step s t \<Longrightarrow> device_step s (enable_irq n t)"
  using device_steps device_step_trans by blast+

lemma device_inits:
  "device_step s (i8259_init s)" "device_step s (pit_init s)" "device_step r (rtc_init r)" "device_step c (enable_cursor a b c)"
  by (simp_all add: i8259_init_def pit_init_def rtc_init_def rtc_open_def enable_cursor_def Let_def split_def
      device_chain device_steps)

lemma device_fields:
  assumes "device_step s (s' :: 'a boot_scheme)"
  shows
    "pid s' = pid s" "process_counter s' = process_counter s" "pcbs s' = pcbs s"
    "curr_scheduler s' = curr_scheduler s" "current_terminal s' = current_terminal s" "mem s' = mem s"
    "idt s' = idt s" "ldt_desc_ptr s' = ldt_desc_ptr s" "tss_desc_ptr s' = tss_desc_ptr s" "tss_esp0 s' = tss_esp0 s"
    "keybufferCount s' = keybufferCount s" "shift s' = shift s" "capslock s' = capslock s"
    "capsChecker s' = capsChecker s" "control s' = control s" "left_alt s' = left_alt s"
    "page_directory s' = page_directory s" "page_table_video s' = page_table_video s"
    "page_table_video_addr s' = page_table_video_addr s" "boot_block_addr s' = boot_block_addr s"
    "inode_addr s' = inode_addr s" "data_block_addr s' = data_block_addr s" "stdin_fops s' = stdin_fops s"
    "stdout_fops s' = stdout_fops s" "rtc_fops s' = rtc_fops s" "dir_fops s' = dir_fops s"
    "file_fops s' = file_fops s" "terminal s' = terminal s"
proof -
  from assms obtain l m n where "s' = s\<lparr>io_log := l, master_mask := m, slave_mask := n\<rparr>" unfolding device_step_def by blast
  then show
    "pid s' = pid s" "process_counter s' = process_counter s" "pcbs s' = pcbs s"
    "curr_scheduler s' = curr_scheduler s" "current_terminal s' = current_terminal s" "mem s' = mem s"
    "idt s' = idt s" "ldt_desc_ptr s' = ldt_desc_ptr s" "tss_desc_ptr s' = tss_desc_ptr s" "tss_esp0 s' = tss_esp0 s"
    "keybufferCount s' = keybufferCount s" "shift s' = shift s" "capslock s' = capslock s"
    "capsChecker s' = capsChecker s" "control s' = control s" "left_alt s' = left_alt s"
    "page_directory s' = page_directory s" "page_table_video s' = page_table_video s"
    "page_table_video_addr s' = page_table_video_addr s" "boot_block_addr s' = boot_block_addr s"
    "inode_addr s' = inode_addr s" "data_block_addr s' = data_block_addr s" "stdin_fops s' = stdin_fops s"
    "stdout_fops s' = stdout_fops s" "rtc_fops s' = rtc_fops s" "dir_fops s' = dir_fops s"
    "file_fops s' = file_fops s" "terminal s' = terminal s"
    by simp_all
qed

lemma keyboard_init_fields:
  fixes s :: "'a boot_scheme"
  shows
    "pid (keyboard_init s) = pid s" "process_counter (keyboard_init s) = process_counter s" "pcbs (keyboard_init s) = pcbs s"
    "curr_scheduler (keyboard_init s) = curr_scheduler s" "current_terminal (keyboard_init s) = current_terminal s"
    "mem (keyboard_init s) = mem s" "idt (keyboard_init s) = idt s" "ldt_desc_ptr (keyboard_init s) = ldt_desc_ptr s"
    "tss_desc_ptr (keyboard_init s) = tss_desc_ptr s" "tss_esp0 (keyboard_init s) = tss_esp0 s"
    "page_directory (keyboard_init s) = page_directory s" "page_table_video (keyboard_init s) = page_table_video s"
    "page_table_video_addr (keyboard_init s) = page_table_video_addr s"
    "boot_block_addr (keyboard_init s) = boot_block_addr s" "inode_addr (keyboard_init s) = inode_addr s"
    "data_block_addr (keyboard_init s) = data_block_addr s" "stdin_fops (keyboard_init s) = stdin_fops s"
    "stdout_fops (keyboard_init s) = stdout_fops s" "rtc_fops (keyboard_init s) = rtc_fops s"
    "dir_fops (keyboard_init s) = dir_fops s" "file_fops (keyboard_init s) = file_fops s"
    "terminal (keyboard_init s) = terminal s"
    "keybufferCount (keyboard_init s) = (keybufferCount s)(0 := 0, 1 := 0, 2 := 0)" "mods_inv (keyboard_init s)"
proof -
  let ?k = "s\<lparr>shift := 0, capslock := 0, capsChecker := 0, control := 0, left_alt := 0,
        keybufferCount := (keybufferCount s)(0 := 0, 1 := 0, 2 := 0),
        readFlag := (readFlag s)(0 := UNLOCK, 1 := UNLOCK, 2 := UNLOCK), cursor := (cursor s)(0 := 0, 1 := 0, 2 := 0)\<rparr>"
  have k: "keyboard_init s = enable_irq 1 (enable_cursor 0 25 ?k)" by (simp add: keyboard_init_def Let_def)
  have "device_step ?k (enable_irq 1 (enable_cursor 0 25 ?k))" by (rule device_chain(3) [OF device_inits(4)])
  note d = device_fields [OF this]
  show
    "pid (keyboard_init s) = pid s" "process_counter (keyboard_init s) = process_counter s" "pcbs (keyboard_init s) = pcbs s"
    "curr_scheduler (keyboard_init s) = curr_scheduler s" "current_terminal (keyboard_init s) = current_terminal s"
    "mem (keyboard_init s) = mem s" "idt (keyboard_init s) = idt s" "ldt_desc_ptr (keyboard_init s) = ldt_desc_ptr s"
    "tss_desc_ptr (keyboard_init s) = tss_desc_ptr s" "tss_esp0 (keyboard_init s) = tss_esp0 s"
    "page_directory (keyboard_init s) = page_directory s" "page_table_video (keyboard_init s) = page_table_video s"
    "page_table_video_addr (keyboard_init s) = page_table_video_addr s"
    "boot_block_addr (keyboard_init s) = boot_block_addr s" "inode_addr (keyboard_init s) = inode_addr s"
    "data_block_addr (keyboard_init s) = data_block_addr s" "stdin_fops (keyboard_init s) = stdin_fops s"
    "stdout_fops (keyboard_init s) = stdout_fops s" "rtc_fops (keyboard_init s) = rtc_fops s"
    "dir_fops (keyboard_init s) = dir_fops s" "file_fops (keyboard_init s) = file_fops s"
    "terminal (keyboard_init s) = terminal s"
    "keybufferCount (keyboard_init s) = (keybufferCount s)(0 := 0, 1 := 0, 2 := 0)"
    unfolding k d by simp_all
  show "mods_inv (keyboard_init s)" unfolding k mods_inv_def d by simp
qed

lemma software_init_fields:
  fixes s :: "'a boot_scheme"
  shows
    "pid (paging_init s) = pid s" "process_counter (paging_init s) = process_counter s" "pcbs (paging_init s) = pcbs s"
    "curr_scheduler (paging_init s) = curr_scheduler s" "current_terminal (paging_init s) = current_terminal s"
    "mem (paging_init s) = mem s" "idt (paging_init s) = idt s" "ldt_desc_ptr (paging_init s) = ldt_desc_ptr s"
    "tss_desc_ptr (paging_init s) = tss_desc_ptr s" "tss_esp0 (paging_init s) = tss_esp0 s"
    "keybufferCount (paging_init s) = keybufferCount s" "shift (paging_init s) = shift s"
    "capslock (paging_init s) = capslock s" "capsChecker (paging_init s) = capsChecker s"
    "control (paging_init s) = control s" "left_alt (paging_init s) = left_alt s"
    "boot_block_addr (paging_init s) = boot_block_addr s" "inode_addr (paging_init s) = inode_addr s"
    "data_block_addr (paging_init s) = data_block_addr s" "stdin_fops (paging_init s) = stdin_fops s"
    "stdout_fops (paging_init s) = stdout_fops s" "rtc_fops (paging_init s) = rtc_fops s"
    "dir_fops (paging_init s) = dir_fops s" "file_fops (paging_init s) = file_fops s" "terminal (paging_init s) = terminal s"
    "pid (file_sys_init st s) = pid s" "process_counter (file_sys_init st s) = process_counter s"
    "pcbs (file_sys_init st s) = pcbs s" "curr_scheduler (file_sys_init st s) = curr_scheduler s"
    "current_terminal (file_sys_init st s) = current_terminal s" "mem (file_sys_init st s) = mem s"
    "idt (file_sys_init st s) = idt s" "ldt_desc_ptr (file_sys_init st s) = ldt_desc_ptr s"
    "tss_desc_ptr (file_sys_init st s) = tss_desc_ptr s" "tss_esp0 (file_sys_init st s) = tss_esp0 s"
    "keybufferCount (file_sys_init st s) = keybufferCount s" "shift (file_sys_init st s) = shift s"
    "capslock (file_sys_init st s) = capslock s" "capsChecker (file_sys_init st s) = capsChecker s"
    "control (file_sys_init st s) = control s" "left_alt (file_sys_init st s) = left_alt s"
    "page_directory (file_sys_init st s) = page_directory s" "page_table_video (file_sys_init st s) = page_table_video s"
    "page_table_video_addr (file_sys_init st s) = page_table_video_addr s" "stdin_fops (file_sys_init st s) = stdin_fops s"
    "stdout_fops (file_sys_init st s) = stdout_fops s" "rtc_fops (file_sys_init st s) = rtc_fops s"
    "dir_fops (file_sys_init st s) = dir_fops s" "file_fops (file_sys_init st s) = file_fops s"
    "terminal (file_sys_init st s) = terminal s"
    "pid (init_fops_table s) = pid s" "process_counter (init_fops_table s) = process_counter s"
    "pcbs (init_fops_table s) = pcbs s" "curr_scheduler (init_fops_table s) = curr_scheduler s"
    "current_terminal (init_fops_table s) = current_terminal s" "mem (init_fops_table s) = mem s"
    "idt (init_fops_table s) = idt s" "ldt_desc_ptr (init_fops_table s) = ldt_desc_ptr s"
    "tss_desc_ptr (init_fops_table s) = tss_desc_ptr s" "tss_esp0 (init_fops_table s) = tss_esp0 s"
    "keybufferCount (init_fops_table s) = keybufferCount s" "shift (init_fops_table s) = shift s"
    "capslock (init_fops_table s) = capslock s" "capsChecker (init_fops_table s) = capsChecker s"
    "control (init_fops_table s) = control s" "left_alt (init_fops_table s) = left_alt s"
    "page_directory (init_fops_table s) = page_directory s" "page_table_video (init_fops_table s) = page_table_video s"
    "page_table_video_addr (init_fops_table s) = page_table_video_addr s"
    "boot_block_addr (init_fops_table s) = boot_block_addr s" "inode_addr (init_fops_table s) = inode_addr s"
    "data_block_addr (init_fops_table s) = data_block_addr s" "terminal (init_fops_table s) = terminal s"
    "pid (terminal_init s) = pid s" "process_counter (terminal_init s) = process_counter s" "pcbs (terminal_init s) = pcbs s"
    "curr_scheduler (terminal_init s) = curr_scheduler s" "current_terminal (terminal_init s) = current_terminal s"
    "mem (terminal_init s) = mem s" "idt (terminal_init s) = idt s" "ldt_desc_ptr (terminal_init s) = ldt_desc_ptr s"
    "tss_desc_ptr (terminal_init s) = tss_desc_ptr s" "tss_esp0 (terminal_init s) = tss_esp0 s"
    "keybufferCount (terminal_init s) = keybufferCount s" "shift (terminal_init s) = shift s"
    "capslock (terminal_init s) = capslock s" "capsChecker (terminal_init s) = capsChecker s"
    "control (terminal_init s) = control s" "left_alt (terminal_init s) = left_alt s"
    "page_directory (terminal_init s) = page_directory s" "page_table_video (terminal_init s) = page_table_video s"
    "page_table_video_addr (terminal_init s) = page_table_video_addr s"
    "boot_block_addr (terminal_init s) = boot_block_addr s" "inode_addr (terminal_init s) = inode_addr s"
    "data_block_addr (terminal_init s) = data_block_addr s" "stdin_fops (terminal_init s) = stdin_fops s"
    "stdout_fops (terminal_init s) = stdout_fops s" "rtc_fops (terminal_init s) = rtc_fops s"
    "dir_fops (terminal_init s) = dir_fops s" "file_fops (terminal_init s) = file_fops s"
    "pid (sti s) = pid s" "process_counter (sti s) = process_counter s" "pcbs (sti s) = pcbs s"
    "curr_scheduler (sti s) = curr_scheduler s" "current_terminal (sti s) = current_terminal s" "mem (sti s) = mem s"
    "idt (sti s) = idt s" "ldt_desc_ptr (sti s) = ldt_desc_ptr s" "tss_desc_ptr (sti s) = tss_desc_ptr s"
    "tss_esp0 (sti s) = tss_esp0 s" "keybufferCount (sti s) = keybufferCount s" "shift (sti s) = shift s"
    "capslock (sti s) = capslock s" "capsChecker (sti s) = capsChecker s" "control (sti s) = control s"
    "left_alt (sti s) = left_alt s" "page_directory (sti s) = page_directory s"
    "page_table_video (sti s) = page_table_video s" "page_table_video_addr (sti s) = page_table_video_addr s"
    "boot_block_addr (sti s) = boot_block_addr s" "inode_addr (sti s) = inode_addr s"
    "data_block_addr (sti s) = data_block_addr s" "stdin_fops (sti s) = stdin_fops s" "stdout_fops (sti s) = stdout_fops s"
    "rtc_fops (sti s) = rtc_fops s" "dir_fops (sti s) = dir_fops s" "file_fops (sti s) = file_fops s"
    "terminal (sti s) = terminal s"
  by (simp_all add: paging_init_def file_sys_init_def init_fops_table_def terminal_init_def sti_def Let_def)

lemma assigned_fields:
  fixes s :: "'a boot_scheme"
  shows "terminal (terminal_init s) t = (if t < 3 then (terminal s t)\<lparr>pcb := 0\<rparr> else terminal s t)"
    "boot_block_addr (file_sys_init st s) = st" "inode_addr (file_sys_init st s) = st + 4096"
    "data_block_addr (file_sys_init st s) = st + 4096 + 4096 * load32 (mem s) (st + 4)"
    "if_flag (sti s)" "page_table_video_addr (paging_init s) = page_table_video_addr s"
  by (simp_all add: terminal_init_def file_sys_init_def stat_inode_num_def sti_def paging_init_def Let_def u8_less_3)

lemmas init_fields = device_fields [OF device_inits(1)] device_fields [OF device_inits(2)] device_fields [OF device_inits(3)]
  keyboard_init_fields software_init_fields assigned_fields

lemma initialised_fields:
  fixes s :: "'a boot_scheme"
  shows
    "pid (initialised im st s) = pid s" "process_counter (initialised im st s) = process_counter s"
    "pcbs (initialised im st s) = pcbs s" "curr_scheduler (initialised im st s) = curr_scheduler s"
    "current_terminal (initialised im st s) = current_terminal s" "mem (initialised im st s) = mem s"
    "ldt_desc_ptr (initialised im st s) = ldt_desc_ptr s" "tss_desc_ptr (initialised im st s) = tss_desc_ptr s"
    "tss_esp0 (initialised im st s) = tss_esp0 s"
    "terminal (initialised im st s) t = (if t < 3 then (terminal s t)\<lparr>pcb := 0\<rparr> else terminal s t)"
    "if_flag (initialised im st s)" "idt (initialised im st s) = idt_init (link im) (idt s)"
    "boot_block_addr (initialised im st s) = st" "inode_addr (initialised im st s) = st + 4096"
    "data_block_addr (initialised im st s) = st + 4096 + 4096 * load32 (mem s) (st + 4)"
    "keybufferCount (initialised im st s) t = (if t < 3 then 0 else keybufferCount s t)"
  by (simp_all add: initialised_def devices_up_def Let_def init_fields u8_less_3)

lemma initialised_mods_inv: "mods_inv (initialised im st s)"
proof -
  let ?k = "keyboard_init (i8259_init (s\<lparr>idt := idt_init (link im) (idt s)\<rparr>))"
  have "mods_inv ?k" by (rule keyboard_init_fields)
  then show ?thesis unfolding initialised_def devices_up_def Let_def mods_inv_def init_fields .
qed

lemma initialised_tables:
  assumes "\<And>a i. flags (file_descriptor (pcbs s a) i) = 0"
  shows "fds_ok (initialised im st s)" "fops_ok (initialised im st s)"
proof -
  show "fds_ok (initialised im st s)" using assms by (simp add: fds_ok_def initialised_fields)
  have "fops_ok (init_fops_table u)" for u :: "'a boot_scheme" by (simp add: fops_ok_def init_fops_table_def)
  then show "fops_ok (initialised im st s)" unfolding fops_ok_def initialised_def devices_up_def Let_def init_fields .
qed

lemma initialised_translate:
  assumes "aligned_tables s"
  shows "translate (initialised im st s) user wr a =
    (if \<not> user \<and> (0xB8000 \<le> a \<and> a < 0xBC000 \<or> 0x400000 \<le> a \<and> a < 0x800000) then Some a else None)"
proof -
  let ?k = "keyboard_init (i8259_init (s\<lparr>idt := idt_init (link im) (idt s)\<rparr>))"
  have "translate (initialised im st s) user wr a = translate (paging_init ?k) user wr a"
    unfolding translate_def initialised_def devices_up_def Let_def init_fields ..
  moreover have "aligned_tables ?k" using assms by (simp add: aligned_tables_def init_fields)
  ultimately show ?thesis by (simp only: translate_paging_init)
qed

text \<open>The addresses the kernel can reach once paging is on.\<close>

definition kernel_mapped :: "u32 \<Rightarrow> bool" where
  "kernel_mapped a \<longleftrightarrow> 0xB8000 \<le> a \<and> a < 0xBC000 \<or> 0x400000 \<le> a \<and> a < 0x800000"

lemma devices_up_mapped:
  assumes "aligned_tables s"
  shows "boot_block_mapped st (devices_up im s) \<longleftrightarrow> (\<forall>i < 4. kernel_mapped (st + 4 + of_nat i))"
proof -
  let ?k = "keyboard_init (i8259_init (s\<lparr>idt := idt_init (link im) (idt s)\<rparr>))"
  have al: "aligned_tables ?k" using assms by (simp add: aligned_tables_def init_fields)
  have "translate (devices_up im s) user wr a = translate (paging_init ?k) user wr a" for user wr a
    unfolding translate_def devices_up_def init_fields ..
  then show ?thesis
    unfolding boot_block_mapped_def list_all_iff translate_paging_init [OF al] kernel_mapped_def by auto
qed

text \<open>The initialisation establishes the invariants from the static data.\<close>

lemma initialised_booted:
  assumes "static_data s" and "console_inv s" and "seg_base (ldt_desc_ptr s) = ldt_addr im" and "seg_base (tss_desc_ptr s) = tss_addr im"
    and "tss_esp0 s = 0x800000"
  shows "booted im st (idt s) (initialised im st s)"
proof -
  let ?s = "initialised im st s"
  note f = initialised_fields [of im st s]
  have sd: "pid s p = VACANT" "process_counter s = - 1" "curr_scheduler s = 0" "current_terminal s = 0" "keybufferCount s t = 0"
    for p t
    using assms(1) by (simp_all add: static_data_def)
  have "proc_table ?s (\<lambda>_. [])" by (simp add: proc_table_def all_procs_def f sd)
  moreover have "console_inv ?s" using assms(2) by (simp add: console_inv_def cursor_ok_def term_pos_def f)
  moreover have "lines_inv ?s" by (simp add: lines_inv_def typed_def f sd)
  moreover have "irq_masked ?s n \<longleftrightarrow> n \<notin> {0, 1, 2, 8}" if "n < 16" for n
    using initialised_lines [of s n] that assms(1) by (simp add: static_data_def)
  moreover have "translate ?s user wr a =
      (if \<not> user \<and> (0xB8000 \<le> a \<and> a < 0xBC000 \<or> 0x400000 \<le> a \<and> a < 0x800000) then Some a else None)" for user wr a
    using assms(1) by (intro initialised_translate) (simp add: aligned_tables_def static_data_def)
  moreover have "fds_ok ?s" "fops_ok ?s" using initialised_tables [of s] assms(1) by (simp_all add: static_data_def)
  ultimately show ?thesis unfolding booted_def using assms(3-5) by (simp add: f sd stat_inode_num_def initialised_mods_inv)
qed

section \<open>The report\<close>

text \<open>\<open>printf\<close> is console output.\<close>

lemma puts_step: "puts a s = Some (r, s') \<Longrightarrow> console_step s s'"
proof -
  have "puts_loop a i s = Some y \<Longrightarrow> console_step s (snd y)" for i s y
  proof (erule puts_loop.raw_induct [where P = "\<lambda>_ _ s y. console_step s (snd y)", rotated], goal_cases)
    case (1 rec str index s y)
    have "console_step s (snd y)" if "rec str (Suc index) (putc c s) = Some y" for c
      using console_step_trans [OF putc_step] 1(1) [OF that] .
    then show ?case using 1(2) by (auto simp: console_step_refl split: if_splits)
  qed
  then show "puts a s = Some (r, s') \<Longrightarrow> console_step s s'" by (fastforce simp: puts_def)
qed

lemma conversion_steps:
  "put_number cb v radix s = Some s' \<Longrightarrow> console_step s s'"
  "put_signed cb v s = Some s' \<Longrightarrow> console_step s s'"
  "put_hex_padded cb v s = Some s' \<Longrightarrow> console_step s s'"
proof -
  have p: "puts a (s\<lparr>mem := m\<rparr>) = Some (r, s') \<Longrightarrow> console_step s s'" for a m r s'
    by (rule console_step_trans [OF console_step_mem puts_step])
  show n: "put_number cb v radix s = Some s' \<Longrightarrow> console_step s s'" for radix
    by (auto simp: put_number_def split: option.splits dest: p)
  show "put_signed cb v s = Some s' \<Longrightarrow> console_step s s'"
    by (auto simp: put_signed_def split: option.splits if_splits dest: p n)
  show "put_hex_padded cb v s = Some s' \<Longrightarrow> console_step s s'"
    by (auto simp: put_hex_padded_def Let_def split: option.splits dest: p)
qed

lemma printf_loop_step: "printf_loop cb fmt pct al args s = Some s' \<Longrightarrow> console_step s s'"
proof (induction fmt arbitrary: pct al args s)
  case (Cons c fmt)
  have next_char: "printf_loop cb fmt False False args (putc d s) = Some s' \<Longrightarrow> console_step s s'" for d
    using Cons.IH console_step_trans [OF putc_step] by blast
  have conv: "console_step s s1 \<Longrightarrow> printf_loop cb fmt False False args' s1 = Some s' \<Longrightarrow> console_step s s'" for s1 args'
    using Cons.IH console_step_trans by blast
  show ?case
  proof (cases pct)
    case False
    then show ?thesis using Cons.prems next_char Cons.IH by (auto split: if_splits)
  next
    case True
    then show ?thesis
      using Cons.prems next_char Cons.IH
      by (auto split: if_splits list.splits option.splits intro: conv putc_step dest: puts_step conversion_steps)
  qed
next
  case Nil
  then show ?case by (cases pct) (auto simp: console_step_refl)
qed

lemma print_step: "print im fmt args s = Some s' \<Longrightarrow> console_step s s'"
  by (auto simp: print_def printf_def dest: printf_loop_step)

text \<open>The bytes that a report leaves alone, and what a report promises.\<close>

definition untouched :: "image \<Rightarrow> u32 \<Rightarrow> bool" where
  "untouched im x \<longleftrightarrow> \<not> in_conv (conv_addr im) x \<and> \<not> in_page VIDEO x"

definition report_ok :: "image \<Rightarrow> 'a console_scheme \<Rightarrow> bool" where
  "report_ok im s \<longleftrightarrow> conv_ok (conv_addr im) s \<and> curr_scheduler s = 0 \<and> current_terminal s = 0"

definition shown :: "image \<Rightarrow> 'a console_scheme \<Rightarrow> 'a console_scheme \<Rightarrow> bool" where
  "shown im s s' \<longleftrightarrow> report_ok im s' \<and> console_step s s' \<and> (\<forall>x. untouched im x \<longrightarrow> mem s' x = mem s x)"

lemma shown_refl: "report_ok im s \<Longrightarrow> shown im s s"
  by (simp add: shown_def console_step_refl)

lemma shown_trans: "shown im s t \<Longrightarrow> shown im t u \<Longrightarrow> shown im s u"
  using console_step_trans by (auto simp: shown_def)

lemma shown_ok: "shown im s s' \<Longrightarrow> report_ok im s'"
  by (simp add: shown_def)

lemma print_shown:
  assumes ok: "report_ok im s" and "strings_ok (conv_addr im) str s"
    and "render str (bytes_of fmt) False False args = Some cs"
  shows "\<exists>s'. print im fmt args s = Some s' \<and> shown im s s'"
proof -
  have c: "conv_ok (conv_addr im) s" using ok by (simp add: report_ok_def)
  from printf_loop_renders [OF c assms(2,3)] obtain s' where
    p: "printf_loop (conv_addr im) (bytes_of fmt) False False args s = Some s'" and t: "typed_text (conv_addr im) s cs s'" by blast
  have "page_of s (curr_scheduler s) = VIDEO" using ok by (simp add: report_ok_def page_of_def)
  then have "shown im s s'"
    using t ok typed_text_conv_ok [OF t c] printf_loop_step [OF p]
    by (simp add: shown_def report_ok_def typed_text_def untouched_def)
  then show ?thesis using p by (auto simp: print_def printf_def)
qed

text \<open>Formats without strings can always be printed.\<close>

lemma print_numbers:
  assumes "report_ok im s" and "render (\<lambda>_. None) (bytes_of fmt) False False args \<noteq> None"
  shows "\<exists>s'. print im fmt args s = Some s' \<and> shown im s s'"
proof -
  have "strings_ok (conv_addr im) (\<lambda>_. None) s" by (simp add: strings_ok_def)
  then show ?thesis using print_shown [OF assms(1)] assms(2) by blast
qed

lemma print_bytes_shown: "report_ok im s \<Longrightarrow> \<exists>s'. print_bytes im md is s = Some s' \<and> shown im s s'"
proof (induction "is" arbitrary: s)
  case (Cons i "is")
  obtain s1 where s1: "print im ''0x%x '' [scast (mem s (mod_start (mem s) md + of_nat i))] s = Some s1" "shown im s s1"
    using print_numbers [OF Cons.prems, of "''0x%x ''" "[scast (mem s (mod_start (mem s) md + of_nat i))]"]
    by (auto simp: bytes_of_def conv_text_def)
  from Cons.IH [OF shown_ok [OF s1(2)]] s1 shown_trans show ?case by fastforce
qed (simp add: shown_refl)

lemma print_module_shown: "report_ok im s \<Longrightarrow> \<exists>s'. print_module im md n s = Some s' \<and> shown im s s'"
proof -
  assume ok: "report_ok im s"
  note nums = print_numbers [OF shown_ok] and r = bytes_of_def conv_text_def
  obtain s1 where s1: "print im (''Module %d loaded at address: 0x%#x'' @ [CHR 0x0A]) [n, mod_start (mem s) md] s = Some s1" "shown im s s1"
    using print_numbers [OF ok, of "''Module %d loaded at address: 0x%#x'' @ [CHR 0x0A]" "[n, mod_start (mem s) md]"] by (auto simp: r)
  obtain s2 where s2: "print im (''Module %d ends at address: 0x%#x'' @ [CHR 0x0A]) [n, mod_end (mem s1) md] s1 = Some s2" "shown im s1 s2"
    using nums [OF s1(2), of "''Module %d ends at address: 0x%#x'' @ [CHR 0x0A]" "[n, mod_end (mem s1) md]"] by (auto simp: r)
  obtain s3 where s3: "print im (''First few bytes of module:'' @ [CHR 0x0A]) [] s2 = Some s3" "shown im s2 s3"
    using nums [OF s2(2), of "''First few bytes of module:'' @ [CHR 0x0A]" "[]"] by (auto simp: r)
  obtain s4 where s4: "print_bytes im md [0..<16] s3 = Some s4" "shown im s3 s4"
    using print_bytes_shown [OF shown_ok [OF s3(2)]] by blast
  obtain s5 where s5: "print im [CHR 0x0A] [] s4 = Some s5" "shown im s4 s5"
    using nums [OF s4(2), of "[CHR 0x0A]" "[]"] by (auto simp: r)
  have "shown im s s5" using s1(2) s2(2) s3(2) s4(2) s5(2) shown_trans by blast
  then show ?thesis using s1(1) s2(1) s3(1) s4(1) s5(1) unfolding print_module_def by simp
qed

section \<open>The boot loader's structures\<close>

lemma load32_shown:
  assumes "shown im s s'" and "\<And>i. i < 4 \<Longrightarrow> untouched im (a + of_nat i)"
  shows "load32 (mem s') a = load32 (mem s) a"
proof -
  have "mem s' (a + of_nat i) = mem s (a + of_nat i)" if "i < 4" for i
    using assms that by (simp add: shown_def)
  from this [of 0] this [of 1] this [of 2] this [of 3] show ?thesis by (simp add: load32_def)
qed

text \<open>The information structure lies where the report does not write.\<close>

definition info_ok :: "image \<Rightarrow> u32 \<Rightarrow> bool" where
  "info_ok im mbi \<longleftrightarrow> (\<forall>i < 52. untouched im (mbi + of_nat i))"

lemma info_shown:
  assumes "info_ok im mbi" and "shown im s s'"
  shows "mbi_flags (mem s') mbi = mbi_flags (mem s) mbi" "mbi_cmdline (mem s') mbi = mbi_cmdline (mem s) mbi"
    "mbi_mods_count (mem s') mbi = mbi_mods_count (mem s) mbi" "mbi_mods_addr (mem s') mbi = mbi_mods_addr (mem s) mbi"
    "mbi_mmap_length (mem s') mbi = mbi_mmap_length (mem s) mbi" "mbi_mmap_addr (mem s') mbi = mbi_mmap_addr (mem s) mbi"
proof -
  have "load32 (mem s') (mbi + of_nat k) = load32 (mem s) (mbi + of_nat k)" if "k \<le> 48" for k
  proof (rule load32_shown [OF assms(2)])
    fix i :: nat assume "i < 4"
    then have "untouched im (mbi + of_nat (k + i))" using assms(1) that unfolding info_ok_def by (simp del: of_nat_add)
    then show "untouched im (mbi + of_nat k + of_nat i)" by (simp add: add.assoc)
  qed
  from this [of 0] this [of 16] this [of 20] this [of 24] this [of 44] this [of 48] show
    "mbi_flags (mem s') mbi = mbi_flags (mem s) mbi" "mbi_cmdline (mem s') mbi = mbi_cmdline (mem s) mbi"
    "mbi_mods_count (mem s') mbi = mbi_mods_count (mem s) mbi" "mbi_mods_addr (mem s') mbi = mbi_mods_addr (mem s) mbi"
    "mbi_mmap_length (mem s') mbi = mbi_mmap_length (mem s) mbi" "mbi_mmap_addr (mem s') mbi = mbi_mmap_addr (mem s) mbi"
    by (simp_all add: mbi_flags_def mbi_cmdline_def mbi_mods_count_def mbi_mods_addr_def mbi_mmap_length_def mbi_mmap_addr_def)
qed

lemma print_modules_shown:
  assumes "info_ok im mbi" and "report_ok im s"
  shows "\<exists>s'. print_modules im mbi md n s = Some s' \<and> shown im s s'"
  using assms(2)
proof (induction "unat (mbi_mods_count (mem s) mbi) - unat n" arbitrary: md n s)
  case 0
  then show ?case by (subst print_modules.simps) (simp add: shown_refl word_less_nat_alt)
next
  case (Suc d)
  let ?c = "mbi_mods_count (mem s) mbi"
  have lt: "n < ?c" using Suc.hyps(2) by (simp add: word_less_nat_alt)
  then have n: "unat (n + 1) = unat n + 1" using unsigned_less [of ?c, where ?'a = nat]
    by (subst unat_plus_simple [THEN iffD1]) (auto simp: word_less_nat_alt word_le_nat_alt unat_word_ariths)
  obtain s1 where s1: "print_module im md n s = Some s1" "shown im s s1" using print_module_shown [OF Suc.prems] by blast
  have "d = unat (mbi_mods_count (mem s1) mbi) - unat (n + 1)"
    using Suc.hyps(2) n info_shown(3) [OF assms(1) s1(2)] by simp
  from Suc.hyps(1) [OF this shown_ok [OF s1(2)], of "md + 16"] obtain s2 where
    "print_modules im mbi (md + 16) (n + 1) s1 = Some s2" "shown im s1 s2" by blast
  then show ?case using s1 lt shown_trans by (subst print_modules.simps) auto
qed

text \<open>The chain of memory map entries from \<open>a\<close> reaches the end \<open>lim\<close> of the map in \<open>n\<close> entries at most.\<close>

fun mmap_ends :: "image \<Rightarrow> mem \<Rightarrow> u32 \<Rightarrow> nat \<Rightarrow> u32 \<Rightarrow> bool" where
  "mmap_ends im m lim 0 a \<longleftrightarrow> lim \<le> a"
| "mmap_ends im m lim (Suc n) a \<longleftrightarrow> lim \<le> a \<or>
     (\<forall>i < 4. untouched im (a + of_nat i)) \<and> mmap_ends im m lim n (a + load32 m a + 4)"

lemma mmap_ends_shown: "shown im s s' \<Longrightarrow> mmap_ends im (mem s) lim n a \<Longrightarrow> mmap_ends im (mem s') lim n a"
  by (induction n arbitrary: a) (auto simp: load32_shown)

lemma print_mmap_shown:
  assumes "info_ok im mbi" and "report_ok im s"
    and "mmap_ends im (mem s) (mbi_mmap_addr (mem s) mbi + mbi_mmap_length (mem s) mbi) n a"
  shows "\<exists>s'. print_mmap im mbi a s = Some s' \<and> shown im s s'"
  using assms(2,3)
proof (induction n arbitrary: a s)
  case 0
  then show ?case by (subst print_mmap.simps) (auto simp: shown_refl)
next
  case (Suc n)
  let ?lim = "mbi_mmap_addr (mem s) mbi + mbi_mmap_length (mem s) mbi"
  let ?f = "''    size = 0x%x, base_addr = 0x%#x%#x'' @ [CHR 0x0A] @ ''    type = 0x%x,  length    = 0x%#x%#x'' @ [CHR 0x0A]"
  let ?as = "[load32 (mem s) a, load32 (mem s) (a + 8), load32 (mem s) (a + 4), load32 (mem s) (a + 20),
                load32 (mem s) (a + 16), load32 (mem s) (a + 12)]"
  show ?case
  proof (cases "?lim \<le> a")
    case True
    then show ?thesis using Suc.prems(1) by (subst print_mmap.simps) (auto simp: shown_refl)
  next
    case False
    have "render (\<lambda>_. None) (bytes_of ?f) False False ?as \<noteq> None" by (simp add: bytes_of_def conv_text_def)
    from print_numbers [OF Suc.prems(1) this] obtain s1 where s1: "print im ?f ?as s = Some s1" "shown im s s1" by blast
    have a: "load32 (mem s1) a = load32 (mem s) a" using Suc.prems(2) False by (intro load32_shown [OF s1(2)]) simp
    have "mmap_ends im (mem s1) (mbi_mmap_addr (mem s1) mbi + mbi_mmap_length (mem s1) mbi) n (a + load32 (mem s1) a + 4)"
      using Suc.prems(2) False mmap_ends_shown [OF s1(2)] by (simp add: a info_shown [OF assms(1) s1(2)])
    from Suc.IH [OF shown_ok [OF s1(2)] this] obtain s2 where
      "print_mmap im mbi (a + load32 (mem s1) a + 4) s1 = Some s2" "shown im s1 s2" by blast
    then show ?thesis using s1 False shown_trans by (subst print_mmap.simps) (auto simp: not_le)
  qed
qed

text \<open>
  What the boot loader has to pass for \<open>entry\<close> to come through: the structures lie outside the
  screen and the conversion buffer, the command line ends, bits 4 and 5 exclude each other, and
  the chain of memory map entries reaches its end.
\<close>

definition multiboot_ok :: "image \<Rightarrow> u32 \<Rightarrow> mem \<Rightarrow> bool" where
  "multiboot_ok im mbi m \<longleftrightarrow>
     (let fl = mbi_flags m mbi in
      info_ok im mbi \<and>
      (CHECK_FLAG fl 2 \<longrightarrow> (\<exists>bs. cstr (ptr m (mbi_cmdline m mbi)) bs \<and>
         (\<forall>i \<le> length bs. untouched im (mbi_cmdline m mbi + of_nat i)))) \<and>
      (CHECK_FLAG fl 3 \<longrightarrow> (\<forall>i < 4. untouched im (mbi_mods_addr m mbi + of_nat i))) \<and>
      \<not> (CHECK_FLAG fl 4 \<and> CHECK_FLAG fl 5) \<and>
      (CHECK_FLAG fl 6 \<longrightarrow> (\<exists>n. mmap_ends im m (mbi_mmap_addr m mbi + mbi_mmap_length m mbi) n (mbi_mmap_addr m mbi))))"

definition start_of :: "image \<Rightarrow> u32 \<Rightarrow> mem \<Rightarrow> u32" where
  "start_of im mbi m = (if CHECK_FLAG (mbi_flags m mbi) 3 then mod_start m (mbi_mods_addr m mbi) else start_addr0 im)"

lemma multiboot_shown:
  assumes "multiboot_ok im mbi (mem s)" and sh: "shown im s s'"
  shows "multiboot_ok im mbi (mem s')" "start_of im mbi (mem s') = start_of im mbi (mem s)"
    "mbi_flags (mem s') mbi = mbi_flags (mem s) mbi"
proof -
  have "info_ok im mbi" using assms(1) by (simp add: multiboot_ok_def Let_def)
  note i = info_shown [OF this sh]
  have "cstr (ptr (mem s') a) bs" if "cstr (ptr (mem s) a) bs" "\<forall>i \<le> length bs. untouched im (a + of_nat i)" for a bs
  proof -
    have "mem s' (a + of_nat i) = mem s (a + of_nat i)" if "i \<le> length bs" for i
      using sh that \<open>\<forall>i \<le> length bs. untouched im (a + of_nat i)\<close> by (simp add: shown_def)
    then show ?thesis using that(1) by (simp add: cstr_def ptr_def)
  qed
  then show "multiboot_ok im mbi (mem s')"
    using assms(1) mmap_ends_shown [OF sh] unfolding multiboot_ok_def Let_def i by blast
  show "start_of im mbi (mem s') = start_of im mbi (mem s)"
    using assms(1) load32_shown [OF sh] by (simp add: start_of_def i mod_start_def multiboot_ok_def Let_def)
  show "mbi_flags (mem s') mbi = mbi_flags (mem s) mbi" by (rule i)
qed

text \<open>Each report comes through.\<close>

lemma when_flag_shown:
  assumes "report_ok im s"
    and "CHECK_FLAG (mbi_flags (mem s) mbi) b \<Longrightarrow> \<exists>s'. act s = Some s' \<and> shown im s s'"
  shows "\<exists>s'. when_flag mbi b act s = Some s' \<and> shown im s s'"
  using assms shown_refl by (auto simp: when_flag_def)

lemma reports_shown:
  assumes ok: "report_ok im s" and mb: "multiboot_ok im mbi (mem s)"
  shows "\<exists>s'. when_flag mbi 0 (report_memory im mbi) s = Some s' \<and> shown im s s'"
    and "\<exists>s'. when_flag mbi 1 (report_device im mbi) s = Some s' \<and> shown im s s'"
    and "\<exists>s'. when_flag mbi 2 (report_cmdline im mbi) s = Some s' \<and> shown im s s'"
    and "\<exists>s'. when_flag mbi 3 (report_modules im mbi) s = Some s' \<and> shown im s s'"
    and "\<exists>s'. when_flag mbi 5 (report_elf im mbi) s = Some s' \<and> shown im s s'"
    and "\<exists>s'. when_flag mbi 6 (report_mmap im mbi) s = Some s' \<and> shown im s s'"
proof -
  have info: "info_ok im mbi" using mb by (simp add: multiboot_ok_def Let_def)
  note w = when_flag_shown [OF ok] and p = print_numbers [OF ok]
  show "\<exists>s'. when_flag mbi 0 (report_memory im mbi) s = Some s' \<and> shown im s s'"
    unfolding report_memory_def by (intro w p) (simp add: bytes_of_def conv_text_def)
  show "\<exists>s'. when_flag mbi 1 (report_device im mbi) s = Some s' \<and> shown im s s'"
    unfolding report_device_def by (intro w p) (simp add: bytes_of_def conv_text_def)
  show "\<exists>s'. when_flag mbi 5 (report_elf im mbi) s = Some s' \<and> shown im s s'"
    unfolding report_elf_def by (intro w p) (simp add: bytes_of_def conv_text_def)
  show "\<exists>s'. when_flag mbi 3 (report_modules im mbi) s = Some s' \<and> shown im s s'"
    unfolding report_modules_def by (intro w print_modules_shown info ok)
  show "\<exists>s'. when_flag mbi 2 (report_cmdline im mbi) s = Some s' \<and> shown im s s'"
  proof (rule w)
    assume "CHECK_FLAG (mbi_flags (mem s) mbi) 2"
    then obtain bs where bs: "cstr (ptr (mem s) (mbi_cmdline (mem s) mbi)) bs"
      "\<forall>i \<le> length bs. untouched im (mbi_cmdline (mem s) mbi + of_nat i)" using mb by (auto simp: multiboot_ok_def Let_def)
    let ?str = "\<lambda>a. if a = mbi_cmdline (mem s) mbi then Some bs else None"
    have "page_of s (curr_scheduler s) = VIDEO" using ok by (simp add: report_ok_def page_of_def)
    then have "strings_ok (conv_addr im) ?str s" using bs by (auto simp: strings_ok_def untouched_def split: if_splits)
    moreover have "render ?str (bytes_of (''cmdline = %s'' @ [CHR 0x0A])) False False [mbi_cmdline (mem s) mbi] =
        Some (bytes_of ''cmdline = '' @ bs @ [0x0A])"
      by (simp add: bytes_of_def conv_text_def)
    ultimately show "\<exists>s'. report_cmdline im mbi s = Some s' \<and> shown im s s'"
      unfolding report_cmdline_def by (rule print_shown [OF ok])
  qed
  show "\<exists>s'. when_flag mbi 6 (report_mmap im mbi) s = Some s' \<and> shown im s s'"
  proof (rule w)
    assume "CHECK_FLAG (mbi_flags (mem s) mbi) 6"
    then obtain n where n: "mmap_ends im (mem s) (mbi_mmap_addr (mem s) mbi + mbi_mmap_length (mem s) mbi) n (mbi_mmap_addr (mem s) mbi)"
      using mb by (auto simp: multiboot_ok_def Let_def)
    let ?f = "''mmap_addr = 0x%#x, mmap_length = 0x%x'' @ [CHR 0x0A]" and ?as = "[mbi_mmap_addr (mem s) mbi, mbi_mmap_length (mem s) mbi]"
    obtain s1 where s1: "print im ?f ?as s = Some s1" "shown im s s1"
      using p [of ?f ?as] by (auto simp: bytes_of_def conv_text_def)
    obtain s2 where "print_mmap im mbi (mbi_mmap_addr (mem s1) mbi) s1 = Some s2" "shown im s1 s2"
      using print_mmap_shown [OF info shown_ok [OF s1(2)]] mmap_ends_shown [OF s1(2) n] by (auto simp: info_shown [OF info s1(2)])
    then show "\<exists>s'. report_mmap im mbi s = Some s' \<and> shown im s s'"
      using s1 shown_trans by (auto simp: report_mmap_def)
  qed
qed

section \<open>The whole path\<close>

lemma clear_shown: "report_ok im s \<Longrightarrow> shown im s (clear s)"
  by (simp add: shown_def report_ok_def clear_def conv_ok_mem console_step_mem)
    (simp add: untouched_def clear_cell_frame [unfolded clear_def, simplified])

lemma entry_running:
  assumes ok: "report_ok im s" and mb: "multiboot_ok im mbi (mem s)"
  shows "\<exists>s1. shown im s s1 \<and> kernel_entry im MULTIBOOT_BOOTLOADER_MAGIC mbi s =
    Some (init_devices im (start_of im mbi (mem s)) (build_tss im (build_ldt im s1)))"
proof -
  define step where "step = (\<lambda>u. shown im s u)"
  have keep: "report_ok im u" "multiboot_ok im mbi (mem u)" "start_of im mbi (mem u) = start_of im mbi (mem s)"
    "mbi_flags (mem u) mbi = mbi_flags (mem s) mbi" if "step u" for u
    using that multiboot_shown [OF mb] shown_ok unfolding step_def by blast+
  have nxt: "step u \<Longrightarrow> shown im u v \<Longrightarrow> step v" for u v using shown_trans unfolding step_def by blast
  have s0: "step (clear s)" unfolding step_def by (rule clear_shown [OF ok])
  let ?f = "''flags = 0x%#x'' @ [CHR 0x0A]"
  obtain s1 where s1: "print im ?f [mbi_flags (mem (clear s)) mbi] (clear s) = Some s1" "step s1"
    using print_numbers [OF keep(1) [OF s0], of ?f "[mbi_flags (mem (clear s)) mbi]"] nxt [OF s0]
    by (auto simp: bytes_of_def conv_text_def)
  note r = reports_shown [OF keep(1,2)]
  obtain s2 where s2: "when_flag mbi 0 (report_memory im mbi) s1 = Some s2" "step s2" using r(1) [OF s1(2) s1(2)] nxt [OF s1(2)] by blast
  obtain s3 where s3: "when_flag mbi 1 (report_device im mbi) s2 = Some s3" "step s3" using r(2) [OF s2(2) s2(2)] nxt [OF s2(2)] by blast
  obtain s4 where s4: "when_flag mbi 2 (report_cmdline im mbi) s3 = Some s4" "step s4" using r(3) [OF s3(2) s3(2)] nxt [OF s3(2)] by blast
  obtain s5 where s5: "when_flag mbi 3 (report_modules im mbi) s4 = Some s5" "step s5" using r(4) [OF s4(2) s4(2)] nxt [OF s4(2)] by blast
  obtain s6 where s6: "when_flag mbi 5 (report_elf im mbi) s5 = Some s6" "step s6" using r(5) [OF s5(2) s5(2)] nxt [OF s5(2)] by blast
  obtain s7 where s7: "when_flag mbi 6 (report_mmap im mbi) s6 = Some s7" "step s7" using r(6) [OF s6(2) s6(2)] nxt [OF s6(2)] by blast
  have "\<not> (CHECK_FLAG (mbi_flags (mem s5) mbi) 4 \<and> CHECK_FLAG (mbi_flags (mem s5) mbi) 5)"
    using keep(2) [OF s5(2)] by (simp add: multiboot_ok_def Let_def)
  then have "kernel_entry im MULTIBOOT_BOOTLOADER_MAGIC mbi s =
      Some (init_devices im (start_of im mbi (mem s4)) (build_tss im (build_ldt im s7)))"
    unfolding kernel_entry_def Let_def by (simp only: s1 s2 s3 s4 s5 s6 s7 option.case simp_thms if_False start_of_def)
  then show ?thesis using keep(3) [OF s4(2)] s7(2) unfolding step_def by auto
qed

lemma build_fields:
  "seg_base (ldt_desc_ptr (build_tss im (build_ldt im s))) = ldt_addr im"
  "seg_base (tss_desc_ptr (build_tss im (build_ldt im s))) = tss_addr im"
  "tss_esp0 (build_tss im (build_ldt im s)) = 0x800000" "idt (build_tss im (build_ldt im s)) = idt s"
  "static_data (build_tss im (build_ldt im s)) = static_data s" "console_inv (build_tss im (build_ldt im s)) = console_inv s"
  by (simp_all add: build_tss_def build_ldt_def Let_def seg_base_set static_data_def console_inv_def)

lemma console_step_boot:
  assumes "console_step s (s' :: 'a boot_scheme)"
  shows "static_data s' = static_data s" "idt s' = idt s"
proof -
  have eq: "s' = s\<lparr>mem := mem s', io_log := io_log s', terminal := terminal s'\<rparr>"
    using assms by (simp add: console_step_def)
  show "static_data s' = static_data s" by (subst eq) (simp add: static_data_def)
  show "idt s' = idt s" by (subst eq) simp
qed

lemma entry_booted:
  assumes "static_data s" and "conv_ok (conv_addr im) s" and "multiboot_ok im mbi (mem s)"
  defines "start \<equiv> start_of im mbi (mem s)"
  shows "\<exists>s'. if \<forall>i < 4. kernel_mapped (start + 4 + of_nat i)
    then kernel_entry im MULTIBOOT_BOOTLOADER_MAGIC mbi s = Some (Running, s') \<and> booted im start (idt s) s'
    else kernel_entry im MULTIBOOT_BOOTLOADER_MAGIC mbi s = Some (File_system_fault, s')"
proof -
  have "report_ok im s" using assms(1,2) by (simp add: report_ok_def static_data_def)
  from entry_running [OF this assms(3)] obtain s1 where sh: "shown im s s1" and
    e: "kernel_entry im MULTIBOOT_BOOTLOADER_MAGIC mbi s = Some (init_devices im start (build_tss im (build_ldt im s1)))"
    unfolding start_def by blast
  let ?b = "build_tss im (build_ldt im s1)"
  have "console_step s s1" "console_inv s1" using sh by (simp_all add: shown_def report_ok_def conv_ok_def)
  then have b: "static_data ?b" "console_inv ?b" "idt ?b = idt s"
    using assms(1) console_step_boot [of s s1] by (simp_all add: build_fields)
  from b(1) have "aligned_tables ?b" by (simp add: aligned_tables_def static_data_def)
  note m = devices_up_mapped [OF this, of start im]
  show ?thesis
  proof (cases "\<forall>i < 4. kernel_mapped (start + 4 + of_nat i)")
    case True
    then show ?thesis
      using initialised_booted [OF b(1,2) build_fields(1-3), of start] m b(3) unfolding e init_devices_eq by simp
  next
    case False
    then have "\<not> boot_block_mapped start (devices_up im ?b)" using m by blast
    then show ?thesis unfolding e init_devices_eq if_not_P [OF False] by simp
  qed
qed

section \<open>Properties\<close>

text \<open>C19. The boot path comes through and establishes the kernel's invariants. For a
  Multiboot loader that passes well-formed information, \<open>entry\<close> reaches its idle loop exactly when
  the word it reads of the file system's first block lies in the pages \<open>paging_init\<close> maps for the
  kernel, and page-faults otherwise. In the idle loop no process
  exists and all identifiers are free, the keyboard and the lines are reset, interrupts are
  on with exactly the timer, the keyboard, the cascade and the clock unmasked, every vector
  has its gate, the descriptors of LDT and TSS point to their tables, the file system starts
  at the first module, and exactly the kernel's page and the text pages are mapped. Without
  modules the file system starts wherever the unassigned variable \<open>start_addr\<close> says.\<close>

theorem boot_establishes_invariants:
  assumes "static_data s" and "conv_ok (conv_addr im) s" and "multiboot_ok im mbi (mem s)"
    and "start = start_of im mbi (mem s)"
  shows "\<exists>s'. if \<forall>i < 4. kernel_mapped (start + 4 + of_nat i)
    then kernel_entry im MULTIBOOT_BOOTLOADER_MAGIC mbi s = Some (Running, s') \<and> booted im start (idt s) s'
    else kernel_entry im MULTIBOOT_BOOTLOADER_MAGIC mbi s = Some (File_system_fault, s')"
  unfolding assms(4) by (rule entry_booted [OF assms(1-3)])

text \<open>A machine as the loader leaves it, with one module, the file system, at 5 MB.\<close>

definition sample_seg :: seg_desc_t where
  "sample_seg = \<lparr>seg_lim_15_00 = 0, base_15_00 = 0, base_23_16 = 0, seg_type = 0, seg_sys = 0, seg_dpl = 0, seg_present = 0,
     seg_lim_19_16 = 0, seg_avail = 0, seg_reserved = 0, seg_opsize = 0, seg_granularity = 0, base_31_24 = 0\<rparr>"

definition sample_load :: image where
  "sample_load = \<lparr>link = \<lambda>_. 0x401000, ldt_addr = 0x402000, tss_addr = 0x403000, conv_addr = 0x7F9000, start_addr0 = 0,
     stack_desc = sample_seg\<rparr>"

definition sample_info :: mem where
  "sample_info = store32 (store32 (store32 (store32 (\<lambda>_. 0) 0x20000 8) 0x20014 1) 0x20018 0x30000) 0x30000 0x500000"

definition sample_boot :: boot where
  "sample_boot = kernel.extend
     (sample_kernel\<lparr>mem := sample_info, master_mask := 0xFF, slave_mask := 0xFF, pid := \<lambda>_. VACANT,
        process_counter := - 1, curr_scheduler := 0, current_terminal := 0, keybufferCount := \<lambda>_. 0,
        terminal := \<lambda>_. \<lparr>pcb = 0, screen_x = 0, screen_y = 0\<rparr>, page_table_video_addr := 0x406000,
        pcbs := \<lambda>_. (sample_pcb 0 0 0)\<lparr>file_descriptor := \<lambda>_. \<lparr>pointer = no_fops, inode = 0, file_position = 0, flags = 0\<rparr>\<rparr>\<rparr>)
     (boot.fields (\<lambda>_. \<lparr>offset_15_00 = 0, seg_selector = 0, reserved4 = 0, reserved3 = 0, reserved2 = 0,
        reserved1 = 0, gate_size = 0, reserved0 = 0, dpl = 0, present = 0, offset_31_16 = 0\<rparr>) sample_seg sample_seg 0 0 0)"

lemma sample_boot_static: "static_data sample_boot" "console_inv sample_boot" "mem sample_boot = sample_info"
  by (simp_all add: static_data_def sample_boot_def kernel.extend_def boot.fields_def console_inv_def cursor_ok_def term_pos_def)

lemma beyond_screens:
  assumes "unat a + n \<le> 2 ^ 32" "0xBC000 \<le> unat a" "i < n" "t < 3"
  shows "\<not> in_page (page_of s t) (a + of_nat i)"
proof
  assume "in_page (page_of s t) (a + of_nat i)"
  then obtain j where j: "j < 4000" "a + of_nat i = page_of s t + of_nat j" unfolding in_page_def by blast
  have a: "unat (a + of_nat i) = unat a + i" by (rule unat_run [OF assms(1,3)])
  have p: "unat (page_of s t) \<le> 0xBB000" using assms(4) by (auto simp: page_of_def u8_less_3 vid_page_def)
  then have "unat (page_of s t + of_nat j) = unat (page_of s t) + j"
    using unat_run [of "page_of s t" 4000 j] j(1) by simp
  with a p assms(2) j show False by simp
qed

lemma sample_boot_conv: "conv_ok (conv_addr sample_load) sample_boot"
proof -
  have "\<not> in_page (page_of sample_boot t) x" if "in_conv 0x7F9000 x" "t < 3" for x t
    using that beyond_screens [of "0x7F9000" 64 _ t sample_boot] by (auto simp: in_conv_def)
  then show ?thesis using sample_boot_static(2) by (simp add: conv_ok_def sample_load_def)
qed

lemma sample_untouched:
  assumes "unat x < 0xB8000"
  shows "untouched sample_load x"
proof -
  have "\<not> in_conv 0x7F9000 x"
  proof
    assume "in_conv 0x7F9000 x"
    then obtain i where "i < 64" "x = 0x7F9000 + of_nat i" unfolding in_conv_def by blast
    then show False using assms unat_run [of "0x7F9000" 64 i] by simp
  qed
  moreover have "\<not> in_page VIDEO x"
  proof
    assume "in_page VIDEO x"
    then obtain i where "i < 4000" "x = VIDEO + of_nat i" unfolding in_page_def by blast
    then show False using assms unat_run [of VIDEO 4000 i] by simp
  qed
  ultimately show ?thesis by (simp add: untouched_def sample_load_def)
qed

lemma sample_multiboot:
  "multiboot_ok sample_load 0x20000 (mem sample_boot)" "start_of sample_load 0x20000 (mem sample_boot) = 0x500000"
proof -
  let ?m = "mem sample_boot"
  have "untouched sample_load (0x20000 + of_nat i)" if "i < 52" for i
    using that unat_run [of "0x20000" 52 i] by (intro sample_untouched) simp
  moreover have "untouched sample_load (0x30000 + of_nat i)" if "i < 4" for i
    using that unat_run [of "0x30000" 4 i] by (intro sample_untouched) simp
  moreover have f: "mbi_flags ?m 0x20000 = 8" "mbi_mods_addr ?m 0x20000 = 0x30000" "mod_start ?m 0x30000 = 0x500000"
    by (simp_all add: mbi_flags_def mbi_mods_addr_def mod_start_def sample_boot_static(3) sample_info_def load32_def store32_def)
  moreover have "CHECK_FLAG 8 3" "\<not> CHECK_FLAG 8 2" "\<not> CHECK_FLAG 8 4" "\<not> CHECK_FLAG 8 6" by (simp_all add: CHECK_FLAG_def)
  ultimately show "multiboot_ok sample_load 0x20000 ?m" "start_of sample_load 0x20000 ?m = 0x500000"
    by (simp_all add: multiboot_ok_def info_ok_def start_of_def Let_def)
qed

lemma sample_mapped: "\<forall>i < 4. kernel_mapped (0x500000 + 4 + of_nat i)"
proof (intro allI impI)
  fix i :: nat assume "i < 4"
  then have "i = 0 \<or> i = 1 \<or> i = 2 \<or> i = 3" by arith
  then show "kernel_mapped (0x500000 + 4 + of_nat i)" by (elim disjE) (simp_all add: kernel_mapped_def)
qed

lemma sample_booted:
  "\<exists>s'. kernel_entry sample_load 0x2BADB002 0x20000 sample_boot = Some (Running, s') \<and>
     booted sample_load 0x500000 (idt sample_boot) s'"
  using entry_booted [OF sample_boot_static(1) sample_boot_conv sample_multiboot(1)]
  by (simp only: sample_multiboot(2) if_P [OF sample_mapped])

theorem boot_establishes_invariants_witness:
  "(\<exists>s'. kernel_entry sample_load 0x2BADB002 0x20000 sample_boot = Some (Running, s') \<and>
     booted sample_load 0x500000 (idt sample_boot) s' \<and> \<not> irq_masked s' 8 \<and> irq_masked s' 9)"
proof -
  obtain s' where "kernel_entry sample_load 0x2BADB002 0x20000 sample_boot = Some (Running, s')"
    "booted sample_load 0x500000 (idt sample_boot) s'"
    using boot_establishes_invariants [OF sample_boot_static(1) sample_boot_conv sample_multiboot(1) refl]
    by (simp only: sample_multiboot(2) if_P [OF sample_mapped]) blast
  then show ?thesis by (auto simp: booted_def)
qed

text \<open>A loader that is not Multiboot-compliant is refused: \<open>entry\<close> clears the screen, types the
  magic number it was given and returns; nothing but the screen and its cursor has
  changed.\<close>

theorem boot_refuses_magic:
  assumes "conv_ok (conv_addr im) s" and "curr_scheduler s = 0" and "current_terminal s = 0"
    and "magic \<noteq> MULTIBOOT_BOOTLOADER_MAGIC"
  shows "\<exists>s'. kernel_entry im magic mbi s = Some (Invalid_magic, s') \<and> console_step s s' \<and>
    tty_of s' 0 = fold tty_putc (bytes_of ''Invalid magic number: 0x'' @ pad_hex (numeral_str 16 (unat magic)) @ [NEWLINE])
      (tty_of (clear s) 0)"
proof -
  let ?f = "''Invalid magic number: 0x%#x'' @ [CHR 0x0A]" and ?c = "clear s"
  let ?t = "bytes_of ''Invalid magic number: 0x'' @ pad_hex (numeral_str 16 (unat magic)) @ [NEWLINE]"
  have sh: "shown im s ?c" using assms(1-3) by (intro clear_shown) (simp add: report_ok_def)
  then have ok: "conv_ok (conv_addr im) ?c" "curr_scheduler ?c = 0" by (simp_all add: shown_def report_ok_def)
  have "render (\<lambda>_. None) (bytes_of ?f) False False [magic] = Some ?t" by (simp add: bytes_of_def conv_text_def)
  moreover have "strings_ok (conv_addr im) (\<lambda>_. None) ?c" by (simp add: strings_ok_def)
  ultimately obtain s' where p: "printf_loop (conv_addr im) (bytes_of ?f) False False [magic] ?c = Some s'"
    and t: "typed_text (conv_addr im) ?c ?t s'" using printf_loop_renders [OF ok(1)] by blast
  have "console_step s s'" using sh printf_loop_step [OF p] console_step_trans by (auto simp: shown_def)
  moreover have "kernel_entry im magic mbi s = Some (Invalid_magic, s')"
    using assms(4) p by (simp add: kernel_entry_def print_def printf_def)
  moreover have "tty_of s' 0 = fold tty_putc ?t (tty_of ?c 0)" using t ok(2) by (simp add: typed_text_def)
  ultimately show ?thesis by blast
qed

theorem boot_refuses_magic_witness:
  "\<exists>s'. kernel_entry sample_load 0 0 sample_boot = Some (Invalid_magic, s') \<and> console_step sample_boot s'"
proof -
  have "curr_scheduler sample_boot = 0" "current_terminal sample_boot = 0" using sample_boot_static(1) by (simp_all add: static_data_def)
  from boot_refuses_magic [OF sample_boot_conv this, of 0 0] show ?thesis by auto
qed

end
