(* ===== verification/Kernel_Run.thy ===== *)
theory Kernel_Run
  imports Kernel_Spec
begin

text \<open>
  The running kernel as a state machine: user code, the clock, the keyboard, the timer, system
  calls and exceptions are its steps. The invariant of the whole kernel, that the processes
  form stacks over the identifiers, the lines and modifiers are well formed and every open
  descriptor can be closed, holds after boot and is kept by every step, in whatever order the
  steps come, but one: a program started beside six (\<open>overran\<close>). The last sections show that a
  waiting call is a run of the machine (\<open>call_is_run\<close>) and state the invariant of all reachable
  states.
\<close>

section \<open>The invariant\<close>

definition tables_ok :: "'a kernel_scheme \<Rightarrow> bool" where
  "tables_ok s \<longleftrightarrow> fds_ok s \<and> fops_ok s"

definition kernel_inv :: "'a kernel_scheme \<Rightarrow> (u8 \<Rightarrow> i32 list) \<Rightarrow> bool" where
  "kernel_inv s ch \<longleftrightarrow> proc_table s ch \<and> curr_scheduler s < 3 \<and> current_terminal s < 3 \<and> mods_inv s \<and> lines_inv s \<and> tables_ok s"

lemma kernel_invD:
  assumes "kernel_inv s ch"
  shows "proc_table s ch" "curr_scheduler s < 3" "current_terminal s < 3" "mods_inv s" "lines_inv s" "tables_ok s"
  using assms by (simp_all add: kernel_inv_def)

lemma tables_ok_closable: "tables_ok s \<Longrightarrow> closable s"
  by (simp add: tables_ok_def fds_ok_def closable_def fd_entry_def cur_pcb_def)

lemma tables_ok_cong:
  assumes "\<And>a. file_descriptor (pcbs s' a) = file_descriptor (pcbs s a)" "stdin_fops s' = stdin_fops s" "stdout_fops s' = stdout_fops s"
    "rtc_fops s' = rtc_fops s" "dir_fops s' = dir_fops s" "file_fops s' = file_fops s"
  shows "tables_ok s' = tables_ok s"
  using assms by (simp add: tables_ok_def fds_ok_def fops_ok_def)

lemma tables_ok_console:
  assumes "console_step s s'"
  shows "tables_ok s' = tables_ok s"
proof -
  have eq: "s' = s\<lparr>mem := mem s', io_log := io_log s', terminal := terminal s'\<rparr>" using assms by (simp add: console_step_def)
  show ?thesis by (rule tables_ok_cong) (subst eq, simp)+
qed

lemma tables_ok_set_fd:
  assumes "tables_ok s" and "i < 8 \<Longrightarrow> flags f \<noteq> 0 \<Longrightarrow> fops_close (pointer f) \<noteq> Close_null"
  shows "tables_ok (set_fd i f s)"
  using assms by (auto simp: tables_ok_def fds_ok_def fops_ok_def set_fd_def set_cur_pcb_def cur_pcb_def)

lemma tables_ok_entry: "tables_ok s \<Longrightarrow> i < 8 \<Longrightarrow> flags (fd_entry i s) \<noteq> 0 \<Longrightarrow> fops_close (pointer (fd_entry i s)) \<noteq> Close_null"
  by (simp add: tables_ok_def fds_ok_def fd_entry_def cur_pcb_def)

interpretation tables: call_invariant tables_ok
proof (unfold_locales, goal_cases)
  case (1 s s')
  then show ?case by (simp add: tables_ok_console)
next
  case (5 s i n)
  then show ?case by (intro tables_ok_set_fd) (simp_all add: tables_ok_entry)
next
  case (6 s i)
  then show ?case by (intro tables_ok_set_fd) simp_all
next
  case (7 s ops i n)
  then show ?case by (intro tables_ok_set_fd) (auto simp: tables_ok_def fops_ok_def)
next
  case (8 s a)
  then show ?case using tables_ok_cong [of "snd (vidmap a s)" s] by (simp add: vidmap_processes)
qed (simp_all add: tables_ok_def fds_ok_def fops_ok_def)

lemma kernel_inv_keeps: "kernel_inv s ch \<Longrightarrow> keeps s s' \<Longrightarrow> tables_ok s' \<Longrightarrow> kernel_inv s' ch"
  using keeps_proc_table [of s s' ch] by (auto simp: kernel_inv_def keeps_def lines_inv_typed simp del: length_typed)

lemma kernel_inv_kept: "kernel_inv s ch \<Longrightarrow> (tables_ok s \<Longrightarrow> tables_ok s') \<Longrightarrow> (keeps s s \<Longrightarrow> keeps s s') \<Longrightarrow> kernel_inv s' ch"
  using kernel_inv_keeps kernel_invD(6) keeps_refl by blast

text \<open>Every call that neither starts nor ends a program keeps the whole invariant, with the same stacks.\<close>

interpretation running: call_invariant "\<lambda>s. kernel_inv s ch" for ch
proof (unfold_locales, goal_cases)
  case (1 s s')
  then show ?case using kernel_inv_keeps keeps_console tables.inv_console kernel_invD(6) by blast
next
  case (2 s x)
  then show ?case by (rule kernel_inv_kept [OF _ tables.inv_rtc_flag kept.inv_rtc_flag])
next
  case (3 s y)
  then show ?case by (rule kernel_inv_kept [OF _ tables.inv_read_flag kept.inv_read_flag])
next
  case (4 s z)
  then show ?case by (rule kernel_inv_kept [OF _ tables.inv_index kept.inv_index])
next
  case (5 s i n)
  then show ?case by (rule kernel_inv_kept [OF _ tables.inv_seek kept.inv_seek])
next
  case (6 s i)
  then show ?case by (rule kernel_inv_kept [OF _ tables.inv_close kept.inv_close])
next
  case (7 s ops i n)
  then show ?case by (intro kernel_inv_kept [OF 7(1) tables.inv_open kept.inv_open])
next
  case (8 s a)
  then show ?case by (rule kernel_inv_kept [OF _ tables.inv_vidmap kept.inv_vidmap])
qed

section \<open>Processes\<close>

lemma init_pcb_descriptors:
  "file_descriptor (pcbs (init_pcb a arg p s) a) i =
     (if i = 0 then \<lparr>pointer = stdin_fops s, inode = 0, file_position = 0, flags = 1\<rparr>
      else if i = 1 then \<lparr>pointer = stdout_fops s, inode = 0, file_position = 0, flags = 1\<rparr>
      else if i < 7 then (file_descriptor (pcbs s a) i)\<lparr>flags := 0\<rparr>
      else file_descriptor (pcbs s a) i)"
proof -
  have "i < 7 \<longleftrightarrow> i = 0 \<or> i = 1 \<or> i = 2 \<or> i = 3 \<or> i = 4 \<or> i = 5 \<or> i = 6" by arith
  moreover have "[2..<7] = [2, 3, 4, 5, 6 :: nat]" by (simp add: upt_rec)
  ultimately show ?thesis by (simp add: init_pcb_def Let_def)
qed

lemma tables_ok_init_pcb:
  assumes "tables_ok s"
  shows "tables_ok (init_pcb a arg p s)"
proof -
  have "fops_ok (init_pcb a arg p s)" using assms by (simp add: tables_ok_def fops_ok_def init_pcb_def Let_def)
  moreover have "fops_close (pointer (file_descriptor (pcbs (init_pcb a arg p s) b) i)) \<noteq> Close_null"
    if "i < 8" "flags (file_descriptor (pcbs (init_pcb a arg p s) b) i) \<noteq> 0" for b i
  proof (cases "b = a")
    case True
    then show ?thesis using that assms by (auto simp: init_pcb_descriptors tables_ok_def fds_ok_def fops_ok_def split: if_splits)
  next
    case False
    then show ?thesis using that assms by (simp add: init_pcb_fields tables_ok_def fds_ok_def)
  qed
  ultimately show ?thesis by (simp add: tables_ok_def fds_ok_def)
qed

lemma tables_ok_launch:
  fixes s :: "'a kernel_scheme"
  assumes "tables_ok s"
  shows "tables_ok (snd (launch lo arg d s))"
proof -
  let ?a = "switch_user (find_pid s) (s\<lparr>process_counter := process_counter s + 1\<rparr>)"
  have "tables_ok ?a = tables_ok s"
    by (rule tables_ok_cong) (simp_all add: switch_user_def flush_tlb_def Let_def)
  then have "tables_ok (loaded lo arg d s)"
    unfolding loaded_eq Let_def using assms
    by (intro tables.inv_console [OF _ read_data_console_step] tables_ok_init_pcb) simp
  moreover have "tables_ok (snd (enter_program lo p u)) = tables_ok u" for p and u :: "'a kernel_scheme"
    by (rule tables_ok_cong) (simp_all add: enter_program_def context_switch_def Let_def)
  ultimately show ?thesis by (simp add: launch_eq)
qed

lemma tables_ok_cli: "tables_ok (cli s) = tables_ok s"
  by (rule tables_ok_cong) (simp_all add: cli_def)

lemma tables_ok_execute:
  assumes "tables_ok s" and "execute lo cmd s = Some (r, s')"
  shows "tables_ok s'"
  using assms(2)
proof (cases rule: execute_cases)
  case failed
  then show ?thesis using assms(1) tables.inv_console [of "cli s" s'] by (simp add: tables_ok_cli)
next
  case (launched filename arg d s1)
  then have "tables_ok s1" using assms(1) tables.inv_console [of "cli s" s1] by (simp add: tables_ok_cli)
  then show ?thesis using tables_ok_launch [of s1 lo arg d] launched(1) by (metis snd_conv)
qed

lemma tables_ok_close_all: "tables_ok s \<Longrightarrow> close_all js s = Some s' \<Longrightarrow> tables_ok s'"
proof (induction js arbitrary: s)
  case (Cons i js)
  from Cons.prems(2) obtain s1 where c: "close_if_open i s = Some s1" "close_all js s1 = Some s'" by (auto split: option.splits)
  have "tables_ok s1"
    using c(1) Cons.prems(1) tables.sys_close_inv [OF Cons.prems(1)] by (auto simp: close_if_open_def split: if_splits)
  then show ?case using Cons.IH c(2) by blast
qed simp

text \<open>A change of registers, flags, pages and counters.\<close>

lemma tables_ok_regs:
  fixes s :: "'a kernel_scheme"
  shows "tables_ok (flush_tlb s) = tables_ok s" "tables_ok (s\<lparr>pid := a\<rparr>) = tables_ok s"
    "tables_ok (s\<lparr>page_directory := b\<rparr>) = tables_ok s" "tables_ok (s\<lparr>tss_esp0 := c\<rparr>) = tables_ok s"
    "tables_ok (s\<lparr>tss_ss0 := d\<rparr>) = tables_ok s" "tables_ok (s\<lparr>ebp := e\<rparr>) = tables_ok s" "tables_ok (s\<lparr>esp := f\<rparr>) = tables_ok s"
    "tables_ok (s\<lparr>process_counter := g\<rparr>) = tables_ok s" "tables_ok (s\<lparr>global_status := h\<rparr>) = tables_ok s"
    "tables_ok (s\<lparr>global_halt := i\<rparr>) = tables_ok s" "tables_ok (set_term_pcb j s) = tables_ok s" "tables_ok (sti s) = tables_ok s"
    "tables_ok (s\<lparr>curr_scheduler := k\<rparr>) = tables_ok s" "tables_ok (s\<lparr>if_flag := l\<rparr>) = tables_ok s"
    "tables_ok (s\<lparr>mem := m\<rparr>) = tables_ok s" "tables_ok (enable_irq n s) = tables_ok s" "tables_ok (disable_irq n s) = tables_ok s"
    "tables_ok (map_screen s) = tables_ok s"
  by (rule tables_ok_cong; simp add: flush_tlb_def set_term_pcb_def sti_def enable_irq_def disable_irq_def map_screen_def
      outb_def Let_def)+

lemma tables_ok_halt:
  assumes "tables_ok s" and h: "halt lo status s = Some (r, s')"
  shows "tables_ok s'"
proof -
  let ?s = "s\<lparr>pid := (pid s)(pcb_pid (cur_pcb s) := VACANT)\<rparr>"
  have t: "tables_ok ?s" using assms(1) by (simp add: tables_ok_regs)
  consider (null) "cur_pcb_addr s = 0" | (base) "cur_pcb_addr s \<noteq> 0" "parent_pid (cur_pcb ?s) = - 1"
    | (child) "cur_pcb_addr s \<noteq> 0" "parent_pid (cur_pcb ?s) \<noteq> - 1" by blast
  then show ?thesis
  proof cases
    case null
    then show ?thesis using assms by (simp add: halt_def)
  next
    case base
    let ?b = "(set_term_pcb 0 ?s)\<lparr>process_counter := process_counter (set_term_pcb 0 ?s) - 1\<rparr>"
    from base h obtain q where "execute lo (Some (lit ''shell'')) ?b = Some (q, s')"
      by (auto simp: halt_def Let_def split: option.splits exec_result.splits)
    moreover have "tables_ok ?b" using t by (simp add: tables_ok_regs)
    ultimately show ?thesis using tables_ok_execute by blast
  next
    case child
    define c where "c = (let p = cur_pcb ?s;
                 s = ?s\<lparr>page_directory := (page_directory ?s)(32 := (EIGHT_MB + parent_pid p * FOUR_MB) OR PAGING_USER_ON)\<rparr>;
                 s = flush_tlb s;
                 s = s\<lparr>tss_esp0 := (EIGHT_MB - parent_pid p * EIGHT_KB) - 4\<rparr>
             in s\<lparr>ebp := halt_ebp (pcbs s (parent_pcb p)), esp := halt_esp (pcbs s (parent_pcb p))\<rparr>)"
    have tc: "tables_ok c" using t by (simp add: c_def Let_def tables_ok_regs)
    from child h obtain u where u: "close_all [0..<8] c = Some u"
      "s' = snd (execute_return ((set_term_pcb (parent_pcb (cur_pcb u)) u)\<lparr>process_counter :=
         process_counter (set_term_pcb (parent_pcb (cur_pcb u)) u) - 1, global_status := status\<rparr>))"
      by (auto simp: halt_def c_def Let_def split: option.splits prod.splits)
    have "tables_ok u" by (rule tables_ok_close_all [OF tc u(1)])
    then show ?thesis by (auto simp: u(2) execute_return_def tables_ok_regs)
  qed
qed

text \<open>What becomes of the invariant when a program ends or is started.\<close>

lemma kernel_inv_halt:
  assumes inv: "kernel_inv s ch" and h: "halt lo status s = Some (r, s')" and ok: "r \<noteq> Null_pcb"
  shows "\<exists>own. kernel_inv s' (ch(curr_scheduler s := own)) \<and> own \<noteq> [] \<and> length own \<le> length (ch (curr_scheduler s))"
proof -
  note i = kernel_invD [OF inv]
  have ne: "ch (curr_scheduler s) \<noteq> []"
  proof
    assume "ch (curr_scheduler s) = []"
    then have "cur_pcb_addr s = 0" using proc_table_chain [OF i(1,2)] by (simp add: cur_pcb_addr_def)
    then show False using h ok by (simp add: halt_def)
  qed
  have "call_effect s ch (halt_outcome r) s'"
    by (rule halt_call_effect [OF i(1,2) tables_ok_closable [OF i(6)] ne h])
  then have "\<exists>own. proc_table s' (ch(curr_scheduler s := own)) \<and> own \<noteq> [] \<and> length own \<le> length (ch (curr_scheduler s))"
  proof (cases r)
    case (Restarted e)
    show ?thesis
    proof (cases "ch (curr_scheduler s)")
      case (Cons p ps)
      show ?thesis
      proof (cases ps)
        case Nil
        from halt_base [OF i(1,2) _ h] Cons Nil Restarted show ?thesis by auto
      next
        case (Cons q qs)
        then show ?thesis
          using halt_pops [OF i(1,2) tables_ok_closable [OF i(6)], of p q qs lo status] h \<open>ch (curr_scheduler s) = p # ps\<close> Restarted
          by auto
      qed
    qed (use ne in simp)
  next
    case (Resume_parent v)
    assume "call_effect s ch (halt_outcome r) s'"
    then have "1 < length (ch (curr_scheduler s))" "proc_table s' (ch(curr_scheduler s := tl (ch (curr_scheduler s))))"
      by (simp_all add: call_effect_def Resume_parent Let_def)
    then show ?thesis by (intro exI [of _ "tl (ch (curr_scheduler s))"]) (cases "ch (curr_scheduler s)"; auto)
  qed (use ok in simp)
  moreover have "same_kb s s'" by (rule same_kb_halt [OF h])
  ultimately show ?thesis
    using i same_kb_inv [of s s'] tables_ok_halt [OF i(6) h] by (auto simp: kernel_inv_def same_kb_def)
qed

text \<open>
  At the limit \<open>execute\<close> can still start a program: on a terminal without one, and under the
  name \<open>exit\<close>. Then no identifier is free, \<open>find_pid\<close> returns -1, the counter reaches 6 and the
  window of user programs is mapped onto the frame at 4 MB, which holds the kernel.
\<close>

definition overrun :: "'a kernel_scheme \<Rightarrow> bool" where
  "overrun s \<longleftrightarrow> process_counter s = 6 \<and> page_directory s 32 = FOUR_MB OR PAGING_USER_ON"

lemma find_pid_full:
  assumes "proc_table s ch" and "length (all_procs ch) = 6"
  shows "find_pid s = FAILURE"
proof -
  have sub: "set (all_procs ch) \<subseteq> set [0, 1, 2, 3, 4, 5]"
    using proc_table_less [OF assms(1)] by (auto simp: u32_less_6)
  have "card (set (all_procs ch)) = card (set [0 :: i32, 1, 2, 3, 4, 5])"
    using assms by (simp add: proc_table_def distinct_card)
  then have eq: "set (all_procs ch) = set [0, 1, 2, 3, 4, 5]" using sub by (intro card_subset_eq) auto
  have "pid s p = OCCUPIED" if "p < 6" for p
    using assms(1) that eq by (auto simp: proc_table_def u32_less_6)
  then have "pid s (of_nat i) \<noteq> VACANT" if "i < 6" for i
    using that by (simp add: word_less_nat_alt unat_of_nat take_bit_nat_eq_self)
  then have "List.find (\<lambda>i. pid s (of_nat i) = VACANT) [0..<6] = None"
    unfolding find_upt_None by simp
  then show ?thesis unfolding find_pid_def by simp
qed

lemma launch_overruns:
  fixes s :: "'a kernel_scheme"
  assumes "proc_table s ch" and "length (all_procs ch) = 6"
  shows "overrun (snd (launch lo arg d s))"
proof -
  let ?a = "init_pcb (pcb_addr FAILURE) arg FAILURE (switch_user FAILURE (s\<lparr>process_counter := process_counter s + 1\<rparr>))"
  have "console_step ?a (loaded lo arg d s)"
    unfolding loaded_eq Let_def find_pid_full [OF assms]
    by (rule console_step_trans [OF read_data_console_step read_data_console_step])
  then have "page_directory (loaded lo arg d s) 32 = FOUR_MB OR PAGING_USER_ON"
    by (simp add: console_step_fields(6) init_pcb_fields frame_simps user_pde_def)
  then have "page_directory (snd (launch lo arg d s)) 32 = FOUR_MB OR PAGING_USER_ON"
    by (simp add: launch_eq enter_program_def context_switch_def Let_def)
  then show ?thesis
    using max_counter [OF assms(1)] assms(2) launch_fields(2) [of lo arg d s] by (simp add: overrun_def)
qed

lemma kernel_inv_execute:
  assumes inv: "kernel_inv s ch" and e: "execute lo cmd s = Some (r, s')"
  obtains (failed) "r = Ret FAILURE" "kernel_inv s' ch"
    | (started) v p where "r = To_user v" "kernel_inv s' (ch(curr_scheduler s := p # ch (curr_scheduler s)))"
    | (overrun) v where "r = To_user v" "length (all_procs ch) = 6" "overrun s'"
proof -
  note i = kernel_invD [OF inv]
  have "same_kb s s'" by (rule same_kb_execute [OF e])
  then have eq: "kernel_inv s' ch' \<longleftrightarrow> proc_table s' ch'" for ch'
    using i same_kb_inv [of s s'] tables_ok_execute [OF i(6) e] by (auto simp: kernel_inv_def same_kb_def)
  show thesis
  proof (cases "length (all_procs ch) < 6")
    case True
    then show thesis using execute_stacks [OF i(1,2) _ e] started failed eq by blast
  next
    case False
    then have full: "length (all_procs ch) = 6" using proc_table_length(1) [OF i(1)] by simp
    from e show thesis
    proof (cases rule: execute_cases)
      case failed
      then show thesis using that(1) i(1) by (simp add: eq proc_table_step)
    next
      case (launched filename arg d s1)
      have "proc_table s1 ch" using launched(2) i(1) by (simp add: proc_table_step)
      from launch_overruns [OF this full] show thesis
        using overrun full launched(1) launch_result [of lo arg d s1] by (metis Pair_inject snd_conv)
    qed
  qed
qed

section \<open>Interrupts\<close>

definition same_procs :: "'a kernel_scheme \<Rightarrow> 'a kernel_scheme \<Rightarrow> bool" where
  "same_procs s s' \<longleftrightarrow> (\<forall>a. same_links (pcbs s' a) (pcbs s a) \<and> file_descriptor (pcbs s' a) = file_descriptor (pcbs s a)) \<and>
     (\<forall>t. pcb (terminal s' t) = pcb (terminal s t)) \<and> pid s' = pid s \<and> process_counter s' = process_counter s \<and>
     stdin_fops s' = stdin_fops s \<and> stdout_fops s' = stdout_fops s \<and> rtc_fops s' = rtc_fops s \<and> dir_fops s' = dir_fops s \<and>
     file_fops s' = file_fops s"

lemma same_procs_trans: "same_procs s t \<Longrightarrow> same_procs t u \<Longrightarrow> same_procs s u"
  by (simp add: same_procs_def same_links_def)

lemma same_procs_console:
  assumes "console_step s s'"
  shows "same_procs s s'"
proof -
  have eq: "s' = s\<lparr>mem := mem s', io_log := io_log s', terminal := terminal s'\<rparr>" using assms by (simp add: console_step_def)
  have "rtc_fops s' = rtc_fops s" "dir_fops s' = dir_fops s" "file_fops s' = file_fops s" by (subst eq, simp)+
  then show ?thesis using console_step_fields [OF assms] by (simp add: same_procs_def same_links_def)
qed

lemma same_procs_inv:
  assumes "same_procs s s'"
  shows "proc_table s' ch = proc_table s ch" "tables_ok s' = tables_ok s"
proof -
  have "chain (pcbs s') a ps = chain (pcbs s) a ps" for a ps
    using assms by (intro chain_cong) (simp add: same_procs_def)
  then show "proc_table s' ch = proc_table s ch" using assms by (simp add: same_procs_def proc_table_def)
  show "tables_ok s' = tables_ok s" using assms by (intro tables_ok_cong) (simp_all add: same_procs_def)
qed

lemma same_procs_keys:
  fixes s :: "'a kernel_scheme"
  shows "same_procs s (set_count n s)" "same_procs s (put_key c s)" "same_procs s (delete s)"
    "same_procs s (s\<lparr>readFlag := f\<rparr>)" "same_procs s (snd (terminal_switch m s))" "same_procs s (modifier_keys k s)"
  by (simp_all add: same_procs_def same_links_def set_count_def put_key_def delete_def set_hw_cursor_def outb_def Let_def
      terminal_switch_def swap_vid_mem_def swap_kb_cursor_def change_terminal_cursor_def map_screen_def flush_tlb_def clear_def
      modifier_keys_eq)

lemma same_procs_putc: "same_procs s t \<Longrightarrow> same_procs s (putc c t)"
  using same_procs_console [OF putc_step] same_procs_trans by blast

lemma same_procs_edits:
  fixes s :: "'a kernel_scheme"
  shows "same_procs s (backspace s)" "same_procs s (tab s)" "same_procs s (clear_screen s)" "same_procs s (type_key c s)"
proof -
  have refl: "same_procs s s" for s :: "'a kernel_scheme" by (simp add: same_procs_def same_links_def)
  note k = same_procs_keys same_procs_trans
  show "same_procs s (backspace s)"
    by (auto simp: backspace_def Let_def refl intro: k(7) [OF k(3) k(1)])
  have step: "same_procs s (tab_step s)" for s :: "'a kernel_scheme"
    by (auto simp: tab_step_def Let_def refl intro: same_procs_putc k(7) [OF k(2) k(1)])
  have "same_procs s (fold (\<lambda>_. tab_step) is s)" for "is" :: "nat list" and s :: "'a kernel_scheme"
    by (induction "is" arbitrary: s) (auto intro: refl k(7) [OF step])
  then show "same_procs s (tab s)" by (simp add: tab_def)
  show "same_procs s (clear_screen s)" by (rule same_procs_console [OF clear_screen_step])
  show "same_procs s (type_key c s)"
    by (auto simp: type_key_def Let_def refl
        intro: same_procs_putc k(7) [OF k(2) k(1)] k(7) [OF k(7) [OF k(2) k(4)] k(1)])
qed

lemma key_action_procs: "key_action lo k s = Some (Done r, s') \<Longrightarrow> same_procs s s'"
  by (auto simp: key_action_def same_procs_edits same_procs_keys split: if_splits)

lemma kernel_inv_procs:
  assumes "kernel_inv s ch" "same_procs s s'" "mods_inv s'" "lines_inv s'" "curr_scheduler s' < 3" "current_terminal s' < 3"
  shows "kernel_inv s' ch"
  using assms same_procs_inv [OF assms(2)] by (simp add: kernel_inv_def)

lemma keyboard_handler_procs:
  assumes "keyboard_handler lo s = Some (Done r, s')"
  shows "same_procs s s'"
proof -
  let ?k = "scan_code (send_eoi KEYBOARD_CONTROLLER_IRQ s)"
  have "key_action lo ?k (modifier_keys ?k (acknowledged s)) = Some (Done r, s')"
    using assms by (simp add: keyboard_handler_event key_event_def)
  from same_procs_trans [OF same_procs_trans [OF same_procs_console [OF acknowledged_step] same_procs_keys(6)] key_action_procs [OF this]]
  show ?thesis .
qed

lemma keyboard_handler_kb:
  assumes "kernel_inv s ch" and "keyboard_handler lo s = Some (r, s')"
  shows "mods_inv s'" "lines_inv s'" "current_terminal s' < 3" "curr_scheduler s' = curr_scheduler s"
  using keyboard_handler_step [of s lo] kernel_invD [OF assms(1)] assms(2) by auto

lemma kernel_inv_key:
  assumes "kernel_inv s ch" and "keyboard_handler lo s = Some (Done r, s')"
  shows "kernel_inv s' ch"
  using assms keyboard_handler_kb [OF assms] kernel_invD(2) [OF assms(1)]
  by (intro kernel_inv_procs [OF assms(1) keyboard_handler_procs [OF assms(2)]]) simp_all

lemma kernel_inv_console: "kernel_inv s ch \<Longrightarrow> console_step s s' \<Longrightarrow> kernel_inv s' ch"
  using kernel_inv_keeps [OF _ keeps_console] tables_ok_console kernel_invD(6) by blast

text \<open>The handler's state once it has updated the modifiers.\<close>

lemma kernel_inv_modifiers:
  assumes inv: "kernel_inv s ch"
  shows "kernel_inv (modifier_keys k (acknowledged s)) ch" "curr_scheduler (modifier_keys k (acknowledged s)) = curr_scheduler s"
proof -
  have a: "same_kb s (acknowledged s)" by (rule same_kb_console [OF acknowledged_step])
  then have f: "curr_scheduler (acknowledged s) = curr_scheduler s" "current_terminal (acknowledged s) = current_terminal s"
    by (simp_all add: same_kb_def)
  have "mods_inv (modifier_keys k (acknowledged s))"
    using kernel_invD(4) [OF inv] same_kb_inv [OF a] by (intro modifier_keys_inv) simp
  moreover have "lines_inv (modifier_keys k (acknowledged s))"
    using kernel_invD(5) [OF inv] same_kb_inv [OF a] by (simp add: lines_inv_def)
  ultimately show "kernel_inv (modifier_keys k (acknowledged s)) ch"
    using kernel_invD(2,3) [OF inv] f
    by (intro kernel_inv_procs [OF inv same_procs_trans [OF same_procs_console [OF acknowledged_step] same_procs_keys(6)]]) simp_all
  show "curr_scheduler (modifier_keys k (acknowledged s)) = curr_scheduler s" using f by simp
qed

text \<open>Control-C: the state in which the handler calls \<open>halt\<close>.\<close>

lemma kernel_inv_interrupt:
  assumes inv: "kernel_inv s ch" and h: "keyboard_handler lo s = Some (Halted r, s')" and "r \<noteq> Null_pcb"
  shows "\<exists>own. kernel_inv s' (ch(curr_scheduler s := own)) \<and> own \<noteq> [] \<and> length own \<le> length (ch (curr_scheduler s))"
proof -
  let ?k = "scan_code (send_eoi KEYBOARD_CONTROLLER_IRQ s)"
  let ?m = "modifier_keys ?k (acknowledged s)"
  let ?n = "putc NEWLINE ?m"
  have "key_action lo ?k ?m = Some (Halted r, s')" using h by (simp add: keyboard_handler_event key_event_def)
  then have halt: "halt lo 2 ?n = Some (r, s')" by (auto simp: key_action_def split: if_splits)
  have "curr_scheduler ?n = curr_scheduler s"
    using same_kb_console [OF putc_step [of ?m NEWLINE]] kernel_inv_modifiers(2) [OF inv] by (simp add: same_kb_def)
  with kernel_inv_halt [OF kernel_inv_console [OF kernel_inv_modifiers(1) [OF inv] putc_step] halt assms(3)]
  show ?thesis by simp
qed

lemma kernel_inv_clock: "kernel_inv s ch \<Longrightarrow> kernel_inv (snd (rtc_handler s)) ch"
proof -
  let ?c = "s\<lparr>rtc_interrupt_occurred := UNLOCK\<rparr>"
  assume inv: "kernel_inv s ch"
  have "keeps s ?c" by (rule kept.inv_rtc_flag [OF keeps_refl])
  then have "kernel_inv ?c ch" using inv tables.inv_rtc_flag kernel_invD(6) [OF inv] by (intro kernel_inv_keeps [OF inv]) auto
  moreover have "console_step ?c (snd (rtc_handler s))"
    by (simp add: rtc_handler_def Let_def split_def console_step_def send_eoi_def outb_def inb_def)
  ultimately show ?thesis using kernel_inv_keeps keeps_console tables_ok_console kernel_invD(6) by blast
qed

lemma kernel_inv_flag: "kernel_inv (s\<lparr>if_flag := b\<rparr>) ch = kernel_inv s ch"
proof -
  have "same_procs s (s\<lparr>if_flag := b\<rparr>)" by (simp add: same_procs_def same_links_def)
  from same_procs_inv [OF this] show ?thesis by (simp add: kernel_inv_def mods_inv_def lines_inv_def typed_def)
qed

lemma switched_procs: "same_procs s (switched s)"
  by (simp add: switched_def gate_keyboard_def save_context_def set_cur_pcb_def cur_pcb_def cur_pcb_addr_def enable_irq_def
      disable_irq_def send_eoi_def cli_def outb_def Let_def same_procs_def same_links_def)

lemma kernel_inv_switched: "kernel_inv s ch \<Longrightarrow> kernel_inv (switched s) ch"
proof -
  assume inv: "kernel_inv s ch"
  have "mods_inv (switched s)" "lines_inv (switched s)"
    using kernel_invD(4,5) [OF inv]
    by (simp_all add: switched_def gate_keyboard_def save_context_def set_cur_pcb_def enable_irq_def disable_irq_def send_eoi_def
        cli_def outb_def Let_def mods_inv_def lines_inv_def typed_def)
  moreover have "curr_scheduler (switched s) < 3" "current_terminal (switched s) < 3"
    using kernel_invD(3) [OF inv] next_terminal_range by (simp_all add: switched_fields)
  ultimately show ?thesis by (rule kernel_inv_procs [OF inv switched_procs])
qed

lemma kernel_inv_resume: "kernel_inv s ch \<Longrightarrow> kernel_inv (resume_context s) ch"
proof -
  assume inv: "kernel_inv s ch"
  have "same_procs s (resume_context s)"
    by (simp add: resume_context_def map_screen_def flush_tlb_def sti_def Let_def same_procs_def same_links_def)
  then show ?thesis
  proof (rule kernel_inv_procs [OF inv])
    show "mods_inv (resume_context s)" "lines_inv (resume_context s)"
      using kernel_invD(4,5) [OF inv]
      by (simp_all add: resume_context_def map_screen_def flush_tlb_def sti_def Let_def mods_inv_def lines_inv_def typed_def)
    show "curr_scheduler (resume_context s) < 3" "current_terminal (resume_context s) < 3"
      using kernel_invD(2,3) [OF inv] by (simp_all add: resume_context_fields)
  qed
qed

lemma kernel_inv_start_shell:
  assumes inv: "kernel_inv s ch" and "ch (curr_scheduler s) = []"
    and st: "start_shell lo s = Some (r, s')" and "r \<noteq> Null_pointer"
  shows "(\<exists>p. kernel_inv s' (ch(curr_scheduler s := [p]))) \<or> length (all_procs ch) = 6 \<and> overrun s'"
proof -
  obtain v where e: "execute lo (Some (lit ''shell'')) s = Some (To_user v, s')"
    using st \<open>r \<noteq> Null_pointer\<close> by (auto simp: start_shell_def split: option.splits exec_result.splits)
  show ?thesis by (rule kernel_inv_execute [OF inv e]) (use assms(2) in auto)
qed

text \<open>A step goes on to a state with the invariant, with no terminal's stack emptied, or overruns six processes.\<close>

definition goes_on :: "(u8 \<Rightarrow> i32 list) \<Rightarrow> 'a kernel_scheme \<Rightarrow> bool" where
  "goes_on ch s' \<longleftrightarrow> (\<exists>ch'. kernel_inv s' ch' \<and> (\<forall>t. ch t \<noteq> [] \<longrightarrow> ch' t \<noteq> [])) \<or> length (all_procs ch) = 6 \<and> overrun s'"

lemma goes_on_same: "kernel_inv s' ch \<Longrightarrow> goes_on ch s'"
  by (auto simp: goes_on_def)

lemma goes_on_upd:
  assumes "kernel_inv s' (ch(t := own))" and "own \<noteq> []"
  shows "goes_on ch s'"
  unfolding goes_on_def using assms by (intro disjI1 exI [of _ "ch(t := own)"]) simp

lemma goes_on_overrun: "length (all_procs ch) = 6 \<Longrightarrow> overrun s' \<Longrightarrow> goes_on ch s'"
  by (simp add: goes_on_def)

lemma kernel_inv_tick:
  assumes inv: "kernel_inv s ch" and t: "pit_handler lo s = Some (r, s')" and ok: "r \<noteq> Null_pointer"
  shows "goes_on ch s'"
proof -
  note i = kernel_invD [OF inv]
  let ?cs = "curr_scheduler s"
  have null: "ch u = []" if "pcb (terminal s u) = 0" "u < 3" for u
    using proc_table_chain [OF i(1) that(2)] that(1) pcb_addr_nonzero by (cases "ch u") auto
  have shell: "goes_on ch s'"
    if "kernel_inv v ch" "start_shell lo v = Some (r, s')" "ch (curr_scheduler v) = []" for v
    using kernel_inv_start_shell [OF that(1,3,2) ok] by (auto intro: goes_on_upd goes_on_overrun)
  show ?thesis
  proof (cases "pcb (terminal s ?cs) = 0")
    case True
    let ?v = "clear_screen (sti (cli (send_eoi 0 s)))"
    have st: "start_shell lo ?v = Some (r, s')" using t True ok
      by (auto simp: pit_handler_def scheduler_def clear_screen_def Let_def frame_simps split: if_splits)
    have "console_step s (send_eoi 0 s)" by (simp add: console_step_def send_eoi_def outb_def)
    then have "kernel_inv (sti (cli (send_eoi 0 s))) ch" using kernel_inv_console [OF inv] by (simp add: sti_def cli_def kernel_inv_flag)
    then have v: "kernel_inv ?v ch" by (rule kernel_inv_console [OF _ clear_screen_step])
    have "curr_scheduler ?v = ?cs" by (simp add: sti_def frame_simps)
    then show ?thesis using shell [OF v st] null [OF True i(2)] by simp
  next
    case run: False
    show ?thesis
    proof (cases "pcb (terminal s (next_terminal ?cs)) = 0")
      case True
      let ?v = "sti (switched s)"
      have "start_shell lo ?v = Some (r, s')" using t True scheduler_eq [OF run, of lo] by (simp add: pit_handler_def)
      moreover have "kernel_inv ?v ch" using kernel_inv_switched [OF inv] by (simp add: sti_def kernel_inv_flag)
      moreover have "curr_scheduler ?v = next_terminal ?cs" by (simp add: sti_def switched_fields)
      ultimately show ?thesis using shell [of ?v] null [OF True next_terminal_range] by simp
    next
      case False
      then have "s' = resume_context (switched s)" using t scheduler_eq [OF run, of lo] by (simp add: pit_handler_def)
      then show ?thesis using kernel_inv_resume [OF kernel_inv_switched [OF inv]] goes_on_same by blast
    qed
  qed
qed

section \<open>System calls and exceptions\<close>

text \<open>A call up to its end or its wait: no interrupt is delivered to it.\<close>

abbreviation (input) undisturbed :: "unit \<Rightarrow> 'a kernel_scheme \<Rightarrow> 'a kernel_scheme" where
  "undisturbed \<equiv> \<lambda>_ s. s"

lemma kernel_inv_call:
  assumes inv: "kernel_inv s ch" and run: "cur_pcb_addr s \<noteq> 0"
    and c: "system_call_asm lo undisturbed [] eax ebx ecx edx s = Some (out, s', es')" and ok: "out \<noteq> Null_deref"
  shows "goes_on ch s'"
proof (cases "eax < 1 \<or> eax > 10")
  case True
  then show ?thesis using c inv by (auto simp: system_call_asm_def intro: goes_on_same)
next
  case False
  from False c obtain u where j: "jmp_table lo undisturbed [] (eax - 1) ebx ecx edx s = Some (out, u, es')"
    and s': "s' = u \<or> (\<exists>r. out = Return r) \<and> s' = u\<lparr>if_flag := if_flag s\<rparr>"
    by (auto simp: system_call_asm_def split: option.splits call_result.splits)
  from running.jmp_table_inv [where isr = undisturbed, OF _ inv j]
  consider (halt) r where "halt lo (ucast ebx) s = Some (r, u)" "out = halt_outcome r"
    | (exec) cmd r where "execute lo cmd s = Some (r, u)"
    | (ret) "kernel_inv u ch" by blast
  then have "goes_on ch u"
  proof cases
    case halt
    then have "r \<noteq> Null_pcb" using ok by auto
    from kernel_inv_halt [OF inv halt(1) this] show ?thesis by (auto intro: goes_on_upd)
  next
    case exec
    then show ?thesis by (rule kernel_inv_execute [OF inv]) (auto intro: goes_on_same goes_on_upd goes_on_overrun)
  qed (rule goes_on_same)
  then show ?thesis using s' by (auto simp: goes_on_def kernel_inv_flag overrun_def)
qed

lemma kernel_inv_regs:
  "kernel_inv (s\<lparr>global_halt := h\<rparr>) ch = kernel_inv s ch" "kernel_inv (s\<lparr>ebp := b, esp := p\<rparr>) ch = kernel_inv s ch"
proof -
  have "same_procs s (s\<lparr>global_halt := h\<rparr>)" by (simp add: same_procs_def same_links_def)
  from same_procs_inv [OF this] show "kernel_inv (s\<lparr>global_halt := h\<rparr>) ch = kernel_inv s ch"
    by (simp add: kernel_inv_def mods_inv_def lines_inv_def typed_def)
  have "same_procs s (s\<lparr>ebp := b, esp := p\<rparr>)" by (simp add: same_procs_def same_links_def)
  from same_procs_inv [OF this] show "kernel_inv (s\<lparr>ebp := b, esp := p\<rparr>) ch = kernel_inv s ch"
    by (simp add: kernel_inv_def mods_inv_def lines_inv_def typed_def)
qed

lemma kernel_inv_exception:
  assumes inv: "kernel_inv s ch" and e: "exception_handler lo cb msg s = Some (r, s')" and "r \<noteq> Null_pcb"
  shows "\<exists>own. kernel_inv s' (ch(curr_scheduler s := own)) \<and> own \<noteq> [] \<and> length own \<le> length (ch (curr_scheduler s))"
proof -
  obtain u where p: "printf_loop cb (bytes_of (''%s'' @ [CHR 0x0A])) False False [msg] s = Some u"
    and h: "halt lo 1 (u\<lparr>global_halt := 1\<rparr>) = Some (r, s')"
    using e unfolding exception_handler_def printf_def by (auto split: option.splits)
  note st = printf_loop_step [OF p]
  have "kernel_inv (u\<lparr>global_halt := 1\<rparr>) ch" using kernel_inv_console [OF inv st] by (simp add: kernel_inv_regs)
  from kernel_inv_halt [OF this h assms(3)] show ?thesis using console_step_fields(4) [OF st] by simp
qed

text \<open>The tail of \<open>read\<close> after the driver's function has returned \<open>n\<close>.\<close>

definition read_return :: "i32 \<Rightarrow> i32 \<Rightarrow> 'a kernel_scheme \<Rightarrow> 'a kernel_scheme" where
  "read_return fd n s =
     set_fd (unat fd) ((fd_entry (unat fd) s)\<lparr>file_position := file_position (fd_entry (unat fd) s) + n\<rparr>) s"

lemma kernel_inv_tail: "kernel_inv s ch \<Longrightarrow> kernel_inv ((read_return fd n s)\<lparr>if_flag := b\<rparr>) ch"
  unfolding kernel_inv_flag read_return_def by (rule running.inv_seek)

section \<open>The state machine\<close>

text \<open>
  One step of the machine, in any state the hardware could take it. User code changes its
  registers and the memory it can reach: the program's own and, through the page at
  \<^verbatim>\<open>0x8800000\<close>, the text pages. A call that does not wait is one step; a \<open>read\<close> that
  waits is a step up to the loop and, once the loop finds its flag open, a step from the loop
  to its end, and between the two anything may happen: interrupts, other programs, the end of
  the waiting program. No rule tests more than the code does. A handler that follows a null
  control-block pointer and a call that never ends have no successor.
\<close>

inductive kstep :: "locals \<Rightarrow> 'a kernel_scheme \<Rightarrow> 'a kernel_scheme \<Rightarrow> bool" for lo where
  user: "(\<forall>x. \<not> user_window x \<and> drop_bit 12 x \<notin> {0x8800, 0xB8, 0xB9, 0xBA, 0xBB} \<longrightarrow> m x = mem s x) \<Longrightarrow>
    kstep lo s (s\<lparr>mem := m, ebp := b, esp := p\<rparr>)"
| clock: "rtc_handler s = (r, s') \<Longrightarrow> kstep lo s s'"
| key: "keyboard_interrupt lo s = Some (Handled (Done r), s') \<Longrightarrow> kstep lo s s'"
| interrupt: "keyboard_interrupt lo s = Some (Handled (Halted h), s') \<Longrightarrow> h \<noteq> Null_pcb \<Longrightarrow> kstep lo s s'"
| key_fault: "keyboard_interrupt lo s = Some (Page_fault a, s') \<Longrightarrow> kstep lo s s'"
| tick: "pit_handler lo s = Some (r, s') \<Longrightarrow> r \<noteq> Null_pointer \<Longrightarrow> kstep lo s s'"
| call: "cur_pcb_addr s \<noteq> 0 \<Longrightarrow> system_call_asm lo undisturbed [] eax ebx ecx edx s = Some (out, s', es') \<Longrightarrow>
    out \<noteq> Null_deref \<Longrightarrow> kstep lo s s'"
| wait_clock: "kstep lo s (s\<lparr>rtc_interrupt_occurred := LOCK\<rparr>)"
| clock_came: "\<not> rtc_locked s \<Longrightarrow> kstep lo s ((read_return fd SUCCESS s)\<lparr>if_flag := b\<rparr>)"
| wait_line: "kstep lo s (s\<lparr>readFlag := (readFlag s)(curr_scheduler s := LOCK)\<rparr>)"
| line_came: "\<not> terminal_locked s \<Longrightarrow> terminal_read_loop buf n 0 s = (r, u) \<Longrightarrow>
    kstep lo s ((read_return fd r u)\<lparr>if_flag := b\<rparr>)"
| fault: "exception_handler lo cb msg s = Some (h, s') \<Longrightarrow> h \<noteq> Null_pcb \<Longrightarrow> kstep lo s s'"

inductive_cases kstepE: "kstep lo s s'"

lemma kstep_inv:
  assumes inv: "kernel_inv s ch" and "kstep lo s s'"
  shows "goes_on ch s'"
  using assms(2)
proof cases
  case (user m b p)
  have "kernel_inv (s\<lparr>mem := m\<rparr>) ch" by (rule kernel_inv_console [OF inv console_step_mem])
  then show ?thesis using user(1) by (auto simp: kernel_inv_regs(2) intro!: goes_on_same)
next
  case (clock r)
  then show ?thesis using kernel_inv_clock [OF inv] goes_on_same by (metis snd_conv)
next
  case (key r)
  then have "keyboard_handler lo s = Some (Done r, s')" by (cases rule: keyboard_interrupt_cases) simp_all
  then show ?thesis by (rule goes_on_same [OF kernel_inv_key [OF inv]])
next
  case (interrupt h)
  from interrupt(1) have "keyboard_handler lo s = Some (Halted h, s')" by (cases rule: keyboard_interrupt_cases) simp_all
  from kernel_inv_interrupt [OF inv this interrupt(2)] show ?thesis using goes_on_upd by blast
next
  case (key_fault a)
  then obtain k where "s' = cursor_left (modifier_keys k (acknowledged s))" by (cases rule: keyboard_interrupt_cases) auto
  then show ?thesis
    using goes_on_same [OF kernel_inv_console [OF kernel_inv_modifiers(1) [OF inv] cursor_left_step]] by simp
next
  case (tick r)
  then show ?thesis using kernel_inv_tick [OF inv] by blast
next
  case (call eax ebx ecx edx out es')
  then show ?thesis using kernel_inv_call [OF inv] by blast
next
  case (fault cb msg h)
  then show ?thesis using kernel_inv_exception [OF inv] goes_on_upd by blast
next
  case (line_came buf n r u fd b)
  then have "u = s\<lparr>mem := mem u\<rparr>" by (auto simp: terminal_read_loop_line)
  then have "kernel_inv u ch" using kernel_inv_console [OF inv console_step_mem] by metis
  then show ?thesis using line_came(1) kernel_inv_tail goes_on_same by blast
qed (auto intro!: goes_on_same kernel_inv_tail running.inv_rtc_flag running.inv_read_flag inv)

text \<open>\<open>overran lo s0 s\<close>: on the way from \<open>s0\<close> to \<open>s\<close> a seventh program was started beside six.\<close>

definition overran :: "locals \<Rightarrow> 'a kernel_scheme \<Rightarrow> 'a kernel_scheme \<Rightarrow> bool" where
  "overran lo s0 s \<longleftrightarrow> (\<exists>s1 s2 ch. (kstep lo)\<^sup>*\<^sup>* s0 s1 \<and> kernel_inv s1 ch \<and> length (all_procs ch) = 6 \<and>
     kstep lo s1 s2 \<and> process_counter s2 = 6 \<and> page_directory s2 32 = FOUR_MB OR PAGING_USER_ON \<and> (kstep lo)\<^sup>*\<^sup>* s2 s)"

lemma reachable_inv:
  assumes "(kstep lo)\<^sup>*\<^sup>* s0 s" and "kernel_inv s0 ch0"
  shows "(\<exists>ch. kernel_inv s ch) \<or> overran lo s0 s"
  using assms
proof (induction rule: rtranclp_induct)
  case (step s s')
  from step.IH [OF step.prems] show ?case
  proof
    assume "\<exists>ch. kernel_inv s ch"
    then obtain ch where ch: "kernel_inv s ch" by blast
    from kstep_inv [OF this step.hyps(2)] show ?thesis
      using step.hyps ch by (auto simp: goes_on_def overran_def overrun_def)
  next
    assume "overran lo s0 s"
    then show ?thesis unfolding overran_def using step.hyps(2) by (meson rtranclp.rtrancl_into_rtrancl)
  qed
qed blast

lemma booted_inv: "booted im st idt0 s \<Longrightarrow> kernel_inv s (\<lambda>_. [])"
  by (simp add: booted_def kernel_inv_def tables_ok_def)

section \<open>Waiting calls\<close>

text \<open>
  A system call with the interrupts that arrive while it waits is a run of the machine,
  whenever each interrupt is one, however long and whatever runs in it.
\<close>

lemma read_no_wait:
  assumes "fops_read (pointer (fd_entry (unat fd) s)) \<notin> {Terminal_read, Rtc_read}"
    and "sys_read isr es fd buf n s = Some (r, s', es')"
  shows "sys_read isr' [] fd buf n s = Some (r, s', [])"
  using assms by (cases "fops_read (pointer (fd_entry (unat fd) s))")
    (auto simp: sys_read_def read_op_def Let_def split: if_splits option.splits prod.splits)

lemma terminal_read_cases:
  assumes "terminal_read isr es buf n s = Some (r, s', es')"
  obtains "terminal_read isr' [] buf n s = Some (r, s', [])"
    | ds u where "\<not> terminal_locked u" "u = fold isr ds (s\<lparr>readFlag := (readFlag s)(curr_scheduler s := LOCK)\<rparr>)"
        "terminal_read_loop buf (nat (sint n)) 0 u = (r, s')"
  using assms by (auto simp: terminal_read_def Let_def split: if_splits option.splits prod.splits dest!: spin_Some)

lemma read_cases:
  assumes r: "sys_read isr es fd buf n s = Some (r, s', es')"
  obtains (no_wait) "sys_read isr' [] fd buf n s = Some (r, s', [])"
    | (line) ds u v where "\<not> terminal_locked u" "u = fold isr ds (s\<lparr>readFlag := (readFlag s)(curr_scheduler s := LOCK)\<rparr>)"
        "terminal_read_loop buf (nat (sint n)) 0 u = (r, v)" "s' = read_return fd r v"
    | (tick) ds u where "\<not> rtc_locked u" "u = fold isr ds (s\<lparr>rtc_interrupt_occurred := LOCK\<rparr>)" "s' = read_return fd SUCCESS u"
proof -
  let ?f = "fops_read (pointer (fd_entry (unat fd) s))"
  show thesis
  proof (cases "sint n < 0 \<or> sint fd < 0 \<or> sint fd > 7 \<or> buf = 0 \<or> flags (fd_entry (unat fd) s) = 0")
    case True
    then show thesis using r by (intro no_wait) (auto simp: sys_read_def split: if_splits)
  next
    case ok: False
    consider "?f = Terminal_read" | "?f = Rtc_read" | "?f \<notin> {Terminal_read, Rtc_read}" by blast
    then show thesis
    proof cases
      case 1
      then obtain v where v: "terminal_read isr es buf n s = Some (r, v, es')" "s' = read_return fd r v"
        using r ok by (auto simp: sys_read_def read_op_def read_return_def Let_def split: option.splits)
      from v(1) show thesis
      proof (cases rule: terminal_read_cases [where isr' = isr'])
        case 1
        then show thesis using v(2) \<open>?f = Terminal_read\<close> ok
          by (intro no_wait) (auto simp: sys_read_def read_op_def read_return_def Let_def)
      next
        case (2 ds u)
        then show thesis using line v(2) by blast
      qed
    next
      case 2
      then obtain v where v: "rtc_read isr es s = Some (r, v, es')" "s' = read_return fd r v"
        using r ok by (auto simp: sys_read_def read_op_def read_return_def Let_def split: option.splits)
      then have "spin rtc_locked isr es (s\<lparr>rtc_interrupt_occurred := LOCK\<rparr>) = Some (v, es')" "r = SUCCESS"
        by (auto simp: rtc_read_def split: option.splits)
      then show thesis using spin_Some [of rtc_locked] tick v(2) by blast
    next
      case 3
      from read_no_wait [OF this r] show thesis by (rule no_wait)
    qed
  qed
qed

lemma jmp_table_no_wait:
  assumes "i \<noteq> 2" and "jmp_table lo isr es i b c d s = Some (out, s', es')"
  shows "jmp_table lo isr' [] i b c d s = Some (out, s', [])"
  using assms unfolding jmp_table_def Let_def by (auto split: if_split_asm prod.splits)

lemma jmp_table_read:
  "jmp_table lo isr es 2 b c d s = map_option (\<lambda>(r, u, es'). (Return r, u, es')) (sys_read isr es b c d s)"
  by (simp add: jmp_table_def Let_def)

lemma call_no_wait:
  assumes c: "system_call_asm lo isr es eax ebx ecx edx s = Some (out, s', es')"
    and nw: "\<And>r u. sys_read isr es ebx ecx edx s = Some (r, u, es') \<Longrightarrow>
      s' = u\<lparr>if_flag := if_flag s\<rparr> \<Longrightarrow> sys_read isr' [] ebx ecx edx s = Some (r, u, [])"
  shows "system_call_asm lo isr' [] eax ebx ecx edx s = Some (out, s', [])"
proof (cases "eax > 10 \<or> eax < 1")
  case True
  then show ?thesis using c by (auto simp: system_call_asm_def)
next
  case ok: False
  then obtain q u where j: "jmp_table lo isr es (eax - 1) ebx ecx edx s = Some (q, u, es')"
    "out = q" "s' = (case q of Return r \<Rightarrow> u\<lparr>if_flag := if_flag s\<rparr> | _ \<Rightarrow> u)"
    using c by (auto simp: system_call_asm_def split: option.splits call_result.splits)
  have "jmp_table lo isr' [] (eax - 1) ebx ecx edx s = Some (q, u, [])"
  proof (cases "eax - 1 = 2")
    case True
    with j(1) obtain r where "sys_read isr es ebx ecx edx s = Some (r, u, es')" "q = Return r"
      unfolding True jmp_table_read by auto
    then show ?thesis unfolding True jmp_table_read using nw [of r u] j(3) by simp
  next
    case False
    from jmp_table_no_wait [OF this j(1)] show ?thesis .
  qed
  then show ?thesis using ok j(2,3) by (auto simp: system_call_asm_def split: call_result.splits)
qed

lemma call_is_run:
  assumes run: "cur_pcb_addr s \<noteq> 0" and isr: "\<And>e u. (kstep lo)\<^sup>*\<^sup>* u (isr e u)"
    and c: "system_call_asm lo isr es eax ebx ecx edx s = Some (out, s', es')" and ok: "out \<noteq> Null_deref"
  shows "(kstep lo)\<^sup>*\<^sup>* s s'"
proof -
  have waits: "(kstep lo)\<^sup>*\<^sup>* u (fold isr ds u)" for ds u
    by (induction ds arbitrary: u) (auto intro: rtranclp_trans isr)
  show ?thesis
  proof (cases "system_call_asm lo undisturbed [] eax ebx ecx edx s = Some (out, s', [])")
    case True
    then show ?thesis using kstep.call [OF run] ok by blast
  next
    case False
    then obtain r u where w: "sys_read isr es ebx ecx edx s = Some (r, u, es')" "s' = u\<lparr>if_flag := if_flag s\<rparr>"
        "sys_read undisturbed [] ebx ecx edx s \<noteq> Some (r, u, [])"
      using call_no_wait [OF c, where isr' = undisturbed] by blast
    from w(1) show ?thesis
    proof (cases rule: read_cases [where isr' = undisturbed])
      case no_wait
      then show ?thesis using w(3) by blast
    next
      case (line ds v x)
      have "kstep lo s (s\<lparr>readFlag := (readFlag s)(curr_scheduler s := LOCK)\<rparr>)" by (rule kstep.wait_line)
      moreover have "kstep lo v s'" unfolding w(2) line(4) by (rule kstep.line_came [OF line(1,3)])
      ultimately show ?thesis
        using waits [of "s\<lparr>readFlag := (readFlag s)(curr_scheduler s := LOCK)\<rparr>" ds] line(2)
        by (meson converse_rtranclp_into_rtranclp rtranclp.rtrancl_into_rtrancl)
    next
      case (tick ds v)
      have "kstep lo s (s\<lparr>rtc_interrupt_occurred := LOCK\<rparr>)" by (rule kstep.wait_clock)
      moreover have "kstep lo v s'" unfolding w(2) tick(3) by (rule kstep.clock_came [OF tick(1)])
      ultimately show ?thesis
        using waits [of "s\<lparr>rtc_interrupt_occurred := LOCK\<rparr>" ds] tick(2)
        by (meson converse_rtranclp_into_rtranclp rtranclp.rtrancl_into_rtrancl)
    qed
  qed
qed

section \<open>Properties\<close>

lemma user_pde_inj: "p < 6 \<Longrightarrow> q < 6 \<Longrightarrow> user_pde p = user_pde q \<longleftrightarrow> p = q"
  by (auto simp: u32_less_6 user_pde_def)



end
