(* ===== verification/Load_Spec.thy ===== *)
theory Load_Spec
  imports Kernel_Run
begin

text \<open>
  How a program is loaded. The file system's image is read-only in memory, so what a file
  holds is the same in all states that agree on the image; \<open>execute\<close> copies the named file to
  the program's own page, finds its entry point in it and enters there. So what \<open>halt\<close> and the
  scheduler make of a terminal without a program depends on the file called \<open>shell\<close> alone.
\<close>

section \<open>States with the same file system\<close>

definition same_image :: "'a filesys_scheme \<Rightarrow> 'a filesys_scheme \<Rightarrow> bool" where
  "same_image s s' \<longleftrightarrow> boot_block_addr s' = boot_block_addr s \<and> inode_addr s' = inode_addr s \<and>
     data_block_addr s' = data_block_addr s \<and> (\<forall>x. in_image s x \<longrightarrow> mem s' x = mem s x)"

lemma same_image_refl: "same_image s s"
  by (simp add: same_image_def)

lemma boot_block_in_image: "k < 4096 \<Longrightarrow> in_image s (boot_block_addr s + of_nat k)"
  unfolding in_image_def image_size_def by (intro exI [of _ k]) simp

lemma same_image_word:
  assumes "same_image s s'" and "\<And>j. j < 4 \<Longrightarrow> in_image s (a + of_nat j)"
  shows "load32 (mem s') a = load32 (mem s) a"
  using assms by (intro load32_cong) (simp add: same_image_def)

lemma same_image_stat:
  assumes "same_image s s'"
  shows "stat_dir_entry_num s' = stat_dir_entry_num s" "stat_inode_num s' = stat_inode_num s"
    "stat_data_block_num s' = stat_data_block_num s"
proof -
  have "load32 (mem s') (boot_block_addr s + of_nat k) = load32 (mem s) (boot_block_addr s + of_nat k)" if "k \<le> 8" for k
  proof (rule same_image_word [OF assms])
    fix j :: nat assume "j < 4"
    then show "in_image s (boot_block_addr s + of_nat k + of_nat j)"
      using boot_block_in_image [of "k + j" s] that by (simp add: add.assoc)
  qed
  from this [of 0] this [of 4] this [of 8] assms show
    "stat_dir_entry_num s' = stat_dir_entry_num s" "stat_inode_num s' = stat_inode_num s"
    "stat_data_block_num s' = stat_data_block_num s"
    by (simp_all add: stat_dir_entry_num_def stat_inode_num_def stat_data_block_num_def same_image_def)
qed

lemma same_image_layout:
  assumes "same_image s s'"
  shows "image_size s' = image_size s" "in_image s' x = in_image s x" "fs_layout s' = fs_layout s"
    "max_blocks s' = max_blocks s" "inode_ptr s' ino = inode_ptr s ino"
  using assms same_image_stat [OF assms]
  by (simp_all add: image_size_def in_image_def fs_layout_def max_blocks_def inode_ptr_def same_image_def)

lemma same_image_trans: "same_image s t \<Longrightarrow> same_image t u \<Longrightarrow> same_image s u"
  using same_image_layout(2) [of s t] by (simp add: same_image_def)

lemma same_image_inode:
  assumes "same_image s s'" and "fs_layout s" and "ino < stat_inode_num s"
  shows "inode_length (mem s') (inode_ptr s ino) = inode_length (mem s) (inode_ptr s ino)"
    and "blocks_ok s' ino = blocks_ok s ino"
proof -
  have "unat ino < unat (stat_inode_num s)" using assms(3) by (simp add: word_less_nat_alt)
  then have "in_image s (inode_ptr s ino + of_nat j)" if "j < 4" for j
    unfolding in_image_def using that assms(2)
    by (intro exI [of _ "4096 + 4096 * unat ino + j"]) (auto simp: image_size_def inode_ptr_def fs_layout_def)
  then show "inode_length (mem s') (inode_ptr s ino) = inode_length (mem s) (inode_ptr s ino)"
    unfolding inode_length_def by (intro same_image_word [OF assms(1)]) simp
  have "inode_data_block (mem s') (inode_ptr s ino) (of_nat k) = inode_data_block (mem s) (inode_ptr s ino) (of_nat k)"
    if "k < 1022" for k
    using that assms by (intro inode_data_block_cong) (simp_all add: same_image_def)
  then show "blocks_ok s' ino = blocks_ok s ino"
    using same_image_layout [OF assms(1)] same_image_stat [OF assms(1)] by (simp add: blocks_ok_def max_blocks_def)
qed

lemma same_image_file:
  assumes "same_image s s'" and "fs_layout s" and "ino < stat_inode_num s" and "blocks_ok s ino"
    and "off + n \<le> 4096 * max_blocks s"
  shows "file_bytes s' ino off n = file_bytes s ino off n"
proof -
  have "mem s' (file_byte_addr s' ino (off + i)) = mem s (file_byte_addr s ino (off + i))" if "i < n" for i
  proof -
    let ?k = "(off + i) div 4096"
    have k: "?k < max_blocks s" using that assms(5) by (simp add: less_mult_imp_div_less mult.commute)
    then have "inode_data_block (mem s') (inode_ptr s ino) (of_nat ?k) = inode_data_block (mem s) (inode_ptr s ino) (of_nat ?k)"
      using assms by (intro inode_data_block_cong) (simp_all add: same_image_def max_blocks_def)
    then have "file_byte_addr s' ino (off + i) = file_byte_addr s ino (off + i)"
      using assms(1) by (simp add: file_byte_addr_def same_image_layout(5) [OF assms(1)]) (simp add: same_image_def)
    moreover have "in_image s (file_byte_addr s ino (off + i))"
      unfolding file_byte_addr_def using assms(2,4) k by (intro data_byte_in_image) (auto simp: blocks_ok_def)
    ultimately show ?thesis using assms(1) by (simp add: same_image_def)
  qed
  then show ?thesis by (simp add: file_bytes_def)
qed

lemma same_image_store:
  assumes "disjoint_runs buf (length bs) (boot_block_addr s) (image_size s)"
  shows "same_image s (s\<lparr>mem := store_bytes (mem s) buf bs\<rparr>)"
proof -
  have "store_bytes (mem s) buf bs x = mem s x" if "in_image s x" for x
    using disjoint_runsD [OF assms] that by (intro store_bytes_outside) (metis in_image_def)
  then show ?thesis by (simp add: same_image_def)
qed

section \<open>Loading a program\<close>

text \<open>
  The file of an executable: an index node with its blocks, long enough to hold the entry
  point, short enough for the program's page, starting with the magic number. And what the
  loader relies on: the two buffers of \<open>execute\<close> and the image are apart from each other and
  from the program's page.
\<close>

definition executable :: "'a filesys_scheme \<Rightarrow> u32 \<Rightarrow> bool" where
  "executable s ino \<longleftrightarrow> ino < stat_inode_num s \<and> blocks_ok s ino \<and>
     24 < unat (inode_length (mem s) (inode_ptr s ino)) \<and>
     unat (inode_length (mem s) (inode_ptr s ino)) \<le> min (4096 * max_blocks s) 0x3B8000 \<and>
     file_bytes s ino 0 4 = [0x7F, 0x45, 0x4C, 0x46]"

definition kernel_buffer :: "'a filesys_scheme \<Rightarrow> u32 \<Rightarrow> bool" where
  "kernel_buffer s a \<longleftrightarrow> a \<noteq> 0 \<and> disjoint_runs a 4 (boot_block_addr s) (image_size s) \<and>
     (\<forall>j < 4. \<not> user_window (a + of_nat j))"

definition loader_ok :: "locals \<Rightarrow> 'a filesys_scheme \<Rightarrow> bool" where
  "loader_ok lo s \<longleftrightarrow> fs_layout s \<and> kernel_buffer s (exe_buf lo) \<and> kernel_buffer s (entry_point lo) \<and>
     (\<forall>x. in_image s x \<longrightarrow> \<not> user_window x)"

lemma program_page:
  assumes "i < 0x3B8000"
  shows "user_window (PROGRAM_IMG + of_nat i)"
proof -
  have "unat (PROGRAM_IMG + of_nat i) = 0x8048000 + i"
    using assms by (simp add: unat_word_ariths unat_of_nat take_bit_nat_eq_self)
  then show ?thesis using assms unfolding user_window_def drop_bit_range by simp
qed

lemma image_apart_program:
  assumes "loader_ok lo s" and "n \<le> 0x3B8000"
  shows "disjoint_runs PROGRAM_IMG n (boot_block_addr s) (image_size s)"
  unfolding disjoint_runs_def
proof (intro allI impI notI)
  fix i j assume "i < n" "j < image_size s" "PROGRAM_IMG + of_nat i = boot_block_addr s + of_nat j"
  then show False using assms program_page [of i] unfolding loader_ok_def in_image_def by auto
qed

lemma same_image_loader:
  assumes "same_image s s'" and "loader_ok lo s"
  shows "loader_ok lo s'"
proof -
  have "boot_block_addr s' = boot_block_addr s" using assms(1) by (simp add: same_image_def)
  then show ?thesis using assms by (simp add: loader_ok_def kernel_buffer_def same_image_layout [OF assms(1)])
qed

lemma same_image_executable:
  assumes "same_image s s'" and "fs_layout s" and "executable s ino"
  shows "executable s' ino" and "inode_length (mem s') (inode_ptr s' ino) = inode_length (mem s) (inode_ptr s ino)"
proof -
  have ino: "ino < stat_inode_num s" using assms(3) by (simp add: executable_def)
  note f = same_image_layout [OF assms(1)] same_image_stat [OF assms(1)] same_image_inode [OF assms(1,2) ino]
  show len: "inode_length (mem s') (inode_ptr s' ino) = inode_length (mem s) (inode_ptr s ino)" using f by simp
  have "4 \<le> 4096 * max_blocks s" using assms(3) by (auto simp: executable_def)
  then have "file_bytes s' ino 0 4 = file_bytes s ino 0 4"
    using assms by (intro same_image_file) (simp_all add: executable_def)
  then show "executable s' ino" using assms(3) len f by (simp add: executable_def)
qed

lemma executable_blocks: "executable s ino \<Longrightarrow> 4096 \<le> 4096 * max_blocks s"
  by (cases "max_blocks s") (auto simp: executable_def)

lemma read_header:
  assumes "loader_ok lo s" and "executable s ino" and "kernel_buffer s a" and "off = 0 \<or> off = 24"
  shows "read_data ino off a 4 s = (4, s\<lparr>mem := store_bytes (mem s) a (file_bytes s ino (unat off) 4)\<rparr>)"
proof -
  have "unat off + 4 \<le> 4096 * max_blocks s" using executable_blocks [OF assms(2)] assms(4) by auto
  moreover have "\<not> inode_length (mem s) (inode_ptr s ino) \<le> off"
    using assms(2,4) by (auto simp: executable_def word_le_nat_alt)
  ultimately show ?thesis
    using assms read_data_eq [of s ino a 4 off] by (auto simp: executable_def loader_ok_def kernel_buffer_def not_le)
qed

lemma read_program:
  assumes "loader_ok lo s" and "executable s ino"
  defines "len \<equiv> inode_length (mem s) (inode_ptr s ino)"
  shows "read_data ino 0 PROGRAM_IMG len s = (len, s\<lparr>mem := store_bytes (mem s) PROGRAM_IMG (file_bytes s ino 0 (unat len))\<rparr>)"
proof -
  have len: "\<not> len \<le> 0" "unat len \<le> 4096 * max_blocks s" "unat len \<le> 0x3B8000" and ino: "\<not> stat_inode_num s \<le> ino"
    using assms(2) by (auto simp: executable_def len_def)
  have "disjoint_runs PROGRAM_IMG (unat len) (boot_block_addr s) (image_size s)"
    by (rule image_apart_program [OF assms(1) len(3)])
  then show ?thesis
    using read_data_eq [of s ino PROGRAM_IMG len 0] len ino assms(1,2)
    by (simp add: loader_ok_def executable_def len_def [symmetric])
qed

lemma isExe_executable:
  assumes lo: "loader_ok lo s" and ex: "executable s ino" and d: "read_dentry_by_name f s = Some d" "inode_num d = ino"
  shows "isExe lo f s = (SUCCESS, s\<lparr>mem := store_bytes (mem s) (exe_buf lo) (file_bytes s ino 0 4)\<rparr>)"
proof -
  let ?bs = "file_bytes s ino 0 4"
  have r: "read_data ino 0 (exe_buf lo) 4 s = (4, s\<lparr>mem := store_bytes (mem s) (exe_buf lo) ?bs\<rparr>)"
    using read_header [OF lo ex, of "exe_buf lo" 0] lo by (simp add: loader_ok_def)
  have "ptr (store_bytes (mem s) (exe_buf lo) ?bs) (exe_buf lo) k = magic_identifiers k" if "k < 4" for k
  proof -
    have "ptr (store_bytes (mem s) (exe_buf lo) ?bs) (exe_buf lo) k = ?bs ! k"
      using that by (simp add: ptr_def store_bytes_inside)
    moreover have "k = 0 \<or> k = 1 \<or> k = 2 \<or> k = 3" using that by arith
    ultimately show ?thesis using ex by (auto simp: executable_def magic_identifiers_def)
  qed
  then have "strncmp (ptr (store_bytes (mem s) (exe_buf lo) ?bs) (exe_buf lo)) magic_identifiers 4 = 0"
    by (simp add: strncmp_eq_0)
  then show ?thesis using d r by (simp add: isExe_def)
qed

definition le_word :: "u8 list \<Rightarrow> u32" where
  "le_word bs = ucast (bs ! 0) OR push_bit 8 (ucast (bs ! 1)) OR push_bit 16 (ucast (bs ! 2)) OR push_bit 24 (ucast (bs ! 3))"

lemma load32_le_word: "load32 m a = le_word (load_bytes m a 4)"
  by (simp add: load32_def le_word_def)

text \<open>The new process before its file is read into its page.\<close>

definition spawned :: "bytes \<Rightarrow> 'a kernel_scheme \<Rightarrow> 'a kernel_scheme" where
  "spawned arg s = init_pcb (pcb_addr (find_pid s)) arg (find_pid s)
     (switch_user (find_pid s) (s\<lparr>process_counter := process_counter s + 1\<rparr>))"

lemma spawned_image:
  assumes "loader_ok lo s"
  shows "same_image s (spawned arg s)"
proof -
  have "mem (spawned arg s) x = mem s x" if "in_image s x" for x
    using that assms by (simp add: spawned_def init_pcb_fields mem_simps loader_ok_def)
  moreover have "boot_block_addr (spawned arg s) = boot_block_addr s" "inode_addr (spawned arg s) = inode_addr s"
    "data_block_addr (spawned arg s) = data_block_addr s"
    by (simp_all add: spawned_def init_pcb_def Let_def frame_simps)
  ultimately show ?thesis by (simp add: same_image_def)
qed

lemma loaded_mem:
  fixes s :: "'a kernel_scheme"
  assumes lo: "loader_ok lo s" and ex: "executable s (inode_num d)"
  defines "ino \<equiv> inode_num d"
  defines "len \<equiv> unat (inode_length (mem s) (inode_ptr s ino))"
  shows "loaded lo arg d s = (spawned arg s)\<lparr>mem := store_bytes
      (store_bytes (mem (spawned arg s)) (entry_point lo) (file_bytes s ino 24 4)) PROGRAM_IMG (file_bytes s ino 0 len)\<rparr>"
    and "same_image s (loaded lo arg d s)"
proof -
  let ?s1 = "spawned arg s" and ?bs = "file_bytes s ino 24 4" and ?prog = "file_bytes s ino 0 len"
  let ?s2 = "?s1\<lparr>mem := store_bytes (mem ?s1) (entry_point lo) ?bs\<rparr>"
  have lay: "fs_layout s" and ino: "ino < stat_inode_num s" "blocks_ok s ino"
    using lo ex by (simp_all add: loader_ok_def executable_def ino_def)
  have len: "24 < len" "len \<le> 4096 * max_blocks s" "len \<le> 0x3B8000" using ex by (simp_all add: executable_def len_def ino_def)
  have one: "same_image s ?s1" by (rule spawned_image [OF lo])
  have lo1: "loader_ok lo ?s1" and ex1: "executable ?s1 ino"
    using same_image_loader [OF one lo] same_image_executable(1) [OF one lay] ex by (simp_all add: ino_def)
  have "file_bytes ?s1 ino 24 4 = ?bs"
    using executable_blocks [OF ex] by (intro same_image_file [OF one lay ino]) simp
  then have r1: "read_data ino 24 (entry_point lo) 4 ?s1 = (4, ?s2)"
    using read_header [OF lo1 ex1, of "entry_point lo" 24] lo1 by (simp add: loader_ok_def)
  have "same_image ?s1 ?s2"
    using lo1 by (intro same_image_store) (simp add: loader_ok_def kernel_buffer_def)
  then have two: "same_image s ?s2" by (rule same_image_trans [OF one])
  have lo2: "loader_ok lo ?s2" and ex2: "executable ?s2 ino"
    and l2: "inode_length (mem ?s2) (inode_ptr ?s2 ino) = inode_length (mem s) (inode_ptr s ino)"
    using same_image_loader [OF two lo] same_image_executable [OF two lay, of ino] ex by (simp_all add: ino_def)
  have f2: "file_bytes ?s2 ino 0 len = ?prog" using len by (intro same_image_file [OF two lay ino]) simp
  have apart: "disjoint_runs PROGRAM_IMG len (boot_block_addr ?s2) (image_size ?s2)"
    by (rule image_apart_program [OF lo2 len(3)])
  have "read_data ino 0 PROGRAM_IMG (inode_length (mem ?s2) (inode_ptr ?s2 ino)) ?s2 =
      (inode_length (mem ?s2) (inode_ptr ?s2 ino), ?s2\<lparr>mem := store_bytes (mem ?s2) PROGRAM_IMG ?prog\<rparr>)"
    using read_program [OF lo2 ex2] f2 unfolding l2 len_def by simp
  then show eq: "loaded lo arg d s = ?s1\<lparr>mem := store_bytes
      (store_bytes (mem ?s1) (entry_point lo) ?bs) PROGRAM_IMG ?prog\<rparr>"
    unfolding loaded_eq Let_def spawned_def [symmetric] ino_def [symmetric]
    by (simp add: r1 inode_ptr_def)
  have "same_image ?s2 (?s2\<lparr>mem := store_bytes (mem ?s2) PROGRAM_IMG ?prog\<rparr>)"
    using apart by (intro same_image_store) simp
  then show "same_image s (loaded lo arg d s)" unfolding eq using same_image_trans [OF two] by simp
qed

lemma loaded_reads:
  fixes s :: "'a kernel_scheme"
  assumes lo: "loader_ok lo s" and ex: "executable s (inode_num d)"
  defines "ino \<equiv> inode_num d"
  defines "len \<equiv> unat (inode_length (mem s) (inode_ptr s ino))"
  shows "load_bytes (mem (loaded lo arg d s)) PROGRAM_IMG len = file_bytes s ino 0 len"
    and "load32 (mem (loaded lo arg d s)) (entry_point lo) = le_word (file_bytes s ino 24 4)"
proof -
  let ?m = "store_bytes (mem (spawned arg s)) (entry_point lo) (file_bytes s ino 24 4)"
  let ?prog = "file_bytes s ino 0 len"
  have len: "len \<le> 0x3B8000" using ex by (simp add: executable_def len_def ino_def)
  have m: "mem (loaded lo arg d s) = store_bytes ?m PROGRAM_IMG ?prog"
    using loaded_mem(1) [OF lo ex, of arg] by (simp add: ino_def len_def)
  show "load_bytes (mem (loaded lo arg d s)) PROGRAM_IMG len = ?prog"
    unfolding m using load_store_bytes_same [of ?prog ?m PROGRAM_IMG] len by simp
  have "disjoint_runs PROGRAM_IMG (length ?prog) (entry_point lo) 4"
    unfolding disjoint_runs_def
  proof (intro allI impI notI)
    fix i j :: nat assume "i < length ?prog" "j < 4" "PROGRAM_IMG + of_nat i = entry_point lo + of_nat j"
    then show False using program_page [of i] lo len by (auto simp: loader_ok_def kernel_buffer_def)
  qed
  then have "load_bytes (mem (loaded lo arg d s)) (entry_point lo) 4 = load_bytes ?m (entry_point lo) 4"
    unfolding m by (rule load_store_bytes_disjoint)
  also have "\<dots> = file_bytes s ino 24 4"
    using load_store_bytes_same [of "file_bytes s ino 24 4" "mem (spawned arg s)" "entry_point lo"] by simp
  finally show "load32 (mem (loaded lo arg d s)) (entry_point lo) = le_word (file_bytes s ino 24 4)"
    by (simp add: load32_le_word)
qed

lemma execute_launches:
  fixes s :: "'a kernel_scheme"
  assumes c: "cstr c bs" "command_ok bs" "command_name bs \<noteq> [0x2E]"
    and i: "List.find (\<lambda>i. entry_name s i = command_name bs) [0..<62] = Some i"
    and d: "d = load_dentry (mem s) (dentry_addr s (of_nat i))"
    and lo: "loader_ok lo s" and ex: "executable s (inode_num d)"
    and room: "process_counter s \<noteq> 5"
  shows "\<exists>arg. cstr arg (command_arg bs) \<and> execute lo (Some c) s =
    Some (launch lo arg d ((cli s)\<lparr>mem := store_bytes (mem s) (exe_buf lo) (file_bytes s (inode_num d) 0 4)\<rparr>))"
proof -
  obtain f arg where p: "parse (Some c) (filename0 lo) (arg0 lo) = Some (SUCCESS, f, arg)"
    "cstr f (command_name bs)" "cstr arg (command_arg bs)"
    using parse_result [OF c(1), of "filename0 lo" "arg0 lo"] c(2) by auto
  have im: "same_image s (cli s)" by (simp add: same_image_def cli_def)
  have lay: "fs_layout s" using lo by (simp add: loader_ok_def)
  have r: "read_dentry_by_name f (cli s) = Some d"
    using c(3) i d by (simp add: read_dentry_by_name_eq [OF p(2)] entry_name_def dentry_addr_def frame_simps)
  have "file_bytes (cli s) (inode_num d) 0 4 = file_bytes s (inode_num d) 0 4"
    by (simp add: file_bytes_def file_byte_addr_def inode_ptr_def cli_def)
  then have "isExe lo f (cli s) = (SUCCESS, (cli s)\<lparr>mem := store_bytes (mem s) (exe_buf lo) (file_bytes s (inode_num d) 0 4)\<rparr>)"
    using isExe_executable [OF same_image_loader [OF im lo] same_image_executable(1) [OF im lay ex] r refl]
    by (simp add: frame_simps)
  then show ?thesis
    using p r room by (intro exI [of _ arg]) (simp add: execute_def Let_def frame_simps)
qed

lemma spawned_process:
  fixes s :: "'a kernel_scheme"
  defines "p \<equiv> find_pid s"
  shows "page_directory (spawned arg s) 32 = user_pde p" and "argument (pcbs (spawned arg s) (pcb_addr p)) = arg"
    and "file_descriptor (pcbs (spawned arg s) (pcb_addr p)) 0 = \<lparr>pointer = stdin_fops s, inode = 0, file_position = 0, flags = 1\<rparr>"
    and "file_descriptor (pcbs (spawned arg s) (pcb_addr p)) 1 = \<lparr>pointer = stdout_fops s, inode = 0, file_position = 0, flags = 1\<rparr>"
    and "ebp (spawned arg s) = ebp s" and "esp (spawned arg s) = esp s"
  by (simp_all add: spawned_def p_def init_pcb_fields init_pcb_descriptors frame_simps)
     (simp_all add: switch_user_def flush_tlb_def Let_def)

text \<open>A process that has just been started: entered at its entry point, with its file, its
  argument, its two descriptors and its stack, and a way back for the parent.\<close>

definition started :: "'a kernel_scheme \<Rightarrow> u8 list \<Rightarrow> u32 \<Rightarrow> 'a kernel_scheme \<Rightarrow> bool" where
  "started s arg ino s' \<longleftrightarrow>
     (let p = find_pid s; parent = pcb (terminal s (curr_scheduler s)); len = unat (inode_length (mem s) (inode_ptr s ino))
      in load_bytes (mem s') PROGRAM_IMG len = file_bytes s ino 0 len \<and>
         page_directory s' 32 = user_pde p \<and> tss_esp0 s' = 0x800000 - p * 0x2000 - 4 \<and> if_flag s' \<and>
         user_cs s' = USER_CS \<and> user_ss s' = USER_DS \<and> user_esp s' = USER_STACK \<and>
         cur_pcb_addr s' = pcb_addr p \<and> cstr (argument (cur_pcb s')) arg \<and>
         fd_entry 0 s' = \<lparr>pointer = stdin_fops s, inode = 0, file_position = 0, flags = 1\<rparr> \<and>
         fd_entry 1 s' = \<lparr>pointer = stdout_fops s, inode = 0, file_position = 0, flags = 1\<rparr> \<and>
         (parent = 0 \<or> halt_ebp (pcbs s' parent) = ebp s \<and> halt_esp (pcbs s' parent) = esp s))"

lemma started_image:
  assumes im: "same_image s t" and lay: "fs_layout s" and ex: "executable s ino"
    and "find_pid t = find_pid s" "terminal t = terminal s" "curr_scheduler t = curr_scheduler s"
    and "stdin_fops t = stdin_fops s" "stdout_fops t = stdout_fops s" "ebp t = ebp s" "esp t = esp s"
  shows "started t arg ino s' = started s arg ino s'"
proof -
  let ?len = "unat (inode_length (mem s) (inode_ptr s ino))"
  have "file_bytes t ino 0 ?len = file_bytes s ino 0 ?len"
    using ex by (intro same_image_file [OF im lay]) (simp_all add: executable_def)
  then show ?thesis using assms(4-) same_image_executable(2) [OF im lay ex] by (simp add: started_def)
qed

lemma launch_starts:
  fixes s :: "'a kernel_scheme"
  assumes lo: "loader_ok lo s" and ex: "executable s (inode_num d)" and arg: "cstr a arg"
    and new: "pcb (terminal s (curr_scheduler s)) \<noteq> pcb_addr (find_pid s)"
  shows "fst (launch lo a d s) = To_user (le_word (file_bytes s (inode_num d) 24 4))"
    and "started s arg (inode_num d) (snd (launch lo a d s))" and "same_image s (snd (launch lo a d s))"
proof -
  let ?l = "loaded lo a d s" and ?p = "find_pid s" and ?cs = "curr_scheduler s"
  note m = loaded_mem [OF lo ex, of a] and r = loaded_reads [OF lo ex, of a]
    and f = loaded_fields [where s = s and lo = lo and arg = a and d = d]
  have l: "page_directory ?l 32 = user_pde ?p" "argument (pcbs ?l (pcb_addr ?p)) = a"
    "file_descriptor (pcbs ?l (pcb_addr ?p)) 0 = \<lparr>pointer = stdin_fops s, inode = 0, file_position = 0, flags = 1\<rparr>"
    "file_descriptor (pcbs ?l (pcb_addr ?p)) 1 = \<lparr>pointer = stdout_fops s, inode = 0, file_position = 0, flags = 1\<rparr>"
    "ebp ?l = ebp s" "esp ?l = esp s"
    unfolding m(1) by (simp_all add: spawned_process spawned_process(4) [unfolded One_nat_def])
  show "fst (launch lo a d s) = To_user (le_word (file_bytes s (inode_num d) 24 4))"
    using r(2) by (simp add: launch_eq enter_program_def context_switch_def Let_def)
  show "same_image s (snd (launch lo a d s))"
    using m(2) by (simp add: launch_eq enter_program_def context_switch_def Let_def same_image_def)
  show "started s arg (inode_num d) (snd (launch lo a d s))"
    unfolding started_def Let_def
    using r(1) f l arg new
    by (simp add: launch_eq enter_program_def context_switch_def Let_def cur_pcb_def cur_pcb_addr_def fd_entry_def)
qed

lemma execute_loads:
  fixes s :: "'a kernel_scheme"
  assumes c: "cstr c bs" "command_ok bs" "command_name bs \<noteq> [0x2E]"
    and i: "List.find (\<lambda>i. entry_name s i = command_name bs) [0..<62] = Some i"
    and ino: "ino = inode_num (load_dentry (mem s) (dentry_addr s (of_nat i)))"
    and lo: "loader_ok lo s" and ex: "executable s ino"
    and pt: "proc_table s ch" and cs: "curr_scheduler s < 3" and room: "length (all_procs ch) < 6"
  shows "\<exists>s'. execute lo (Some c) s = Some (To_user (le_word (file_bytes s ino 24 4)), s') \<and>
    started s (command_arg bs) ino s' \<and> same_image s s' \<and>
    proc_table s' (ch(curr_scheduler s := find_pid s # ch (curr_scheduler s)))"
proof -
  define d where "d = load_dentry (mem s) (dentry_addr s (of_nat i))"
  have d: "inode_num d = ino" by (simp add: d_def ino)
  let ?t = "(cli s)\<lparr>mem := store_bytes (mem s) (exe_buf lo) (file_bytes s ino 0 4)\<rparr>"
  have full: "process_counter s \<noteq> 5" using max_counter [OF pt] room by simp
  obtain a where a: "cstr a (command_arg bs)" "execute lo (Some c) s = Some (launch lo a d ?t)"
    using execute_launches [OF c i d_def lo _ full] ex unfolding d by blast
  have lay: "fs_layout s" using lo by (simp add: loader_ok_def)
  have "same_image s (s\<lparr>mem := store_bytes (mem s) (exe_buf lo) (file_bytes s ino 0 4)\<rparr>)"
    using lo by (intro same_image_store) (simp add: loader_ok_def kernel_buffer_def)
  then have im: "same_image s ?t" by (simp add: same_image_def cli_def)
  have pid: "find_pid ?t = find_pid s" by (simp add: find_pid_def frame_simps)
  have pt1: "proc_table ?t ch" and cs1: "curr_scheduler ?t = curr_scheduler s"
    using pt proc_table_step [OF console_step_mem [where s = "cli s"]] by (simp_all add: frame_simps)
  note push = launch_pushes [OF pt1 _ room, unfolded cs1, OF cs, unfolded pid]
  have new: "pcb (terminal ?t (curr_scheduler ?t)) \<noteq> pcb_addr (find_pid ?t)"
    using proc_table_chain [OF pt cs] push(1,2) cs pcb_addr_nonzero [OF push(1)] pcb_addr_inj
    by (cases "ch (curr_scheduler s)") (auto simp: frame_simps pid all_procs_eq)
  have "executable ?t (inode_num d)" using same_image_executable(1) [OF im lay ex] by (simp only: d)
  note st = launch_starts [OF same_image_loader [OF im lo] this a(1) new]
  have "started ?t (command_arg bs) ino s' = started s (command_arg bs) ino s'" for s'
    by (rule started_image [OF im lay ex pid]) (simp_all add: cli_def)
  moreover have "file_bytes ?t ino 24 4 = file_bytes s ino 24 4"
    using executable_blocks [OF ex] ex by (intro same_image_file [OF im lay]) (simp_all add: executable_def)
  moreover have "same_image s (snd (launch lo a d ?t))" by (rule same_image_trans [OF im st(3)])
  ultimately show ?thesis
    using a(2) st push(3) [of lo a d] unfolding d by (cases "launch lo a d ?t") simp
qed

section \<open>Starting a shell\<close>

text \<open>
  \<open>program_file name s ino\<close>: \<open>ino\<close> is the index node of the first directory entry called \<open>name\<close>.
  \<open>not_elf\<close>: its file is not empty and does not start with the magic number.
\<close>

definition program_file :: "string \<Rightarrow> 'a filesys_scheme \<Rightarrow> u32 \<Rightarrow> bool" where
  "program_file name s ino \<longleftrightarrow>
     (case List.find (\<lambda>i. entry_name s i = bytes_of name) [0..<62] of
        None \<Rightarrow> False
      | Some i \<Rightarrow> ino = inode_num (load_dentry (mem s) (dentry_addr s (of_nat i))))"

definition no_program_file :: "string \<Rightarrow> 'a filesys_scheme \<Rightarrow> bool" where
  "no_program_file name s \<longleftrightarrow> (\<forall>i < 62. entry_name s i \<noteq> bytes_of name)"

definition not_elf :: "'a filesys_scheme \<Rightarrow> u32 \<Rightarrow> bool" where
  "not_elf s ino \<longleftrightarrow> ino < stat_inode_num s \<and> blocks_ok s ino \<and> 0 < max_blocks s \<and>
     inode_length (mem s) (inode_ptr s ino) \<noteq> 0 \<and> file_bytes s ino 0 4 \<noteq> [0x7F, 0x45, 0x4C, 0x46]"

lemma program_file_cong:
  assumes "mem s' = mem s" "boot_block_addr s' = boot_block_addr s"
  shows "program_file n s' ino = program_file n s ino" "no_program_file n s' = no_program_file n s"
  unfolding program_file_def no_program_file_def entry_name_def dentry_addr_def assms by (rule refl)+

lemma mem_image_cong:
  fixes s s' :: "'a kernel_scheme"
  assumes "mem s' = mem s" "boot_block_addr s' = boot_block_addr s" "inode_addr s' = inode_addr s"
    "data_block_addr s' = data_block_addr s"
  shows "same_image s s'"
  using assms by (simp add: same_image_def)

lemma isExe_not_elf:
  assumes lo: "loader_ok lo s" and ne: "not_elf s ino" and d: "read_dentry_by_name f s = Some d" "inode_num d = ino"
  shows "fst (isExe lo f s) = FAILURE"
proof -
  let ?bs = "file_bytes s ino 0 4" and ?x = "exe_buf lo"
  have lay: "fs_layout s" "?x \<noteq> 0" "disjoint_runs ?x 4 (boot_block_addr s) (image_size s)"
    using lo by (simp_all add: loader_ok_def kernel_buffer_def)
  have r: "read_data ino 0 ?x 4 s = (4, s\<lparr>mem := store_bytes (mem s) ?x ?bs\<rparr>)"
    using read_data_eq [of s ino ?x 4 0] ne lay by (auto simp: not_elf_def not_le)
  let ?p = "ptr (store_bytes (mem s) ?x ?bs) ?x"
  have b: "?p k = ?bs ! k" if "k < 4" for k using that by (simp add: ptr_def store_bytes_inside)
  have "strncmp ?p magic_identifiers 4 \<noteq> 0"
  proof
    assume "strncmp ?p magic_identifiers 4 = 0"
    then have "\<forall>k < 4. (\<forall>j<k. ?p j \<noteq> 0) \<longrightarrow> ?p k = magic_identifiers k" by (simp add: strncmp_eq_0)
    then have eq: "?p k = magic_identifiers k" if "k < 4" "\<forall>j<k. ?p j \<noteq> 0" for k using that by blast
    have nz: "magic_identifiers j \<noteq> 0" if "j < 4" for j
    proof -
      from that have "j = 0 \<or> j = 1 \<or> j = 2 \<or> j = 3" by arith
      then show ?thesis by (auto simp: magic_identifiers_def)
    qed
    have "?p k = magic_identifiers k" if "k < 4" for k
      using that
    proof (induction k rule: less_induct)
      case (less k)
      then show ?case using nz by (intro eq) auto
    qed
    then have "?bs ! k = magic_identifiers k" if "k < 4" for k using that b by simp
    then have "?bs = map magic_identifiers [0..<4]" by (intro nth_equalityI) simp_all
    also have "\<dots> = [0x7F, 0x45, 0x4C, 0x46]" by (simp add: upt_rec magic_identifiers_def)
    finally have "?bs = [0x7F, 0x45, 0x4C, 0x46]" .
    then show False using ne by (simp add: not_elf_def)
  qed
  then show ?thesis using d r by (simp add: isExe_def)
qed

lemma shell_command:
  "cstr (lit ''shell'') (bytes_of ''shell'')" "command_name (bytes_of ''shell'') = bytes_of ''shell''"
  "command_arg (bytes_of ''shell'') = []" "command_ok (bytes_of ''shell'')" "bytes_of ''shell'' \<noteq> [0x2E]"
  by (rule cstr_lit)
    (simp_all add: command_name_def command_arg_def command_ok_def bytes_of_def SPACE_def)

text \<open>\<open>execute\<close> of the string \<open>shell\<close>: the file of that name is entered, or nothing is.\<close>

lemma execute_shell:
  assumes "program_file ''shell'' s ino" and "loader_ok lo s" and "executable s ino"
    and "proc_table s ch" and "curr_scheduler s < 3" and "length (all_procs ch) < 6"
  shows "\<exists>s'. execute lo (Some (lit ''shell'')) s = Some (To_user (le_word (file_bytes s ino 24 4)), s') \<and>
    started s [] ino s' \<and> same_image s s' \<and> proc_table s' (ch(curr_scheduler s := find_pid s # ch (curr_scheduler s)))"
proof -
  obtain i where "List.find (\<lambda>i. entry_name s i = bytes_of ''shell'') [0..<62] = Some i"
    "ino = inode_num (load_dentry (mem s) (dentry_addr s (of_nat i)))"
    using assms(1) by (auto simp: program_file_def split: option.splits)
  from execute_loads [OF shell_command(1,4), unfolded shell_command(2,3), OF shell_command(5) this assms(2-6)]
  show ?thesis .
qed

lemma execute_no_shell:
  assumes "no_program_file ''shell'' s \<or> (\<exists>ino. program_file ''shell'' s ino \<and> not_elf s ino)" and lo: "loader_ok lo s"
  shows "\<exists>s'. execute lo (Some (lit ''shell'')) s = Some (Ret FAILURE, s')"
proof -
  let ?bs = "bytes_of ''shell''"
  obtain f arg where p: "parse (Some (lit ''shell'')) (filename0 lo) (arg0 lo) = Some (SUCCESS, f, arg)" "cstr f ?bs"
    using parse_result [OF shell_command(1), of "filename0 lo" "arg0 lo"] shell_command(2-4) by auto
  note r = read_dentry_by_name_eq [OF p(2), of "cli s"]
  have e: "entry_name (cli s) = entry_name s" "dentry_addr (cli s) = dentry_addr s" "mem (cli s) = mem s"
    by (simp_all add: fun_eq_iff entry_name_def dentry_addr_def frame_simps)
  show ?thesis
  proof (cases "no_program_file ''shell'' s")
    case True
    then have "List.find (\<lambda>i. entry_name s i = ?bs) [0..<62] = None"
      by (simp add: no_program_file_def find_upt_None)
    then have "read_dentry_by_name f (cli s) = None" using r shell_command(5) by (simp add: e)
    then show ?thesis using p(1) by (simp add: execute_def Let_def)
  next
    case False
    then obtain ino where ino: "program_file ''shell'' s ino" "not_elf s ino" using assms(1) by blast
    then obtain i where "List.find (\<lambda>i. entry_name s i = ?bs) [0..<62] = Some i"
      "ino = inode_num (load_dentry (mem s) (dentry_addr s (of_nat i)))"
      by (auto simp: program_file_def split: option.splits)
    then obtain d where d: "read_dentry_by_name f (cli s) = Some d" "inode_num d = ino" using r shell_command(5) by (simp add: e)
    have im: "same_image s (cli s)" by (simp add: same_image_def cli_def)
    have "not_elf (cli s) ino"
      using ino(2) by (simp add: not_elf_def stat_inode_num_def blocks_ok_def max_blocks_def stat_data_block_num_def inode_ptr_def
          file_bytes_def file_byte_addr_def cli_def)
    from isExe_not_elf [OF same_image_loader [OF im lo] this d] obtain u where "isExe lo f (cli s) = (FAILURE, u)"
      by (metis prod.collapse)
    then show ?thesis using p(1) d(1) by (simp add: execute_def Let_def)
  qed
qed

section \<open>Properties\<close>

text \<open>C5. \<open>execute\<close> of a command whose first word names an executable file, while a process is free, enters
  the file's own entry point, read from offset 24 of the file. By then the program page holds
  exactly the bytes of the file, the new process is on top of its terminal's stack, its page is
  mapped, its kernel stack is ready, its standard descriptors are open, its argument is the
  rest of the command without leading spaces, and the file system is as it was. The parent's
  frame is saved for the \<open>halt\<close> that returns to it.\<close>

theorem execute_loads_program:
  fixes s :: "'a kernel_scheme"
  assumes c: "cstr c bs" "command_ok bs" "command_name bs \<noteq> [0x2E]"
    and i: "List.find (\<lambda>i. entry_name s i = command_name bs) [0..<62] = Some i"
    and ino: "ino = inode_num (load_dentry (mem s) (dentry_addr s (of_nat i)))"
    and lo: "loader_ok lo s" and ex: "executable s ino"
    and pt: "proc_table s ch" and cs: "curr_scheduler s < 3" and room: "length (all_procs ch) < 6"
  shows "\<exists>s'. execute lo (Some c) s = Some (To_user (le_word (file_bytes s ino 24 4)), s') \<and>
    started s (command_arg bs) ino s' \<and> same_image s s' \<and>
    proc_table s' (ch(curr_scheduler s := find_pid s # ch (curr_scheduler s)))"
  by (rule execute_loads [OF assms])

lemma sample_kernel_loader: "loader_ok sample_locals sample_kernel"
proof -
  have st: "stat_inode_num sample_kernel = 1" "stat_data_block_num sample_kernel = 2"
    by (simp_all add: stat_inode_num_def stat_data_block_num_def sample_kernel_fields load32_def sample_image_def)
  have "\<not> user_window x" if "in_image sample_kernel x" for x
  proof -
    have "unat x < 16384" using that by (auto simp: in_image_def image_size_def st sample_kernel_fields unat_of_nat take_bit_nat_eq_self)
    then show ?thesis by (auto simp: user_window_def drop_bit_range)
  qed
  moreover have "kernel_buffer sample_kernel 0x7F0000" "kernel_buffer sample_kernel 0x7F0010"
  proof -
    have "disjoint_runs a 4 0 16384" "\<forall>j<4. \<not> user_window (a + of_nat j)" if "a = 0x7F0000 \<or> a = 0x7F0010" for a :: u32
    proof -
      show "disjoint_runs a 4 0 16384" using that by (intro disjoint_runs_ordered(2)) auto
      show "\<forall>j<4. \<not> user_window (a + of_nat j)"
      proof (intro allI impI)
        fix j :: nat assume "j < 4"
        then have "j = 0 \<or> j = 1 \<or> j = 2 \<or> j = 3" by arith
        then show "\<not> user_window (a + of_nat j)" using that by (auto simp: user_window_def)
      qed
    qed
    then show "kernel_buffer sample_kernel 0x7F0000" "kernel_buffer sample_kernel 0x7F0010"
      by (simp_all add: kernel_buffer_def image_size_def st sample_kernel_fields)
  qed
  ultimately show ?thesis by (simp add: loader_ok_def fs_layout_def st sample_kernel_fields sample_locals_def)
qed

lemma sample_file_byte:
  "k < 4096 \<Longrightarrow> file_byte_addr sample_kernel 0 k = 12288 + of_nat k"
  by (simp add: file_byte_addr_def inode_ptr_def sample_kernel_fields inode_data_block_def load32_def sample_image_def)

lemma sample_executable:
  "executable sample_kernel 0" "le_word (file_bytes sample_kernel 0 24 4) = 0x8048094"
proof -
  have st: "stat_inode_num sample_kernel = 1" "stat_data_block_num sample_kernel = 2" "max_blocks sample_kernel = 2"
    by (simp_all add: stat_inode_num_def stat_data_block_num_def max_blocks_def sample_kernel_fields load32_def sample_image_def)
  have len: "inode_length (mem sample_kernel) (inode_ptr sample_kernel 0) = 5000"
    by (simp add: inode_length_def inode_ptr_def sample_kernel_fields load32_def sample_image_def)
  have b: "file_bytes sample_kernel 0 0 4 = [0x7F, 0x45, 0x4C, 0x46]" "file_bytes sample_kernel 0 24 4 = [0x94, 0x80, 4, 8]"
  proof -
    have u: "[0..<4 :: nat] = [0, 1, 2, 3]" by (simp add: upt_rec)
    have "file_bytes sample_kernel 0 off 4 = map (\<lambda>i. sample_image (12288 + of_nat (off + i))) [0, 1, 2, 3]" if "off \<le> 24" for off
      using that by (simp add: file_bytes_def u sample_file_byte sample_kernel_fields)
    from this [of 0] this [of 24] show "file_bytes sample_kernel 0 0 4 = [0x7F, 0x45, 0x4C, 0x46]"
      "file_bytes sample_kernel 0 24 4 = [0x94, 0x80, 4, 8]" by (simp_all add: sample_image_def)
  qed
  have "inode_data_block (mem sample_kernel) (inode_ptr sample_kernel 0) (of_nat k) < 2" if "k < 2" for k
  proof -
    from that consider "k = 0" | "k = 1" by linarith
    then show ?thesis by cases (simp_all add: inode_data_block_def inode_ptr_def sample_kernel_fields load32_def sample_image_def)
  qed
  then show "executable sample_kernel 0" by (simp add: executable_def blocks_ok_def st len b)
  show "le_word (file_bytes sample_kernel 0 24 4) = 0x8048094" by (simp add: b le_word_def)
qed

theorem execute_loads_program_witness:
  "\<exists>s'. execute sample_locals (Some (lit ''shell'')) sample_kernel = Some (To_user 0x8048094, s') \<and>
     started sample_kernel [] 0 s' \<and> proc_table s' ((\<lambda>_. [])(0 := [0]))"
proof -
  let ?bs = "bytes_of ''shell''"
  have c: "cstr (lit ''shell'') ?bs" by (rule cstr_lit) (simp add: bytes_of_def)
  have n: "command_name ?bs = ?bs" "command_arg ?bs = []" "command_ok ?bs" "?bs \<noteq> [0x2E]"
    by (simp_all add: command_name_def command_arg_def command_ok_def bytes_of_def SPACE_def)
  have "entry_name sample_kernel 0 = ?bs"
    by (simp add: entry_name_def dentry_addr_def sample_kernel_fields load_bytes_def upt_rec sample_image_def bytes_of_def)
  then have i: "List.find (\<lambda>i. entry_name sample_kernel i = command_name ?bs) [0..<62] = Some 0"
    by (simp add: find_upt_Some n)
  have ino: "0 = inode_num (load_dentry (mem sample_kernel) (dentry_addr sample_kernel (of_nat 0)))"
    by (simp add: load_dentry_def dentry_addr_def sample_kernel_fields load32_def sample_image_def)
  have "find_pid sample_kernel = 0" by (simp add: find_pid_def sample_kernel_fields upt_rec)
  with execute_loads_program [OF c n(3) _ i ino sample_kernel_loader sample_executable(1) sample_kernel_table]
  show ?thesis by (simp add: n sample_executable(2) sample_kernel_fields all_procs_def) blast
qed

text \<open>The file system as the first shell's end and as a tick find it.\<close>

lemma shell_gone_image:
  fixes s :: "'a kernel_scheme"
  shows "same_image s (shell_gone s)" "program_file n (shell_gone s) ino = program_file n s ino"
    "no_program_file n (shell_gone s) = no_program_file n s"
proof -
  have f: "mem (shell_gone s) = mem s" "boot_block_addr (shell_gone s) = boot_block_addr s" "inode_addr (shell_gone s) = inode_addr s"
    "data_block_addr (shell_gone s) = data_block_addr s"
    by (simp_all add: shell_gone_def set_term_pcb_def)
  show "same_image s (shell_gone s)" using f by (rule mem_image_cong)
  show "program_file n (shell_gone s) ino = program_file n s ino" "no_program_file n (shell_gone s) = no_program_file n s"
    using program_file_cong [OF f(1,2)] .
qed

lemma switched_image:
  fixes s :: "'a kernel_scheme"
  shows "same_image s (sti (switched s))" "program_file n (sti (switched s)) ino = program_file n s ino"
    "no_program_file n (sti (switched s)) = no_program_file n s"
proof -
  have f: "mem (sti (switched s)) = mem s" "boot_block_addr (sti (switched s)) = boot_block_addr s"
    "inode_addr (sti (switched s)) = inode_addr s" "data_block_addr (sti (switched s)) = data_block_addr s"
    by (simp_all add: sti_def switched_def gate_keyboard_def save_context_def set_cur_pcb_def enable_irq_def disable_irq_def
        send_eoi_def cli_def outb_def Let_def)
  show "same_image s (sti (switched s))" using f by (rule mem_image_cong)
  show "program_file n (sti (switched s)) ino = program_file n s ino" "no_program_file n (sti (switched s)) = no_program_file n s"
    using program_file_cong [OF f(1,2)] .
qed

lemma same_image_entry:
  assumes "same_image s t" "loader_ok lo s" "executable s ino"
  shows "file_bytes t ino 24 4 = file_bytes s ino 24 4"
  using executable_blocks [OF assms(3)] assms by (intro same_image_file) (simp_all add: executable_def loader_ok_def)

lemma not_elf_image:
  assumes im: "same_image s t" and lo: "loader_ok lo s" and ne: "not_elf s ino"
  shows "not_elf t ino"
proof -
  have ino: "ino < stat_inode_num s" "blocks_ok s ino" "0 < max_blocks s" and lay: "fs_layout s"
    using ne lo by (simp_all add: not_elf_def loader_ok_def)
  have "file_bytes t ino 0 4 = file_bytes s ino 0 4" using ino lay by (intro same_image_file [OF im]) auto
  then show ?thesis
    using ne same_image_layout [OF im] same_image_stat [OF im] same_image_inode [OF im lay ino(1)] by (simp add: not_elf_def)
qed

text \<open>C4. \<open>halt\<close> of the first shell of a terminal starts a new shell in its place: when the file system has an
  executable file called \<open>shell\<close>, a new process enters that file's entry point, with its file in
  the program's page, alone on the terminal's stack. When no directory entry has that name, or
  its file does not start with the magic number, the terminal is left with no process and
  \<open>halt\<close> goes on through the null control-block pointer.\<close>

theorem halt_restarts_shell:
  assumes "proc_table s ch" and "curr_scheduler s < 3" and "ch (curr_scheduler s) = [p]" and "loader_ok lo s"
  shows "(\<forall>ino. program_file ''shell'' s ino \<and> executable s ino \<longrightarrow>
      (\<exists>q s'. halt lo status s = Some (Restarted (le_word (file_bytes s ino 24 4)), s') \<and> q < 6 \<and>
        proc_table s' (ch(curr_scheduler s := [q])) \<and> started (shell_gone s) [] ino s' \<and> same_image s s')) \<and>
    (no_program_file ''shell'' s \<or> (\<exists>ino. program_file ''shell'' s ino \<and> not_elf s ino) \<longrightarrow>
      (\<exists>s'. halt lo status s = Some (Null_pcb, s') \<and> proc_table s' (ch(curr_scheduler s := []))))"
proof (intro conjI allI impI)
  let ?g = "shell_gone s"
  note g = shell_gone_table [OF assms(1-3)] and im = shell_gone_image [where s = s]
  have lo: "loader_ok lo ?g" by (rule same_image_loader [OF im(1) assms(4)])
  have cs: "curr_scheduler ?g < 3" using g(2) assms(2) by simp
  note h = halt_base_eq [OF g(4,5), of lo status]
  show "\<exists>q s'. halt lo status s = Some (Restarted (le_word (file_bytes s ino 24 4)), s') \<and> q < 6 \<and>
      proc_table s' (ch(curr_scheduler s := [q])) \<and> started ?g [] ino s' \<and> same_image s s'"
    if "program_file ''shell'' s ino \<and> executable s ino" for ino
  proof -
    have "executable ?g ino" using that assms(4) by (intro same_image_executable(1) [OF im(1)]) (simp_all add: loader_ok_def)
    from execute_shell [OF _ lo this g(1) cs g(3)] that obtain s' where
      e: "execute lo (Some (lit ''shell'')) ?g = Some (To_user (le_word (file_bytes ?g ino 24 4)), s')"
      "started ?g [] ino s'" "same_image ?g s'" "proc_table s' (ch(curr_scheduler s := [find_pid ?g]))"
      unfolding im(2) by (auto simp: g(2))
    have "find_pid ?g < 6" using proc_table_less [OF e(4)] assms(2) by (auto simp: all_procs_def u8_less_3)
    moreover have "halt lo status s = Some (Restarted (le_word (file_bytes s ino 24 4)), s')"
      using h e(1) same_image_entry [OF im(1) assms(4)] that by simp
    ultimately show ?thesis using e(2,4) same_image_trans [OF im(1) e(3)] by blast
  qed
  show "\<exists>s'. halt lo status s = Some (Null_pcb, s') \<and> proc_table s' (ch(curr_scheduler s := []))"
    if "no_program_file ''shell'' s \<or> (\<exists>ino. program_file ''shell'' s ino \<and> not_elf s ino)"
  proof -
    have "no_program_file ''shell'' ?g \<or> (\<exists>ino. program_file ''shell'' ?g ino \<and> not_elf ?g ino)"
      using that not_elf_image [OF im(1) assms(4)] unfolding im(2,3) by blast
    from execute_no_shell [OF this lo] obtain s' where "halt lo status s = Some (Null_pcb, s')" unfolding h by auto
    then show ?thesis using halt_base [OF assms(1-3)] by blast
  qed
qed

lemma sample_one_image:
  "same_image sample_kernel sample_one" "program_file ''shell'' sample_one 0"
proof -
  have f: "mem sample_one = mem sample_kernel" "boot_block_addr sample_one = boot_block_addr sample_kernel"
    "inode_addr sample_one = inode_addr sample_kernel" "data_block_addr sample_one = data_block_addr sample_kernel"
    by (simp_all add: sample_one_def)
  show "same_image sample_kernel sample_one" using f by (rule mem_image_cong)
  have "entry_name sample_kernel 0 = bytes_of ''shell''"
    by (simp add: entry_name_def dentry_addr_def sample_kernel_fields load_bytes_def upt_rec sample_image_def bytes_of_def)
  then have "List.find (\<lambda>i. entry_name sample_kernel i = bytes_of ''shell'') [0..<62] = Some 0" by (simp add: find_upt_Some)
  moreover have "0 = inode_num (load_dentry (mem sample_kernel) (dentry_addr sample_kernel 0))"
    by (simp add: load_dentry_def dentry_addr_def sample_kernel_fields load32_def sample_image_def)
  ultimately have "program_file ''shell'' sample_kernel 0" by (simp add: program_file_def)
  then show "program_file ''shell'' sample_one 0" unfolding program_file_cong(1) [OF f(1,2)] .
qed

lemma sample_one_loader:
  "loader_ok sample_locals sample_one" "executable sample_one 0" "le_word (file_bytes sample_one 0 24 4) = 0x8048094"
  using same_image_loader [OF sample_one_image(1) sample_kernel_loader]
    same_image_executable(1) [OF sample_one_image(1) _ sample_executable(1)]
    same_image_entry [OF sample_one_image(1) sample_kernel_loader sample_executable(1)] sample_kernel_loader sample_executable(2)
  by (simp_all add: loader_ok_def)

theorem halt_restarts_shell_witness:
  "\<exists>q s'. halt sample_locals 0 sample_one = Some (Restarted 0x8048094, s') \<and> proc_table s' ((\<lambda>_. [])(0 := [q])) \<and>
     started (shell_gone sample_one) [] 0 s'"
proof -
  note h = halt_restarts_shell [OF sample_one_facts(1) _ _ sample_one_loader(1), of 0 0, THEN conjunct1, rule_format, of 0]
  show ?thesis using h sample_one_image(2) sample_one_loader(2,3) by (auto simp: sample_one_facts(3))
qed

text \<open>C23. A tick that comes to a terminal without a program, while fewer than six processes exist, starts a
  shell there: when the file system has an executable file called \<open>shell\<close>, a process that was
  free enters that file's entry point, with its file in its page, alone on that terminal's
  stack. When no directory entry has that name, or its file does not start with the magic
  number, no process is started and the tick ends in a null pointer.\<close>

theorem scheduler_starts_shell:
  assumes "proc_table s ch" and "curr_scheduler s < 3" and "ch (curr_scheduler s) = p # ps"
    and "ch (next_terminal (curr_scheduler s)) = []" and "length (all_procs ch) < 6" and "loader_ok lo s"
  shows "(\<forall>ino. program_file ''shell'' s ino \<and> executable s ino \<longrightarrow>
      (\<exists>q s'. scheduler lo s = Some (Started (le_word (file_bytes s ino 24 4)), s') \<and> q < 6 \<and> q \<notin> set (all_procs ch) \<and>
        proc_table s' (ch(next_terminal (curr_scheduler s) := [q])) \<and> started (sti (switched s)) [] ino s' \<and> same_image s s')) \<and>
    (no_program_file ''shell'' s \<or> (\<exists>ino. program_file ''shell'' s ino \<and> not_elf s ino) \<longrightarrow>
      (\<exists>s'. scheduler lo s = Some (Null_pointer, s') \<and> proc_table s' ch))"
proof (intro conjI allI impI)
  let ?g = "sti (switched s)" and ?n = "next_terminal (curr_scheduler s)"
  note g = scheduler_starts [OF assms(1-4)] and im = switched_image [where s = s]
  have lo: "loader_ok lo ?g" by (rule same_image_loader [OF im(1) assms(6)])
  have cs: "curr_scheduler ?g < 3" using g(3) next_terminal_range by simp
  show "\<exists>q s'. scheduler lo s = Some (Started (le_word (file_bytes s ino 24 4)), s') \<and> q < 6 \<and> q \<notin> set (all_procs ch) \<and>
      proc_table s' (ch(?n := [q])) \<and> started ?g [] ino s' \<and> same_image s s'"
    if "program_file ''shell'' s ino \<and> executable s ino" for ino
  proof -
    have "executable ?g ino" using that assms(6) by (intro same_image_executable(1) [OF im(1)]) (simp_all add: loader_ok_def)
    from execute_shell [OF _ lo this g(2) cs assms(5)] that obtain s' where
      e: "execute lo (Some (lit ''shell'')) ?g = Some (To_user (le_word (file_bytes ?g ino 24 4)), s')"
      "started ?g [] ino s'" "same_image ?g s'" "proc_table s' (ch(?n := [find_pid ?g]))"
      unfolding im(2) by (auto simp: g(3) assms(4))
    have "find_pid ?g < 6" using launch_pushes(1) [OF g(2) cs assms(5)] .
    moreover have "find_pid ?g \<notin> set (all_procs ch)"
      using launch_pushes(2) [OF g(2) cs assms(5)] .
    moreover have "scheduler lo s = Some (Started (le_word (file_bytes s ino 24 4)), s')"
      using g(1) e(1) same_image_entry [OF im(1) assms(6)] that by (simp add: start_shell_def)
    ultimately show ?thesis using e(2,4) same_image_trans [OF im(1) e(3)] by blast
  qed
  show "\<exists>s'. scheduler lo s = Some (Null_pointer, s') \<and> proc_table s' ch"
    if "no_program_file ''shell'' s \<or> (\<exists>ino. program_file ''shell'' s ino \<and> not_elf s ino)"
  proof -
    have "no_program_file ''shell'' ?g \<or> (\<exists>ino. program_file ''shell'' ?g ino \<and> not_elf ?g ino)"
      using that not_elf_image [OF im(1) assms(6)] unfolding im(2,3) by blast
    from execute_no_shell [OF this lo] obtain s' where e: "execute lo (Some (lit ''shell'')) ?g = Some (Ret FAILURE, s')" by blast
    then have "scheduler lo s = Some (Null_pointer, s')" using g(1) by (simp add: start_shell_def)
    moreover have "proc_table s' ch" using execute_stacks [OF g(2) cs disjI1 [OF assms(5)] e] by blast
    ultimately show ?thesis by blast
  qed
qed

theorem scheduler_starts_shell_witness:
  "\<exists>q s'. scheduler sample_locals sample_one = Some (Started 0x8048094, s') \<and> proc_table s' ((\<lambda>_. [])(0 := [0], 1 := [q])) \<and>
     q \<noteq> 0 \<and> started (sti (switched sample_one)) [] 0 s'"
proof -
  note f = sample_one_facts
  have n: "next_terminal (curr_scheduler sample_one) = 1" by (simp add: f(3) next_terminal_eqs)
  note h = scheduler_starts_shell [OF f(1) _ _ _ _ sample_one_loader(1), of 0 "[]", THEN conjunct1, rule_format, of 0]
  show ?thesis using h sample_one_image(2) sample_one_loader(2,3) unfolding n by (auto simp: f(3) all_procs_def)
qed

end
