(* ===== verification/User_Support.thy ===== *)
theory User_Support
  imports Command_Spec
begin

text \<open>
  The string routines the user programs are linked with, \<^verbatim>\<open>syscalls/ece391support.c\<close>; the copy
  in \<^verbatim>\<open>fish/ece391support.c\<close> has the first five of them. They are written
  differently from the routines of the kernel's \<^verbatim>\<open>lib.c\<close>, and the last section shows where the
  two agree. As there, \<^term>\<open>None\<close> is a loop that does not end.
\<close>

section \<open>The routines\<close>

partial_function (option) ece391_strlen_from :: "bytes \<Rightarrow> nat \<Rightarrow> nat option" where
  "ece391_strlen_from s len = (if s len = 0 then Some len else ece391_strlen_from s (Suc len))"

definition ece391_strlen :: "bytes \<Rightarrow> u32 option" where
  "ece391_strlen s = map_option of_nat (ece391_strlen_from s 0)"

partial_function (option) ece391_strcpy :: "mem \<Rightarrow> u32 \<Rightarrow> u32 \<Rightarrow> mem option" where
  "ece391_strcpy m dst src =
     (if m src \<noteq> 0 then ece391_strcpy (m(dst := m src)) (dst + 1) (src + 1) else Some (m(dst := 0)))"

partial_function (option) ece391_strcmp_from :: "bytes \<Rightarrow> bytes \<Rightarrow> nat \<Rightarrow> i32 option" where
  "ece391_strcmp_from s1 s2 i =
     (if s1 i = s2 i then
        (if s1 i = 0 then Some 0 else ece391_strcmp_from s1 s2 (Suc i))
      else Some (ucast (s1 i) - ucast (s2 i)))"

definition ece391_strcmp :: "bytes \<Rightarrow> bytes \<Rightarrow> i32 option" where
  "ece391_strcmp s1 s2 = ece391_strcmp_from s1 s2 0"

text \<open>The loop of \<open>ece391_strncmp\<close>, entered with a count that is not zero.\<close>

function ece391_strncmp_from :: "bytes \<Rightarrow> bytes \<Rightarrow> nat \<Rightarrow> nat \<Rightarrow> i32" where
  "ece391_strncmp_from s1 s2 n i =
     (if s1 i = s2 i then
        (if s1 i = 0 \<or> n - 1 = 0 then 0 else ece391_strncmp_from s1 s2 (n - 1) (Suc i))
      else ucast (s1 i) - ucast (s2 i))"
  by pat_completeness auto
termination
  by (relation "measure (\<lambda>(s1, s2, n, i). n)") auto

declare ece391_strncmp_from.simps [simp del]

definition ece391_strncmp :: "bytes \<Rightarrow> bytes \<Rightarrow> u32 \<Rightarrow> i32" where
  "ece391_strncmp s1 s2 n = (if n = 0 then 0 else ece391_strncmp_from s1 s2 (unat n) 0)"

text \<open>The swap loop of \<open>ece391_strrev\<close>.\<close>

function ece391_strrev_loop :: "mem \<Rightarrow> u32 \<Rightarrow> int \<Rightarrow> int \<Rightarrow> mem" where
  "ece391_strrev_loop m s beg fin =
     (if beg < fin then
        let tmp = m (s + of_int fin);
            m = m(s + of_int fin := m (s + of_int beg));
            m = m(s + of_int beg := tmp)
        in ece391_strrev_loop m s (beg + 1) (fin - 1)
      else m)"
  by pat_completeness auto
termination
  by (relation "measure (\<lambda>(m, s, beg, fin). nat (fin - beg))") auto

declare ece391_strrev_loop.simps [simp del]

definition ece391_strrev :: "mem \<Rightarrow> u32 \<Rightarrow> mem option" where
  "ece391_strrev m s =
     (case ece391_strlen (ptr m s) of
        None \<Rightarrow> None
      | Some len \<Rightarrow>
          let fin = sint (len - 1)
          in if fin \<le> 0 then Some m else Some (ece391_strrev_loop m s 0 fin))"

text \<open>
  The digit loop of \<open>ece391_itoa\<close>. \<^term>\<open>None\<close>: the division by a zero radix traps, a radix above 37
  can index past the lookup table, or the loop never ends (radix 1).
\<close>

definition ece391_lookup :: "u8 list" where
  "ece391_lookup = bytes_of ''0123456789ABCDEFGHIJKLMNOPQRSTUVWXYZ'' @ [0]"

partial_function (option) ece391_itoa_loop :: "mem \<Rightarrow> u32 \<Rightarrow> u32 \<Rightarrow> i32 \<Rightarrow> (mem \<times> u32) option" where
  "ece391_itoa_loop m newbuf newval radix =
     (if newval > 0 then
        (if radix = 0 \<or> unat (newval mod radix) \<ge> length ece391_lookup then None
         else ece391_itoa_loop (m(newbuf := ece391_lookup ! unat (newval mod radix))) (newbuf + 1) (newval div radix) radix)
      else Some (m, newbuf))"

definition ece391_itoa :: "mem \<Rightarrow> u32 \<Rightarrow> u32 \<Rightarrow> i32 \<Rightarrow> mem option" where
  "ece391_itoa m value buf radix =
     (if value = 0 then Some (m(buf := 0x30, buf + 1 := 0))
      else case ece391_itoa_loop m buf value radix of
          None \<Rightarrow> None
        | Some (m', newbuf) \<Rightarrow> ece391_strrev (m'(newbuf := 0)) buf)"

section \<open>Agreement with the kernel's library\<close>

lemma ece391_strlen_from_eq: "ece391_strlen_from s k = strlen_from s k"
proof (cases "ece391_strlen_from s k")
  case (Some n)
  have "strlen_from s k = Some n"
  proof (rule ece391_strlen_from.raw_induct [OF _ Some, where P = "\<lambda>s k n. strlen_from s k = Some n"])
    fix f and s :: bytes and k n
    assume "\<And>s k n. f s k = Some n \<Longrightarrow> strlen_from s k = Some n"
      and "(if s k = 0 then Some k else f s (Suc k)) = Some n"
    then show "strlen_from s k = Some n" by (simp add: strlen_from.simps [of s k] split: if_splits)
  qed
  with Some show ?thesis by simp
next
  case None
  have "ece391_strlen_from s k = Some n" if "strlen_from s k = Some n" for n
  proof (rule strlen_from.raw_induct [OF _ that, where P = "\<lambda>s k n. ece391_strlen_from s k = Some n"])
    fix f and s :: bytes and k n
    assume "\<And>s k n. f s k = Some n \<Longrightarrow> ece391_strlen_from s k = Some n"
      and "(if s k \<noteq> 0 then f s (Suc k) else Some k) = Some n"
    then show "ece391_strlen_from s k = Some n" by (simp add: ece391_strlen_from.simps [of s k] split: if_splits)
  qed
  with None show ?thesis by (cases "strlen_from s k") auto
qed

lemma ece391_strlen_eq: "ece391_strlen s = strlen s"
  by (simp add: ece391_strlen_def strlen_def ece391_strlen_from_eq)

text \<open>The loops, each by its own induction.\<close>

lemma ece391_strrev_loop_eq: "ece391_strrev_loop m s beg fin = strrev_loop m s beg fin"
proof (induction m s beg fin rule: ece391_strrev_loop.induct)
  case (1 m s beg fin)
  show ?case
  proof (cases "beg < fin")
    case True
    from 1 [OF this refl refl refl] show ?thesis
      unfolding ece391_strrev_loop.simps [of m s beg fin] strrev_loop.simps [of m s beg fin] Let_def
      by (simp only: True if_True)
  qed (simp add: ece391_strrev_loop.simps [of m] strrev_loop_stop)
qed

lemma ece391_strrev_eq: "ece391_strrev m s = strrev m s"
  by (cases "strlen (ptr m s)")
    (simp_all add: ece391_strrev_def strrev_def ece391_strlen_eq ece391_strrev_loop_eq Let_def strrev_loop_stop not_less)

lemma ece391_lookup_eq: "itoa_lookup i = (if i \<ge> length ece391_lookup then None else Some (ece391_lookup ! i))"
proof -
  have len: "length ece391_lookup = 37" by (simp add: ece391_lookup_def bytes_of_def)
  have nth: "i \<le> length str \<Longrightarrow> (bytes_of str @ [0]) ! i = lit str i" for str
    by (auto simp: lit_def bytes_of_def nth_append)
  have "ece391_lookup ! i = lit ''0123456789ABCDEFGHIJKLMNOPQRSTUVWXYZ'' i" if "i < 37"
    unfolding ece391_lookup_def using that by (intro nth) simp
  then show ?thesis by (simp add: itoa_lookup_def len)
qed

lemma ece391_itoa_loop_eq: "ece391_itoa_loop m nb v radix = itoa_loop m nb v radix"
proof (cases "ece391_itoa_loop m nb v radix")
  case (Some y)
  have "itoa_loop m nb v radix = Some y"
  proof (rule ece391_itoa_loop.raw_induct [OF _ Some, where P = "\<lambda>m nb v radix y. itoa_loop m nb v radix = Some y"])
    fix f and m :: mem and nb v radix :: u32 and y
    assume "\<And>m nb v radix y. f m nb v radix = Some y \<Longrightarrow> itoa_loop m nb v radix = Some y"
      and "(if v > 0 then (if radix = 0 \<or> unat (v mod radix) \<ge> length ece391_lookup then None
          else f (m(nb := ece391_lookup ! unat (v mod radix))) (nb + 1) (v div radix) radix) else Some (m, nb)) = Some y"
    then show "itoa_loop m nb v radix = Some y"
      by (simp add: itoa_loop.simps [of m nb v] ece391_lookup_eq split: if_split_asm)
  qed
  with Some show ?thesis by simp
next
  case None
  have "ece391_itoa_loop m nb v radix = Some y" if "itoa_loop m nb v radix = Some y" for y
  proof (rule itoa_loop.raw_induct [OF _ that, where P = "\<lambda>m nb v radix y. ece391_itoa_loop m nb v radix = Some y"])
    fix f and m :: mem and nb v radix :: u32 and y
    assume "\<And>m nb v radix y. f m nb v radix = Some y \<Longrightarrow> ece391_itoa_loop m nb v radix = Some y"
      and "(if v > 0 then (if radix = 0 then None else case itoa_lookup (unat (v mod radix)) of None \<Rightarrow> None
          | Some d \<Rightarrow> f (m(nb := d)) (nb + 1) (v div radix) radix) else Some (m, nb)) = Some y"
    then show "ece391_itoa_loop m nb v radix = Some y"
      by (simp add: ece391_itoa_loop.simps [of m nb v] ece391_lookup_eq split: if_split_asm)
  qed
  with None show ?thesis by (cases "itoa_loop m nb v radix") auto
qed

lemma ece391_itoa_eq: "ece391_itoa m value buf radix = itoa m value buf radix"
  by (simp add: ece391_itoa_def itoa_def ece391_strrev_eq ece391_itoa_loop_eq split: option.splits)

text \<open>C31. The string routines that the user programs are linked with are a second implementation of the kernel's, and
  compute the same: the length and the reversal of a string and the numeral of a
  number, on the same memory, and they end on the same arguments. In a radix from 2 to 36 the
  numeral is there, closed by a NUL byte, and nothing else is written.\<close>

theorem user_library_agrees:
  "ece391_strlen s = strlen s \<and> ece391_strrev m a = strrev m a \<and> ece391_itoa m value a radix = itoa m value a radix \<and>
   (2 \<le> unat radix \<and> unat radix \<le> 36 \<longrightarrow>
     (\<exists>m'. ece391_itoa m value a radix = Some m' \<and> cstr (ptr m' a) (numeral_str (unat radix) (unat value)) \<and>
       (\<forall>x. (\<forall>i \<le> length (numeral_str (unat radix) (unat value)). x \<noteq> a + of_nat i) \<longrightarrow> m' x = m x)))"
  using itoa_numeral [of radix m "value" a] by (simp add: ece391_strlen_eq ece391_strrev_eq ece391_itoa_eq)

theorem user_library_agrees_witness:
  "\<exists>m. ece391_itoa (\<lambda>_. 0) 255 0x8048100 16 = Some m \<and> itoa (\<lambda>_. 0) 255 0x8048100 16 = Some m \<and>
     cstr (ptr m 0x8048100) (bytes_of ''FF'')"
proof -
  have "digits_rev 16 255 = [15, 15]" by (simp add: digits_rev.simps)
  then have n: "numeral_str 16 255 = bytes_of ''FF''"
    by (simp add: numeral_str_def digit_char_def lit_def bytes_of_def)
  from user_library_agrees [of "\<lambda>_. 0" "\<lambda>_. 0" "0x8048100" 255 16] show ?thesis by (auto simp: n ece391_itoa_eq)
qed

section \<open>Comparison\<close>

text \<open>The byte difference both comparisons return has the sign of the unsigned comparison.\<close>

lemma byte_difference: "sint (ucast (a :: u8) - ucast (b :: u8) :: i32) = uint a - uint b"
proof -
  have "0 \<le> uint a" "uint a < 256" "0 \<le> uint b" "uint b < 256"
    using uint_bounded [of a] uint_bounded [of b] by simp_all
  then have d: "- 256 < uint a - uint b" "uint a - uint b < 256" by linarith+
  have "(ucast a - ucast b :: i32) = of_int (uint a - uint b)" by (simp add: of_int_uint)
  then show ?thesis
    using d by (simp only: signed_of_int) (auto simp: signed_take_bit_int_eq_self_iff)
qed

lemma byte_difference_0: "(ucast (a :: u8) - ucast (b :: u8) :: i32) = 0 \<longleftrightarrow> a = b"
  by (metis byte_difference diff_self signed_0 word_uint_eq_iff right_minus_eq)

lemma byte_positive: "sint (- ucast (b :: u8) :: i32) = - uint b" "(ucast (b :: u8) :: i32) = 0 \<longleftrightarrow> b = 0"
  "b \<noteq> 0 \<Longrightarrow> 0 < uint b" "sint (ucast (b :: u8) :: i32) = uint b"
  using byte_difference [of 0 b] byte_difference [of b 0] byte_difference_0 [of b 0] uint_nonnegative [of b]
  by (simp_all add: uint_0_iff order.strict_iff_order)

lemma ece391_strcmp_from_eq:
  "cstr_at s1 i a \<Longrightarrow> cstr_at s2 i b \<Longrightarrow>
     \<exists>d. ece391_strcmp_from s1 s2 i = Some d \<and> (d = 0 \<longleftrightarrow> a = b) \<and> (sint d < 0 \<longleftrightarrow> ord_class.lexordp a b)"
proof (induction a arbitrary: i b)
  case Nil
  then show ?case
    by (cases b) (auto simp: cstr_at_Nil cstr_at_Cons ece391_strcmp_from.simps [of s1 s2 i] byte_positive)
next
  case (Cons x xs)
  show ?case
  proof (cases b)
    case Nil
    then show ?thesis using Cons.prems uint_nonnegative [of x]
      by (auto simp: cstr_at_Nil cstr_at_Cons ece391_strcmp_from.simps [of s1 s2 i] byte_positive)
  next
    case b: (Cons y ys)
    show ?thesis
    proof (cases "x = y")
      case True
      then show ?thesis using Cons.prems Cons.IH [of "Suc i" ys]
        by (simp add: b cstr_at_Cons ece391_strcmp_from.simps [of s1 s2 i])
    next
      case False
      then have "uint x \<noteq> uint y" by (simp add: word_uint_eq_iff)
      then show ?thesis using Cons.prems False byte_difference_0 [of x y]
        by (auto simp: b cstr_at_Cons ece391_strcmp_from.simps [of s1 s2 i] byte_difference word_less_def)
    qed
  qed
qed

lemma ece391_strcmp_cstr:
  assumes "cstr s1 a" and "cstr s2 b"
  shows "\<exists>d. ece391_strcmp s1 s2 = Some d \<and> (d = 0 \<longleftrightarrow> a = b) \<and> (sint d < 0 \<longleftrightarrow> ord_class.lexordp a b)"
  using assms ece391_strcmp_from_eq [of s1 0 a s2 b] by (simp add: ece391_strcmp_def cstr_at_0)

end
