(* ===== verification/User_Programs.thy ===== *)
theory User_Programs
  imports User_Support "HOL-Library.Monad_Syntax"
begin

text \<open>
  The user programs of \<^verbatim>\<open>syscalls\<close>, over the machine as a program sees it: its memory, and
  the trap \<^verbatim>\<open>INT 0x80\<close>. The wrappers of \<^verbatim>\<open>ece391syscall.S\<close> load three words from the stack whatever
  the call takes; \<open>stale\<close> is what they find there beyond the arguments. \<open>literal\<close> is the
  address the linker gave a string literal, and the address of a local array is a parameter of
  the function that declares it. \<^term>\<open>None\<close> is a program that does not get that far.
\<close>

record 's platform =
  int80 :: "u32 \<Rightarrow> u32 \<Rightarrow> u32 \<Rightarrow> u32 \<Rightarrow> 's \<Rightarrow> (i32 \<times> 's) option"
  umem :: "'s \<Rightarrow> mem"
  set_umem :: "mem \<Rightarrow> 's \<Rightarrow> 's"
  literal :: "string \<Rightarrow> u32"
  stale :: u32

section \<open>The wrappers\<close>

definition ece391_halt :: "'s platform \<Rightarrow> u8 \<Rightarrow> 's \<Rightarrow> (i32 \<times> 's) option" where
  "ece391_halt pf status = int80 pf 1 (ucast status) (stale pf) (stale pf)"

definition ece391_execute :: "'s platform \<Rightarrow> u32 \<Rightarrow> 's \<Rightarrow> (i32 \<times> 's) option" where
  "ece391_execute pf command = int80 pf 2 command (stale pf) (stale pf)"

definition ece391_read :: "'s platform \<Rightarrow> i32 \<Rightarrow> u32 \<Rightarrow> i32 \<Rightarrow> 's \<Rightarrow> (i32 \<times> 's) option" where
  "ece391_read pf fd buf nbytes = int80 pf 3 fd buf nbytes"

definition ece391_write :: "'s platform \<Rightarrow> i32 \<Rightarrow> u32 \<Rightarrow> i32 \<Rightarrow> 's \<Rightarrow> (i32 \<times> 's) option" where
  "ece391_write pf fd buf nbytes = int80 pf 4 fd buf nbytes"

definition ece391_open :: "'s platform \<Rightarrow> u32 \<Rightarrow> 's \<Rightarrow> (i32 \<times> 's) option" where
  "ece391_open pf filename = int80 pf 5 filename (stale pf) (stale pf)"

definition ece391_close :: "'s platform \<Rightarrow> i32 \<Rightarrow> 's \<Rightarrow> (i32 \<times> 's) option" where
  "ece391_close pf fd = int80 pf 6 fd (stale pf) (stale pf)"

definition ece391_getargs :: "'s platform \<Rightarrow> u32 \<Rightarrow> i32 \<Rightarrow> 's \<Rightarrow> (i32 \<times> 's) option" where
  "ece391_getargs pf buf nbytes = int80 pf 7 buf nbytes (stale pf)"

definition ece391_vidmap :: "'s platform \<Rightarrow> u32 \<Rightarrow> 's \<Rightarrow> (i32 \<times> 's) option" where
  "ece391_vidmap pf screen_start = int80 pf 8 screen_start (stale pf) (stale pf)"

definition ece391_fdputs :: "'s platform \<Rightarrow> i32 \<Rightarrow> u32 \<Rightarrow> 's \<Rightarrow> 's option" where
  "ece391_fdputs pf fd str s =
     do { n \<leftarrow> ece391_strlen (ptr (umem pf s) str);
          (_, s) \<leftarrow> ece391_write pf fd str n s;
          Some s }"

text \<open>Writing one byte of the program's memory, and printing a literal.\<close>

definition poke :: "'s platform \<Rightarrow> u32 \<Rightarrow> u8 \<Rightarrow> 's \<Rightarrow> 's" where
  "poke pf a b s = set_umem pf ((umem pf s)(a := b)) s"

definition say :: "'s platform \<Rightarrow> string \<Rightarrow> 's \<Rightarrow> 's option" where
  "say pf str s = ece391_fdputs pf 1 (literal pf str) s"

abbreviation (input) line :: "string \<Rightarrow> string" where "line str \<equiv> str @ [CHR 0x0A]"

section \<open>The programs\<close>

definition testprint_main :: "'s platform \<Rightarrow> 's \<Rightarrow> (i32 \<times> 's) option" where
  "testprint_main pf s =
     do { s \<leftarrow> say pf (line ''Hello, if this ran, the program was correct. Yay!'') s;
          Some (0, s) }"

definition hello_main :: "'s platform \<Rightarrow> u32 \<Rightarrow> 's \<Rightarrow> (i32 \<times> 's) option" where
  "hello_main pf buf s =
     do { s \<leftarrow> say pf ''Hi, what's your name? '' s;
          (cnt, s) \<leftarrow> ece391_read pf 0 buf 1023 s;
          if cnt = - 1 then do { s \<leftarrow> say pf (line ''Can't read name from keyboard.'') s; Some (3, s) }
          else do {
            s \<leftarrow> say pf ''Hello, '' (poke pf (buf + cnt) 0 s);
            s \<leftarrow> ece391_fdputs pf 1 buf s;
            Some (0, s) } }"

partial_function (option) cat_loop :: "'s platform \<Rightarrow> i32 \<Rightarrow> u32 \<Rightarrow> 's \<Rightarrow> (i32 \<times> 's) option" where
  "cat_loop pf fd buf s =
     do { (cnt, s) \<leftarrow> ece391_read pf fd buf 1024 s;
          if cnt = 0 then Some (0, s)
          else if cnt = - 1 then do { s \<leftarrow> say pf (line ''file read failed'') s; Some (3, s) }
          else do {
            (r, s) \<leftarrow> ece391_write pf 1 buf cnt s;
            if r = - 1 then Some (3, s) else cat_loop pf fd buf s } }"

definition cat_main :: "'s platform \<Rightarrow> u32 \<Rightarrow> 's \<Rightarrow> (i32 \<times> 's) option" where
  "cat_main pf buf s =
     do { (r, s) \<leftarrow> ece391_getargs pf buf 1024 s;
          if r \<noteq> 0 then do { s \<leftarrow> say pf (line ''could not read arguments'') s; Some (3, s) }
          else do {
            (fd, s) \<leftarrow> ece391_open pf buf s;
            if fd = - 1 then do { s \<leftarrow> say pf (line ''file not found'') s; Some (2, s) }
            else cat_loop pf fd buf s } }"

partial_function (option) ls_loop :: "'s platform \<Rightarrow> i32 \<Rightarrow> u32 \<Rightarrow> 's \<Rightarrow> (i32 \<times> 's) option" where
  "ls_loop pf fd buf s =
     do { (cnt, s) \<leftarrow> ece391_read pf fd buf 32 s;
          if cnt = 0 then Some (0, s)
          else if cnt = - 1 then do { s \<leftarrow> say pf (line ''directory entry read failed'') s; Some (3, s) }
          else do {
            (r, s) \<leftarrow> ece391_write pf 1 buf (cnt + 1) (poke pf (buf + cnt) 0x0A s);
            if r = - 1 then Some (3, s) else ls_loop pf fd buf s } }"

definition ls_main :: "'s platform \<Rightarrow> u32 \<Rightarrow> 's \<Rightarrow> (i32 \<times> 's) option" where
  "ls_main pf buf s =
     do { (fd, s) \<leftarrow> ece391_open pf (literal pf ''.'') s;
          if fd = - 1 then do { s \<leftarrow> say pf (line ''directory open failed'') s; Some (2, s) }
          else ls_loop pf fd buf s }"

partial_function (option) shell_loop :: "'s platform \<Rightarrow> u32 \<Rightarrow> 's \<Rightarrow> (i32 \<times> 's) option" where
  "shell_loop pf buf s =
     do { s \<leftarrow> say pf ''391OS> '' s;
          (cnt, s) \<leftarrow> ece391_read pf 0 buf 1023 s;
          if cnt = - 1 then do { s \<leftarrow> say pf (line ''read from keyboard failed'') s; Some (3, s) }
          else
            let cnt = (if sint cnt > 0 \<and> umem pf s (buf + cnt - 1) = 0x0A then cnt - 1 else cnt);
                s = poke pf (buf + cnt) 0 s
            in do {
              d \<leftarrow> ece391_strcmp (ptr (umem pf s) buf) (ptr (umem pf s) (literal pf ''exit''));
              if d = 0 then Some (0, s)
              else if umem pf s buf = 0 then shell_loop pf buf s
              else do {
                (rval, s) \<leftarrow> ece391_execute pf buf s;
                s \<leftarrow> (if rval = - 1 then say pf (line ''no such command'') s
                     else if rval = 256 then say pf (line ''program terminated by exception'') s
                     else if rval \<noteq> 0 then say pf (line ''program terminated abnormally'') s
                     else Some s);
                shell_loop pf buf s } } }"

definition shell_main :: "'s platform \<Rightarrow> u32 \<Rightarrow> 's \<Rightarrow> (i32 \<times> 's) option" where
  "shell_main pf buf s =
     do { s \<leftarrow> say pf (line ''Starting 391 Shell'') s;
          shell_loop pf buf s }"

section \<open>The counter\<close>

partial_function (option) counter_loop :: "'s platform \<Rightarrow> u32 \<Rightarrow> u32 \<Rightarrow> u32 \<Rightarrow> 's \<Rightarrow> 's option" where
  "counter_loop pf buf mx i s =
     (if i < mx then
        do { m \<leftarrow> ece391_itoa (umem pf s) (i + 1) buf 10;
             s \<leftarrow> ece391_fdputs pf 1 buf (set_umem pf m s);
             s \<leftarrow> say pf (line []) s;
             counter_loop pf buf mx (i + 1) s }
      else Some s)"

definition counter_max :: "u8 \<Rightarrow> u32" where
  "counter_max c = (if c = 0x30 then 100 else if c = 0x31 then 10000 else if c = 0x32 then 100000 else 0)"

definition counter_main :: "'s platform \<Rightarrow> u32 \<Rightarrow> 's \<Rightarrow> (i32 \<times> 's) option" where
  "counter_main pf buf s =
     do { s \<leftarrow> say pf (line ''Enter the Test Number: (0): 100, (1): 10000, (2): 100000'') s;
          (cnt, s) \<leftarrow> ece391_read pf 0 buf 1023 s;
          if cnt = - 1 then do { s \<leftarrow> say pf (line ''Can't read the number from keyboard.'') s; Some (3, s) }
          else
            let s = poke pf (buf + cnt) 0 s; c = umem pf s buf
            in do {
              n \<leftarrow> ece391_strlen (ptr (umem pf s) buf);
              if n > 2 \<or> n = 2 \<and> (c < 0x30 \<or> c > 0x32)
              then do { s \<leftarrow> say pf (line ''Wrong Choice!'') s; Some (0, s) }
              else do { s \<leftarrow> counter_loop pf buf (counter_max c) 0 s; Some (0, s) } } }"

section \<open>The bouncing character\<close>

definition fill :: "u32 \<Rightarrow> u8 \<Rightarrow> nat list \<Rightarrow> mem \<Rightarrow> mem" where
  "fill buf c js m = fold (\<lambda>i m. m(buf + of_nat i := c)) js m"

text \<open>The array with its walls. \<open>ret_val\<close> and \<open>garbage\<close> are the addresses of these two locals.\<close>

definition pingpong_walls :: "u32 \<Rightarrow> mem \<Rightarrow> mem" where
  "pingpong_walls buf m = (fill buf 0x20 [0..<81] m)(buf + 80 := 0, buf + 79 := 0x0A, buf + 78 := 0x7C, buf + 1 := 0x7C)"

definition pingpong_start :: "'s platform \<Rightarrow> u32 \<Rightarrow> u32 \<Rightarrow> 's \<Rightarrow> (i32 \<times> 's) option" where
  "pingpong_start pf buf ret_val s =
     do { (rtc_fd, s) \<leftarrow> ece391_open pf (literal pf ''rtc'') (set_umem pf (pingpong_walls buf (umem pf s)) s);
          (r, s) \<leftarrow> ece391_write pf rtc_fd ret_val 4 (set_umem pf (store32 (umem pf s) ret_val 32) s);
          Some (rtc_fd, set_umem pf (store32 (umem pf s) ret_val r) s) }"

definition pingpong_picture :: "u32 \<Rightarrow> u8 \<Rightarrow> nat \<Rightarrow> mem \<Rightarrow> mem" where
  "pingpong_picture buf curchar j m = (fill buf 0x20 [2..<78] m)(buf + of_nat j := curchar)"

fun pingpong_move :: "'s platform \<Rightarrow> u32 \<Rightarrow> u32 \<Rightarrow> i32 \<Rightarrow> u8 \<Rightarrow> nat list \<Rightarrow> 's \<Rightarrow> 's option" where
  "pingpong_move pf buf garbage rtc_fd curchar [] s = Some s"
| "pingpong_move pf buf garbage rtc_fd curchar (j # js) s =
     do { s \<leftarrow> ece391_fdputs pf 1 buf (set_umem pf (pingpong_picture buf curchar j (umem pf s)) s);
          (_, s) \<leftarrow> ece391_read pf rtc_fd garbage 4 s;
          pingpong_move pf buf garbage rtc_fd curchar js s }"

text \<open>One pass of the endless loop: out, back, and the next character.\<close>

definition next_char :: "u8 \<Rightarrow> u8" where
  "next_char curchar = (if curchar = 0x5A then 0x41 else curchar + 1)"

definition pingpong_pass :: "'s platform \<Rightarrow> u32 \<Rightarrow> u32 \<Rightarrow> i32 \<Rightarrow> u8 \<times> 's \<Rightarrow> (u8 \<times> 's) option" where
  "pingpong_pass pf buf garbage rtc_fd =
     (\<lambda>(curchar, s).
        do { s \<leftarrow> pingpong_move pf buf garbage rtc_fd curchar [2..<78] s;
             s \<leftarrow> pingpong_move pf buf garbage rtc_fd curchar (rev [2..<78]) s;
             Some (next_char curchar, s) })"

text \<open>The program up to the end of its \<open>n\<close>-th pass.\<close>

fun pingpong_passes :: "nat \<Rightarrow> 's platform \<Rightarrow> u32 \<Rightarrow> u32 \<Rightarrow> i32 \<Rightarrow> u8 \<times> 's \<Rightarrow> (u8 \<times> 's) option" where
  "pingpong_passes 0 pf buf garbage rtc_fd x = Some x"
| "pingpong_passes (Suc n) pf buf garbage rtc_fd x =
     do { y \<leftarrow> pingpong_pass pf buf garbage rtc_fd x;
          pingpong_passes n pf buf garbage rtc_fd y }"

definition pingpong_main :: "nat \<Rightarrow> 's platform \<Rightarrow> u32 \<Rightarrow> u32 \<Rightarrow> u32 \<Rightarrow> 's \<Rightarrow> (u8 \<times> 's) option" where
  "pingpong_main n pf buf ret_val garbage s =
     do { (rtc_fd, s) \<leftarrow> pingpong_start pf buf ret_val s;
          pingpong_passes n pf buf garbage rtc_fd (0x41, s) }"

end
