(* ===== verification/User_Grep.thy ===== *)
theory User_Grep
  imports User_Programs
begin

text \<open>The search program \<^verbatim>\<open>syscalls/ece391grep.c\<close>: every line of every file that holds the
  searched string is printed after the name of the file.\<close>

abbreviation (input) BUFSIZE :: int where "BUFSIZE \<equiv> 1024"

function end_of_line :: "mem \<Rightarrow> u32 \<Rightarrow> int \<Rightarrow> int \<Rightarrow> int" where
  "end_of_line m data lst line_end =
     (if line_end < lst \<and> m (data + of_int line_end) \<noteq> 0x0A then end_of_line m data lst (line_end + 1) else line_end)"
  by pat_completeness auto
termination
  by (relation "measure (\<lambda>(m, data, lst, e). nat (lst - e))") auto

declare end_of_line.simps [simp del]

text \<open>The \<open>for\<close> loop over the positions of a line.\<close>

function has_match :: "mem \<Rightarrow> u32 \<Rightarrow> u32 \<Rightarrow> u32 \<Rightarrow> int \<Rightarrow> int \<Rightarrow> bool" where
  "has_match m str s_len data line_end check =
     (if check < line_end then
        if m str = m (data + of_int check) \<and> ece391_strncmp (ptr m (data + of_int check)) (ptr m str) s_len = 0 then True
        else has_match m str s_len data line_end (check + 1)
      else False)"
  by pat_completeness auto
termination
  by (relation "measure (\<lambda>(m, str, n, data, e, check). nat (e - check))") auto

declare has_match.simps [simp del]

definition print_match :: "'s platform \<Rightarrow> u32 \<Rightarrow> u32 \<Rightarrow> 's \<Rightarrow> 's option" where
  "print_match pf fname text s =
     do { s \<leftarrow> ece391_fdputs pf 1 fname s;
          s \<leftarrow> say pf '':'' s;
          s \<leftarrow> ece391_fdputs pf 1 text s;
          say pf (line []) s }"

text \<open>The loop over the lines in the buffer; the result is the new value of \<open>last\<close>.\<close>

partial_function (option) grep_lines ::
  "'s platform \<Rightarrow> u32 \<Rightarrow> u32 \<Rightarrow> u32 \<Rightarrow> u32 \<Rightarrow> i32 \<Rightarrow> int \<Rightarrow> int \<Rightarrow> 's \<Rightarrow> (int \<times> 's) option" where
  "grep_lines pf str s_len fname data cnt lst line_start s =
     (let line_end = end_of_line (umem pf s) data lst line_start
      in if umem pf s (data + of_int line_end) \<noteq> 0x0A \<and> cnt \<noteq> 0 \<and> line_start \<noteq> 0 then
           do { m \<leftarrow> ece391_strcpy ((umem pf s)(data + of_int line_end := 0)) data (data + of_int line_start);
                Some (lst - line_start, set_umem pf m s) }
         else
           let s = poke pf (data + of_int line_end) 0 s
           in do {
             s \<leftarrow> (if has_match (umem pf s) str s_len data line_end line_start
                  then print_match pf fname (data + of_int line_start) s else Some s);
             if line_end + 1 \<ge> lst then Some (0, s)
             else grep_lines pf str s_len fname data cnt lst (line_end + 1) s })"

partial_function (option) grep_file_loop ::
  "'s platform \<Rightarrow> u32 \<Rightarrow> u32 \<Rightarrow> u32 \<Rightarrow> u32 \<Rightarrow> i32 \<Rightarrow> int \<Rightarrow> 's \<Rightarrow> (i32 \<times> 's) option" where
  "grep_file_loop pf str s_len fname data fd lst s =
     do { (cnt, s) \<leftarrow> ece391_read pf fd (data + of_int lst) (of_int (BUFSIZE - lst)) s;
          if cnt = - 1 then do { s \<leftarrow> say pf (line ''file read failed'') s; Some (- 1, s) }
          else do {
            (lst, s) \<leftarrow> grep_lines pf str s_len fname data cnt (lst + sint cnt) 0 s;
            if cnt = 0 then Some (0, s) else grep_file_loop pf str s_len fname data fd lst s } }"

definition do_one_file :: "'s platform \<Rightarrow> u32 \<Rightarrow> u32 \<Rightarrow> u32 \<Rightarrow> 's \<Rightarrow> (i32 \<times> 's) option" where
  "do_one_file pf data str fname s =
     do { s_len \<leftarrow> ece391_strlen (ptr (umem pf s) str);
          (fd, s) \<leftarrow> ece391_open pf fname s;
          if fd = - 1 then do { s \<leftarrow> say pf (line ''file open failed'') s; Some (- 1, s) }
          else do {
            (r, s) \<leftarrow> grep_file_loop pf str s_len fname data fd 0 s;
            if r = - 1 then Some (- 1, s)
            else do {
              (c, s) \<leftarrow> ece391_close pf fd s;
              if c = - 1 then do { s \<leftarrow> say pf (line ''file close failed'') s; Some (- 1, s) } else Some (0, s) } } }"

partial_function (option) grep_loop :: "'s platform \<Rightarrow> u32 \<Rightarrow> i32 \<Rightarrow> u32 \<Rightarrow> u32 \<Rightarrow> 's \<Rightarrow> (i32 \<times> 's) option" where
  "grep_loop pf data fd buf search s =
     do { (cnt, s) \<leftarrow> ece391_read pf fd buf 32 s;
          if cnt = 0 then Some (0, s)
          else if cnt = - 1 then do { s \<leftarrow> say pf (line ''directory entry read failed'') s; Some (3, s) }
          else if umem pf s buf = 0x2E then grep_loop pf data fd buf search s
          else do {
            (r, s) \<leftarrow> do_one_file pf data search buf (poke pf (buf + cnt) 0 s);
            if r \<noteq> 0 then Some (3, s) else grep_loop pf data fd buf search s } }"

definition grep_main :: "'s platform \<Rightarrow> u32 \<Rightarrow> u32 \<Rightarrow> u32 \<Rightarrow> 's \<Rightarrow> (i32 \<times> 's) option" where
  "grep_main pf data buf search s =
     do { (r, s) \<leftarrow> ece391_getargs pf search 1024 s;
          if r \<noteq> 0 then do { s \<leftarrow> say pf (line ''could not read argument'') s; Some (3, s) }
          else do {
            (fd, s) \<leftarrow> ece391_open pf (literal pf ''.'') s;
            if fd = - 1 then do { s \<leftarrow> say pf (line ''directory open failed'') s; Some (2, s) }
            else grep_loop pf data fd buf search s } }"

end
