(* ===== verification/User_Syserr.thy ===== *)
theory User_Syserr
  imports User_Programs
begin

text \<open>The program \<^verbatim>\<open>syscalls/ece391syserr.c\<close>, which tests the error returns of the system calls.\<close>

abbreviation (input) BIG_NUM :: i32 where "BIG_NUM \<equiv> 1073741823"
abbreviation (input) NEG_NUM :: i32 where "NEG_NUM \<equiv> - 1073741823"

text \<open>\<open>eax\<close> holds the number; the argument registers hold whatever the caller left in them.\<close>

definition call_sys :: "'s platform \<Rightarrow> i32 \<Rightarrow> 's \<Rightarrow> (i32 \<times> 's) option" where
  "call_sys pf num = int80 pf num (stale pf) (stale pf) (stale pf)"

text \<open>A call that has to return -1, or else the test has failed; and the verdict of a test.\<close>

definition expect_error :: "'s platform \<Rightarrow> string \<Rightarrow> (i32 \<times> 's) option \<Rightarrow> i32 \<Rightarrow> (i32 \<times> 's) option" where
  "expect_error pf msg call fail =
     do { (r, s) \<leftarrow> call;
          if r \<noteq> - 1 then do { s \<leftarrow> say pf msg s; Some (2, s) } else Some (fail, s) }"

definition verdict :: "'s platform \<Rightarrow> string \<Rightarrow> i32 \<Rightarrow> 's \<Rightarrow> (i32 \<times> 's) option" where
  "verdict pf name fail s =
     do { s \<leftarrow> say pf (if fail \<noteq> 0 then line (name @ '': FAIL'') else line (name @ '': PASS'')) s;
          Some (fail, s) }"

definition err_fd :: "string \<Rightarrow> i32 \<Rightarrow> 's platform \<Rightarrow> u32 \<Rightarrow> 's \<Rightarrow> (i32 \<times> 's) option" where
  "err_fd name fd pf buf s =
     do { (fail, s) \<leftarrow> expect_error pf (line ''read fail'') (ece391_read pf fd buf 31 s) 0;
          (fail, s) \<leftarrow> expect_error pf (line ''write fail'') (ece391_write pf fd buf 31 s) fail;
          (fail, s) \<leftarrow> expect_error pf (line ''close fail'') (ece391_close pf fd s) fail;
          verdict pf name fail s }"

definition err_neg_fd :: "'s platform \<Rightarrow> u32 \<Rightarrow> 's \<Rightarrow> (i32 \<times> 's) option" where
  "err_neg_fd = err_fd ''err_neg_fd'' NEG_NUM"

definition err_big_fd :: "'s platform \<Rightarrow> u32 \<Rightarrow> 's \<Rightarrow> (i32 \<times> 's) option" where
  "err_big_fd = err_fd ''err_big_fd'' BIG_NUM"

fun open_lots :: "'s platform \<Rightarrow> nat \<Rightarrow> i32 \<Rightarrow> 's \<Rightarrow> (i32 \<times> 's) option" where
  "open_lots pf 0 cnt s = Some (cnt, s)"
| "open_lots pf (Suc n) cnt s =
     do { (r, s) \<leftarrow> ece391_open pf (literal pf ''.'') s;
          open_lots pf n (if r = - 1 then cnt + 1 else cnt) s }"

fun close_lots :: "'s platform \<Rightarrow> nat list \<Rightarrow> 's \<Rightarrow> 's option" where
  "close_lots pf [] s = Some s"
| "close_lots pf (i # js) s = do { (_, s) \<leftarrow> ece391_close pf (of_nat i) s; close_lots pf js s }"

definition err_open_lots :: "'s platform \<Rightarrow> 's \<Rightarrow> (i32 \<times> 's) option" where
  "err_open_lots pf s =
     do { (cnt, s) \<leftarrow> open_lots pf 7 0 s;
          s \<leftarrow> close_lots pf [2..<8] s;
          verdict pf ''err_open_lots'' (if cnt = 1 then 0 else 2) s }"

definition err_open :: "'s platform \<Rightarrow> 's \<Rightarrow> (i32 \<times> 's) option" where
  "err_open pf s =
     do { (fail, s) \<leftarrow> expect_error pf (line (CHR 0x27 # ''helloo'' @ [CHR 0x27] @ '' fail'')) (ece391_open pf (literal pf ''helloo'') s) 0;
          (fail, s) \<leftarrow> expect_error pf (line (CHR 0x27 # ''shel'' @ [CHR 0x27] @ '' fail'')) (ece391_open pf (literal pf ''shel'') s) fail;
          (fail, s) \<leftarrow> expect_error pf (line ''empty string fail'') (ece391_open pf (literal pf []) s) fail;
          verdict pf ''err_open'' fail s }"

fun expect_errors :: "'s platform \<Rightarrow> string \<Rightarrow> (i32 \<Rightarrow> 's \<Rightarrow> (i32 \<times> 's) option) \<Rightarrow> nat list \<Rightarrow> i32 \<Rightarrow> 's \<Rightarrow> (i32 \<times> 's) option" where
  "expect_errors pf msg call [] fail s = Some (fail, s)"
| "expect_errors pf msg call (i # js) fail s =
     do { (fail, s) \<leftarrow> expect_error pf msg (call (of_nat i) s) fail;
          expect_errors pf msg call js fail s }"

definition err_unopened :: "'s platform \<Rightarrow> u32 \<Rightarrow> 's \<Rightarrow> (i32 \<times> 's) option" where
  "err_unopened pf buf s =
     do { (fail, s) \<leftarrow> expect_errors pf (line ''close unopened or invalid fd fail'') (ece391_close pf) [0..<8] 0 s;
          (fail, s) \<leftarrow> expect_errors pf (line ''read from unopened fd fail'') (\<lambda>i. ece391_read pf i buf 31) [2..<8] fail s;
          (fail, s) \<leftarrow> expect_errors pf (line ''write to unopened fd fail'') (\<lambda>i. ece391_write pf i buf 31) [2..<8] fail s;
          verdict pf ''err_unopened'' fail s }"

definition err_vidmap :: "'s platform \<Rightarrow> 's \<Rightarrow> (i32 \<times> 's) option" where
  "err_vidmap pf s =
     do { (fail, s) \<leftarrow> expect_error pf (line ''Null pointer fail'') (ece391_vidmap pf 0 s) 0;
          (fail, s) \<leftarrow> expect_error pf (line ''Kernel pointer fail fail'') (ece391_vidmap pf 0x400000 s) fail;
          verdict pf ''err_vidmap'' fail s }"

definition err_stdin_out :: "'s platform \<Rightarrow> u32 \<Rightarrow> 's \<Rightarrow> (i32 \<times> 's) option" where
  "err_stdin_out pf buf s =
     do { (fail, s) \<leftarrow> expect_error pf (line ''write to stdin fail'') (ece391_write pf 0 buf 31 s) 0;
          (fail, s) \<leftarrow> expect_error pf (line ''read from stdout fail'') (ece391_read pf 1 buf 31 s) fail;
          verdict pf ''err_stdin_out'' fail s }"

definition err_syscall_num :: "'s platform \<Rightarrow> 's \<Rightarrow> (i32 \<times> 's) option" where
  "err_syscall_num pf s =
     do { (fail, s) \<leftarrow> expect_error pf (line ''syscall 0 fail'') (call_sys pf BIG_NUM s) 0;
          (fail, s) \<leftarrow> expect_error pf (line ''big num syscall fail'') (call_sys pf NEG_NUM s) fail;
          (fail, s) \<leftarrow> expect_error pf (line ''neg num syscall fail'') (call_sys pf 0 s) fail;
          verdict pf ''err_syscall_num'' fail s }"

text \<open>The arrays \<open>buf\<close> of the tests are one parameter each.\<close>

record syserr_frame =
  main_buf :: u32
  neg_buf :: u32
  big_buf :: u32
  unopened_buf :: u32
  std_buf :: u32

definition all_tests :: "'s platform \<Rightarrow> syserr_frame \<Rightarrow> ('s \<Rightarrow> (i32 \<times> 's) option) list" where
  "all_tests pf fr = [err_neg_fd pf (neg_buf fr), err_big_fd pf (big_buf fr), err_open_lots pf, err_open pf,
     err_unopened pf (unopened_buf fr), err_vidmap pf, err_stdin_out pf (std_buf fr), err_syscall_num pf]"

fun run_tests :: "('s \<Rightarrow> (i32 \<times> 's) option) list \<Rightarrow> i32 \<Rightarrow> 's \<Rightarrow> (i32 \<times> 's) option" where
  "run_tests [] fail s = Some (fail, s)"
| "run_tests (t # ts) fail s = do { (r, s) \<leftarrow> t s; run_tests ts (fail + r) s }"

definition syserr_main :: "'s platform \<Rightarrow> syserr_frame \<Rightarrow> 's \<Rightarrow> (i32 \<times> 's) option" where
  "syserr_main pf fr s =
     do { s \<leftarrow> say pf ''Choose from tests 1-8. 0 to run all: '' s;
          (cnt, s) \<leftarrow> ece391_read pf 0 (main_buf fr) 127 s;
          if cnt = - 1 then do { s \<leftarrow> say pf (line ''Can't read test #'') s; Some (2, s) }
          else
            let select = uint (umem pf s (main_buf fr)) - 0x30
            in if select = 0 then
                 do { (fail, s) \<leftarrow> run_tests (all_tests pf fr) 0 s;
                      s \<leftarrow> say pf (CHR 0x0A # (if fail \<noteq> 0 then line ''Overall Tests: FAIL'' else line ''Overall Tests: PASS'')) s;
                      Some (fail, s) }
               else if 1 \<le> select \<and> select \<le> 8 then (all_tests pf fr ! nat (select - 1)) s
               else do { s \<leftarrow> say pf ''Invalid test number. Choose from tests 1-8 or 0'' s; Some (0, s) } }"

end
