(* ===== verification/User_Spec.thy ===== *)
theory User_Spec
  imports User_Grep User_Syserr
begin

text \<open>
  What the user programs do, relative to what the system calls promise. The promises are
  locales over an arbitrary platform: \<open>user_io\<close> for output, \<open>file_io\<close> for files,
  \<open>dir_io\<close> for the directory and \<open>checked_io\<close> for the errors.
\<close>

section \<open>Output\<close>

definition run_of :: "(u32 \<Rightarrow> bool) \<Rightarrow> u32 \<Rightarrow> nat \<Rightarrow> bool" where
  "run_of R a n \<longleftrightarrow> a \<noteq> 0 \<and> (\<forall>i < n. R (a + of_nat i))"

lemma run_of_shorter: "run_of R a n \<Longrightarrow> k \<le> n \<Longrightarrow> run_of R a k"
  by (simp add: run_of_def)

text \<open>A count is not the error code.\<close>

lemma count_not_error: "k < 2 ^ 31 \<Longrightarrow> (of_nat k :: i32) \<noteq> - 1"
proof -
  assume "k < 2 ^ 31"
  then have "unat (of_nat k :: i32) \<noteq> 2 ^ 32 - 1" by (simp add: unat_of_nat take_bit_nat_eq_self)
  moreover have "unat (- 1 :: i32) = 2 ^ 32 - 1" by (simp add: unsigned_minus_1_eq_mask mask_eq_exp_minus_1)
  ultimately show ?thesis by metis
qed

lemma count_0: "k < 2 ^ 31 \<Longrightarrow> (of_nat k :: i32) = 0 \<longleftrightarrow> k = 0"
  using of_nat_u32_inj [of k 0] by simp

lemma sint_count: "k < 2 ^ 31 \<Longrightarrow> sint (of_nat k :: i32) = int k"
proof -
  assume "k < 2 ^ 31"
  moreover have "sint (of_int (int k) :: i32) = signed_take_bit 31 (int k)" by (simp only: signed_of_int) simp
  ultimately show ?thesis by (simp add: signed_take_bit_int_eq_self)
qed

lemma run_of_mono: "run_of R a n \<Longrightarrow> (\<And>x. R x \<Longrightarrow> Q x) \<Longrightarrow> run_of Q a n"
  by (simp add: run_of_def)

text \<open>
  A program runs on its own addresses: \<open>readable\<close> ones, which hold its literals \<open>strs\<close>, and
  among them the \<open>writable\<close> ones of its variables. \<open>out\<close> is what its output has drawn, \<open>echo\<close>
  how one character is drawn, and \<open>same_files\<close> relates states in which its files and
  arguments are the same.
\<close>

locale user_io =
  fixes pf :: "'s platform"
    and ok :: "'s \<Rightarrow> bool"
    and readable :: "u32 \<Rightarrow> bool"
    and writable :: "u32 \<Rightarrow> bool"
    and strs :: "string set"
    and out :: "'s \<Rightarrow> 't"
    and echo :: "u8 \<Rightarrow> 't \<Rightarrow> 't"
    and same_files :: "'s \<Rightarrow> 's \<Rightarrow> bool"
  assumes writable_readable: "writable x \<Longrightarrow> readable x"
    and umem_set: "umem pf (set_umem pf m s) = m"
    and set_keeps: "ok s \<Longrightarrow> (\<And>x. \<not> writable x \<Longrightarrow> m x = umem pf s x) \<Longrightarrow>
      ok (set_umem pf m s) \<and> out (set_umem pf m s) = out s \<and> same_files s (set_umem pf m s)"
    and literals: "ok s \<Longrightarrow> str \<in> strs \<Longrightarrow> run_of readable (literal pf str) (Suc (length str)) \<and>
      cstr (ptr (umem pf s) (literal pf str)) (bytes_of str) \<and> length str < 2 ^ 31"
    and write_out: "ok s \<Longrightarrow> run_of readable buf n \<Longrightarrow> n < 2 ^ 31 \<Longrightarrow>
      \<exists>s'. int80 pf 4 1 buf (of_nat n) s = Some (of_nat n, s') \<and> ok s' \<and> same_files s s' \<and>
        out s' = fold echo (load_bytes (umem pf s) buf n) (out s) \<and> (\<forall>x. readable x \<longrightarrow> umem pf s' x = umem pf s x)"
    and files_refl: "same_files s s"
    and files_trans: "same_files s t \<Longrightarrow> same_files t u \<Longrightarrow> same_files s u"
begin

text \<open>From \<open>s\<close> to \<open>s'\<close> the program has printed \<open>bs\<close> and done nothing else.\<close>

definition prints :: "'s \<Rightarrow> u8 list \<Rightarrow> 's \<Rightarrow> bool" where
  "prints s bs s' \<longleftrightarrow> ok s' \<and> same_files s s' \<and> out s' = fold echo bs (out s) \<and>
     (\<forall>x. readable x \<longrightarrow> umem pf s' x = umem pf s x)"

lemma prints_trans: "prints s a t \<Longrightarrow> prints t b u \<Longrightarrow> prints s (a @ b) u"
  by (auto simp: prints_def intro: files_trans)

lemma prints_ok: "prints s bs t \<Longrightarrow> ok t"
  by (simp add: prints_def)

lemma prints_files: "prints s bs t \<Longrightarrow> same_files s t"
  by (simp add: prints_def)

lemma prints_out: "prints s bs t \<Longrightarrow> out t = fold echo bs (out s)"
  by (simp add: prints_def)

lemma prints_nothing: "ok s \<Longrightarrow> prints s [] s"
  by (simp add: prints_def files_refl)

lemma write_prints:
  assumes "ok s" "run_of readable buf n" "n < 2 ^ 31"
  shows "\<exists>s'. ece391_write pf 1 buf (of_nat n) s = Some (of_nat n, s') \<and> prints s (load_bytes (umem pf s) buf n) s'"
  using write_out [OF assms] by (auto simp: ece391_write_def prints_def)

lemma fdputs_prints:
  assumes "ok s" "cstr (ptr (umem pf s) a) bs" "run_of readable a (length bs)" "length bs < 2 ^ 31"
  shows "\<exists>s'. ece391_fdputs pf 1 a s = Some s' \<and> prints s bs s'"
  using write_prints [OF assms(1,3,4)] assms(2)
  by (auto simp: ece391_fdputs_def ece391_strlen_eq strlen_cstr load_bytes_cstr)

lemma say_prints:
  assumes "ok s" "str \<in> strs"
  shows "\<exists>s'. say pf str s = Some s' \<and> prints s (bytes_of str) s'"
proof -
  have l: "run_of readable (literal pf str) (Suc (length str))" "cstr (ptr (umem pf s) (literal pf str)) (bytes_of str)"
    "length (bytes_of str) < 2 ^ 31" "length (bytes_of str) = length str"
    using literals [OF assms] by (simp_all add: bytes_of_def)
  then show ?thesis
    using fdputs_prints [OF assms(1) l(2) run_of_shorter [OF l(1)]] by (simp add: say_def)
qed

lemma set_writable:
  assumes "ok s" "\<And>x. \<not> writable x \<Longrightarrow> m x = umem pf s x"
  shows "ok (set_umem pf m s)" "out (set_umem pf m s) = out s" "same_files s (set_umem pf m s)"
    "umem pf (set_umem pf m s) = m"
  using set_keeps [OF assms] umem_set by simp_all

lemma poke_keeps:
  assumes "ok s" "writable a"
  shows "ok (poke pf a b s)" "out (poke pf a b s) = out s" "same_files s (poke pf a b s)"
    "umem pf (poke pf a b s) = (umem pf s)(a := b)"
proof -
  have "((umem pf s)(a := b)) x = umem pf s x" if "\<not> writable x" for x using that assms(2) by auto
  from set_writable [where m = "(umem pf s)(a := b)", OF assms(1) this] show "ok (poke pf a b s)" "out (poke pf a b s) = out s" "same_files s (poke pf a b s)"
    "umem pf (poke pf a b s) = (umem pf s)(a := b)" by (simp_all add: poke_def)
qed

lemma testprint_prints:
  assumes "ok s" "line ''Hello, if this ran, the program was correct. Yay!'' \<in> strs"
  shows "\<exists>s'. testprint_main pf s = Some (0, s') \<and> prints s (bytes_of (line ''Hello, if this ran, the program was correct. Yay!'')) s'"
  using say_prints [OF assms] by (auto simp: testprint_main_def)

end

section \<open>Counting\<close>

definition numeral_line :: "nat \<Rightarrow> u8 list" where
  "numeral_line k = numeral_str 10 k @ [0x0A]"

context user_io
begin

text \<open>The counter prints the decimal numerals from 1 up to its bound, one on each line.\<close>

lemma counter_loop_prints:
  assumes buf: "run_of writable buf 11" and nl: "line [] \<in> strs"
  shows "ok s \<Longrightarrow> i \<le> mx \<Longrightarrow> \<exists>s'. counter_loop pf buf mx i s = Some s' \<and> ok s' \<and> same_files s s' \<and>
    out s' = fold echo (concat (map numeral_line [unat i + 1..<unat mx + 1])) (out s)"
proof (induction "unat mx - unat i" arbitrary: s i)
  case 0
  then have "i = mx" by (simp add: word_le_nat_alt word_unat_eq_iff)
  then show ?case using 0 by (simp add: counter_loop.simps [of pf buf mx mx s] files_refl)
next
  case (Suc d)
  then have less: "i < mx" by (simp add: word_less_nat_alt)
  then have i1: "unat (i + 1) = unat i + 1" 
    using unsigned_less [of mx, where ?'a = nat] by (simp add: unat_word_ariths word_less_nat_alt)
  let ?cs = "numeral_str 10 (unat (i + 1))"
  have len: "length ?cs \<le> 10" by (rule numeral_str_length)
  obtain m where m: "ece391_itoa (umem pf s) (i + 1) buf 10 = Some m" "cstr (ptr m buf) ?cs"
    "\<forall>x. (\<forall>j \<le> length ?cs. x \<noteq> buf + of_nat j) \<longrightarrow> m x = umem pf s x"
    using itoa_numeral [of 10 "umem pf s" "i + 1" buf] by (auto simp: ece391_itoa_eq)
  have wr: "writable (buf + of_nat j)" if "j \<le> length ?cs" for j using that buf len by (simp add: run_of_def)
  have "m x = umem pf s x" if nw: "\<not> writable x" for x
  proof (rule m(3) [rule_format])
    fix j assume "j \<le> length ?cs"
    from wr [OF this] nw show "x \<noteq> buf + of_nat j" by auto
  qed
  note w = set_writable [OF Suc.prems(1) this]
  have "run_of readable buf (length ?cs)"
    using len by (intro run_of_shorter [OF run_of_mono [OF buf writable_readable]]) auto
  then obtain s1 where 1: "ece391_fdputs pf 1 buf (set_umem pf m s) = Some s1" "prints (set_umem pf m s) ?cs s1"
    using fdputs_prints [OF w(1), of buf "?cs"] m(2) len w(4) by auto
  obtain s2 where 2: "say pf (line []) s1 = Some s2" "prints s1 [0x0A] s2"
    using say_prints [OF prints_ok [OF 1(2)] nl] by (auto simp: bytes_of_def)
  have "unat mx - unat (i + 1) = d" "i + 1 \<le> mx" using Suc.hyps(2) less i1 by (simp_all add: word_le_nat_alt word_less_nat_alt)
  then obtain s3 where 3: "counter_loop pf buf mx (i + 1) s2 = Some s3" "ok s3" "same_files s2 s3"
    "out s3 = fold echo (concat (map numeral_line [unat (i + 1) + 1..<unat mx + 1])) (out s2)"
    using Suc.hyps(1) [of "i + 1" s2] prints_ok [OF 2(2)] by auto
  have "[unat i + 1..<unat mx + 1] = unat (i + 1) # [unat (i + 1) + 1..<unat mx + 1]"
    using upt_conv_Cons [of "unat i + 1" "unat mx + 1"] less unfolding i1 word_less_nat_alt
    by (simp only: add_less_cancel_right Suc_eq_plus1)
  note seq = this
  have "same_files s s3"
    by (rule files_trans [OF w(3) files_trans [OF prints_files [OF 1(2)] files_trans [OF prints_files [OF 2(2)] 3(3)]]])
  moreover have "counter_loop pf buf mx i s = Some s3"
    using less m(1) 1(1) 2(1) 3(1) by (simp add: counter_loop.simps [of pf buf mx i s])
  moreover have "out s3 = fold echo (concat (map numeral_line [unat i + 1..<unat mx + 1])) (out s)"
    unfolding seq using 3(4) prints_out [OF 2(2)] prints_out [OF 1(2)] w(2) by (simp add: numeral_line_def)
  ultimately show ?case using 3(2) by blast
qed

end

section \<open>Files\<close>

text \<open>What a program reads that reads \<open>n\<close> bytes in pieces of 1024.\<close>

definition rounded :: "nat \<Rightarrow> nat" where
  "rounded n = 1024 * ((n + 1023) div 1024)"

lemma rounded_0 [simp]: "rounded 0 = 0"
  by (simp add: rounded_def)

lemma rounded_step: "0 < n \<Longrightarrow> rounded n = 1024 + rounded (n - 1024)"
proof -
  assume "0 < n"
  then have "n + 1023 = (n - 1) + 1024" by simp
  then have "(n + 1023) div 1024 = Suc ((n - 1) div 1024)" by (metis div_add_self2 zero_neq_numeral Suc_eq_plus1)
  moreover have "(n - 1024 + 1023) div 1024 = (n - 1) div 1024"
    by (cases "1024 \<le> n") (use \<open>0 < n\<close> in auto)
  ultimately show ?thesis by (simp add: rounded_def)
qed

text \<open>
  \<open>file_at s fd c len cap pos\<close>: the descriptor is open on a file of \<open>len\<close> bytes whose blocks hold
  the bytes \<open>c\<close> up to \<open>cap\<close>, at position \<open>pos\<close>. The kernel's reads stop at the file's end only when
  they start there, which is what the law says. \<open>lookup s name\<close> is the file of that name, \<open>named\<close> the
  names that exist, \<open>free s\<close> whether a descriptor is free, \<open>arg s\<close>
  the program's argument.
\<close>

locale file_io = user_io +
  fixes file_at :: "'a \<Rightarrow> i32 \<Rightarrow> (nat \<Rightarrow> u8) \<Rightarrow> nat \<Rightarrow> nat \<Rightarrow> nat \<Rightarrow> bool"
    and lookup :: "'a \<Rightarrow> u8 list \<Rightarrow> ((nat \<Rightarrow> u8) \<times> nat \<times> nat) option"
    and named :: "'a \<Rightarrow> u8 list \<Rightarrow> bool"
    and free :: "'a \<Rightarrow> bool"
    and arg :: "'a \<Rightarrow> u8 list"
  assumes same_file_at: "same_files s s' \<Longrightarrow> file_at s' fd c len cap pos = file_at s fd c len cap pos"
    and same_lookup: "same_files s s' \<Longrightarrow> lookup s' nm = lookup s nm"
    and same_named: "same_files s s' \<Longrightarrow> named s' = named s"
    and same_free: "same_files s s' \<Longrightarrow> free s' = free s"
    and same_arg: "same_files s s' \<Longrightarrow> arg s' = arg s"
    and read_file: "ok s \<Longrightarrow> file_at s fd c len cap pos \<Longrightarrow> run_of writable buf n \<Longrightarrow> n < 2 ^ 31 \<Longrightarrow> pos + n \<le> cap \<or> len \<le> pos \<Longrightarrow>
      \<exists>s'. int80 pf 3 fd buf (of_nat n) s = Some (of_nat (if len \<le> pos then 0 else n), s') \<and> ok s' \<and> out s' = out s \<and>
        file_at s' fd c len cap (if len \<le> pos then pos else pos + n) \<and>
        (\<forall>x. readable x \<longrightarrow> umem pf s' x = (if len \<le> pos then umem pf s x else store_bytes (umem pf s) buf (map c [pos..<pos + n]) x))"
    and open_file: "ok s \<Longrightarrow> cstr (ptr (umem pf s) a) nm \<Longrightarrow> run_of readable a (Suc (length nm)) \<Longrightarrow>
      lookup s nm = Some (c, len, cap) \<Longrightarrow> free s \<Longrightarrow>
      \<exists>fd s'. int80 pf 5 a (stale pf) (stale pf) s = Some (fd, s') \<and> fd \<noteq> - 1 \<and> ok s' \<and> out s' = out s \<and>
        file_at s' fd c len cap 0"
    and open_missing: "ok s \<Longrightarrow> cstr (ptr (umem pf s) a) nm \<Longrightarrow> run_of readable a (Suc (length nm)) \<Longrightarrow> 
      \<not> named s nm \<Longrightarrow> \<exists>s'. int80 pf 5 a (stale pf) (stale pf) s = Some (- 1, s') \<and> prints s [] s'"
    and getargs: "ok s \<Longrightarrow> run_of writable buf n \<Longrightarrow> n < 2 ^ 31 \<Longrightarrow> arg s \<noteq> [] \<Longrightarrow> length (arg s) < n \<Longrightarrow>
      \<exists>s'. int80 pf 7 buf (of_nat n) (stale pf) s = Some (0, s') \<and> ok s' \<and> out s' = out s \<and> same_files s s' \<and>
        cstr (ptr (umem pf s') buf) (arg s)"
begin

lemma cat_loop_prints:
  assumes "run_of writable buf 1024"
  shows "ok s \<Longrightarrow> file_at s fd c len cap pos \<Longrightarrow> pos + rounded (len - pos) \<le> cap \<Longrightarrow>
    \<exists>s'. cat_loop pf fd buf s = Some (0, s') \<and> ok s' \<and> out s' = fold echo (map c [pos..<pos + rounded (len - pos)]) (out s)"
proof (induction "len - pos" arbitrary: s pos rule: less_induct)
  case less
  have cap: "pos + 1024 \<le> cap \<or> len \<le> pos"
    using less.prems(3) rounded_step [of "len - pos"] by (cases "len \<le> pos") auto
  from read_file [OF less.prems(1,2) assms _ cap] obtain s1 where
    r: "ece391_read pf fd buf 1024 s = Some (of_nat (if len \<le> pos then 0 else 1024), s1)" "ok s1" "out s1 = out s"
      "file_at s1 fd c len cap (if len \<le> pos then pos else pos + 1024)"
    and m: "\<forall>x. readable x \<longrightarrow> umem pf s1 x = (if len \<le> pos then umem pf s x else store_bytes (umem pf s) buf (map c [pos..<pos + 1024]) x)"
    by (auto simp: ece391_read_def)
  show ?case
  proof (cases "len \<le> pos")
    case True
    then show ?thesis using r by (intro exI [of _ s1]) (simp add: cat_loop.simps [of pf fd buf s])
  next
    case False
    have run: "run_of readable buf 1024" by (rule run_of_mono [OF assms writable_readable])
    have bytes: "load_bytes (umem pf s1) buf 1024 = map c [pos..<pos + 1024]"
    proof (rule nth_equalityI)
      fix i assume "i < length (load_bytes (umem pf s1) buf 1024)"
      then show "load_bytes (umem pf s1) buf 1024 ! i = map c [pos..<pos + 1024] ! i"
        using False m run store_bytes_inside [of i "map c [pos..<pos + 1024]" "umem pf s" buf] by (simp add: run_of_def)
    qed simp
    obtain s2 where w: "ece391_write pf 1 buf 1024 s1 = Some (1024, s2)" "prints s1 (map c [pos..<pos + 1024]) s2"
      using write_prints [OF r(2) run] bytes by auto
    have "file_at s2 fd c len cap (pos + 1024)"
      using w(2) r(4) False same_file_at by (auto simp: prints_def)
    moreover have less_pos: "len - (pos + 1024) < len - pos" using False by simp
    moreover have step: "rounded (len - pos) = 1024 + rounded (len - (pos + 1024))"
      using False rounded_step [of "len - pos"] by simp
    ultimately obtain s3 where l: "cat_loop pf fd buf s2 = Some (0, s3)" "ok s3"
      "out s3 = fold echo (map c [pos + 1024..<pos + 1024 + rounded (len - (pos + 1024))]) (out s2)"
      using less.hyps [of "pos + 1024" s2] less.prems(3) less_pos prints_ok [OF w(2)] by auto
    have "[pos..<pos + rounded (len - pos)] = [pos..<pos + 1024] @ [pos + 1024..<pos + 1024 + rounded (len - (pos + 1024))]"
      unfolding step using upt_add_eq_append [of pos "pos + 1024" "rounded (len - (pos + 1024))"] by (simp add: add.assoc)
    then show ?thesis using l r(1,3) w False
      by (intro exI [of _ s3]) (simp add: cat_loop.simps [of pf fd buf s] prints_def)
  qed
qed

lemma cat_prints:
  assumes s: "ok s" and buf: "run_of writable buf 1024"
    and a: "arg s \<noteq> []" "length (arg s) < 1024" and f: "lookup s (arg s) = Some (c, len, cap)" "free s" "rounded len \<le> cap"
  shows "\<exists>s'. cat_main pf buf s = Some (0, s') \<and> ok s' \<and> out s' = fold echo (map c [0..<rounded len]) (out s)"
proof -
  obtain s1 where g: "ece391_getargs pf buf 1024 s = Some (0, s1)" "ok s1" "out s1 = out s" "same_files s s1"
    "cstr (ptr (umem pf s1) buf) (arg s)"
    using getargs [OF s buf _ a] by (auto simp: ece391_getargs_def)
  have "run_of readable buf (Suc (length (arg s)))"
    using a(2) by (intro run_of_shorter [OF run_of_mono [OF buf writable_readable]]) auto
  moreover have "lookup s1 (arg s) = Some (c, len, cap)" "free s1"
    using f(1,2) same_lookup [OF g(4)] same_free [OF g(4)] by simp_all
  ultimately obtain fd s2 where o: "ece391_open pf buf s1 = Some (fd, s2)" "fd \<noteq> - 1" "ok s2" "out s2 = out s1" "file_at s2 fd c len cap 0"
    using open_file [OF g(2,5)] by (auto simp: ece391_open_def)
  show ?thesis using cat_loop_prints [OF buf o(3,5)] f(3) g o by (simp add: cat_main_def)
qed

text \<open>No file of that name: the program says so and returns 2.\<close>

lemma cat_missing:
  assumes s: "ok s" and buf: "run_of writable buf 1024" and a: "arg s \<noteq> []" "length (arg s) < 1024"
    and f: "\<not> named s (arg s)" and str: "line ''file not found'' \<in> strs"
  shows "\<exists>s'. cat_main pf buf s = Some (2, s') \<and> ok s' \<and> out s' = fold echo (bytes_of (line ''file not found'')) (out s)"
proof -
  obtain s1 where g: "ece391_getargs pf buf 1024 s = Some (0, s1)" "ok s1" "out s1 = out s" "same_files s s1"
    "cstr (ptr (umem pf s1) buf) (arg s)"
    using getargs [OF s buf _ a] by (auto simp: ece391_getargs_def)
  have "run_of readable buf (Suc (length (arg s)))"
    using a(2) by (intro run_of_shorter [OF run_of_mono [OF buf writable_readable]]) auto
  then obtain s2 where o: "ece391_open pf buf s1 = Some (- 1, s2)" "prints s1 [] s2"
    using open_missing [OF g(2,5)] f same_named [OF g(4)] by (auto simp: ece391_open_def)
  then obtain s3 where "say pf (line ''file not found'') s2 = Some s3" "prints s2 (bytes_of (line ''file not found'')) s3"
    using say_prints [OF prints_ok [OF o(2)] str] by blast
  then show ?thesis using g(1,3) o by (auto simp: cat_main_def prints_def)
qed

end

section \<open>The directory\<close>

text \<open>\<open>dir_at s fd nms\<close>: the descriptor is open on the directory, of which the names \<open>nms\<close> are still to be
  read; \<open>ready s\<close>: a listing can be opened, and it will deliver \<open>entries s\<close>.\<close>

locale dir_io = file_io +
  fixes dir_at :: "'a \<Rightarrow> i32 \<Rightarrow> u8 list list \<Rightarrow> bool"
    and ready :: "'a \<Rightarrow> bool"
    and entries :: "'a \<Rightarrow> u8 list list"
  assumes same_dir_at: "same_files s s' \<Longrightarrow> dir_at s' fd nms = dir_at s fd nms"
    and open_dir: "ok s \<Longrightarrow> ready s \<Longrightarrow> cstr (ptr (umem pf s) a) [0x2E] \<Longrightarrow> run_of readable a 2 \<Longrightarrow>
      \<exists>fd s'. int80 pf 5 a (stale pf) (stale pf) s = Some (fd, s') \<and> fd \<noteq> - 1 \<and> ok s' \<and> out s' = out s \<and>
        dir_at s' fd (entries s)"
    and read_dir: "ok s \<Longrightarrow> dir_at s fd (nm # nms) \<Longrightarrow> run_of writable buf 33 \<Longrightarrow>
      \<exists>s'. int80 pf 3 fd buf 32 s = Some (of_nat (length nm), s') \<and> ok s' \<and> out s' = out s \<and> dir_at s' fd nms \<and>
        load_bytes (umem pf s') buf (length nm) = nm \<and> length nm \<le> 32"
    and read_dir_end: "ok s \<Longrightarrow> dir_at s fd [] \<Longrightarrow> run_of writable buf 33 \<Longrightarrow>
      \<exists>s'. int80 pf 3 fd buf 32 s = Some (0, s') \<and> ok s' \<and> out s' = out s"
begin

lemma ls_loop_prints:
  assumes buf: "run_of writable buf 33"
  shows "ok s \<Longrightarrow> dir_at s fd nms \<Longrightarrow> [] \<notin> set nms \<Longrightarrow>
    \<exists>s'. ls_loop pf fd buf s = Some (0, s') \<and> ok s' \<and> out s' = fold echo (concat (map (\<lambda>nm. nm @ [0x0A]) nms)) (out s)"
proof (induction nms arbitrary: s)
  case Nil
  then obtain s1 where "ece391_read pf fd buf 32 s = Some (0, s1)" "ok s1" "out s1 = out s"
    using read_dir_end [OF Nil(1,2) buf] by (auto simp: ece391_read_def)
  then show ?case by (simp add: ls_loop.simps [of pf fd buf s])
next
  case (Cons nm nms)
  let ?n = "length nm"
  obtain s1 where r: "ece391_read pf fd buf 32 s = Some (of_nat ?n, s1)" "ok s1" "out s1 = out s" "dir_at s1 fd nms"
    and nm: "load_bytes (umem pf s1) buf ?n = nm" "?n \<le> 32" "nm \<noteq> []"
    using read_dir [OF Cons.prems(1,2) buf] Cons.prems(3) by (auto simp: ece391_read_def)
  have w: "writable (buf + of_nat ?n)" using buf nm(2) by (simp add: run_of_def)
  let ?s = "poke pf (buf + of_nat ?n) 0x0A s1"
  note p = poke_keeps [OF r(2) w, of "0x0A"]
  have "load_bytes (umem pf ?s) buf (?n + 1) = nm @ [0x0A]"
  proof (rule nth_equalityI)
    fix i assume "i < length (load_bytes (umem pf ?s) buf (?n + 1))"
    then have i: "i < ?n \<or> i = ?n" by auto
    have "umem pf s1 (buf + of_nat i) = nm ! i" if "i < ?n" using nth_load_bytes [OF that, of "umem pf s1" buf] nm(1) by simp
    then show "load_bytes (umem pf ?s) buf (?n + 1) ! i = (nm @ [0x0A]) ! i"
      using i nm(2) of_nat_u32_inj [of i ?n] by (auto simp: p(4) nth_append)
  qed (simp add: nm)
  moreover have "run_of readable buf (?n + 1)"
    using nm(2) by (intro run_of_shorter [OF run_of_mono [OF buf writable_readable]]) auto
  ultimately obtain s2 where o: "ece391_write pf 1 buf (of_nat ?n + 1) ?s = Some (of_nat ?n + 1, s2)" "prints ?s (nm @ [0x0A]) s2"
    using write_prints [OF p(1), of buf "?n + 1"] nm(2) by (auto simp: add.commute)
  have "dir_at s2 fd nms" using o(2) p(3) r(4) same_dir_at by (auto simp: prints_def)
  then obtain s3 where l: "ls_loop pf fd buf s2 = Some (0, s3)" "ok s3"
    "out s3 = fold echo (concat (map (\<lambda>nm. nm @ [0x0A]) nms)) (out s2)"
    using Cons.IH [OF prints_ok [OF o(2)]] Cons.prems(3) by auto
  have "(of_nat ?n :: i32) \<noteq> 0" "(of_nat ?n :: i32) \<noteq> - 1" "(of_nat ?n + 1 :: i32) \<noteq> - 1"
    using count_not_error [of ?n] count_not_error [of "?n + 1"] count_0 [of ?n] nm(2,3) by (simp_all add: add.commute)
  then show ?case using l r(1,3) o p(2) by (simp add: ls_loop.simps [of pf fd buf s] prints_def)
qed

lemma ls_prints:
  assumes "ok s" "ready s" "''.'' \<in> strs" "run_of writable buf 33" "[] \<notin> set (entries s)"
  shows "\<exists>s'. ls_main pf buf s = Some (0, s') \<and> ok s' \<and> out s' = fold echo (concat (map (\<lambda>nm. nm @ [0x0A]) (entries s))) (out s)"
proof -
  have "cstr (ptr (umem pf s) (literal pf ''.'')) [0x2E]" "run_of readable (literal pf ''.'') 2"
    using literals [OF assms(1,3)] by (simp_all add: bytes_of_def numeral_2_eq_2)
  then obtain fd s1 where "ece391_open pf (literal pf ''.'') s = Some (fd, s1)" "fd \<noteq> - 1" "ok s1" "out s1 = out s" "dir_at s1 fd (entries s)"
    unfolding ece391_open_def using open_dir [OF assms(1,2)] by blast
  note o = this
  from ls_loop_prints [OF assms(4) o(3,5) assms(5)] show ?thesis using o by (simp add: ls_main_def)
qed

end

section \<open>Descriptors and errors\<close>

text \<open>
  The descriptor table, \<open>fds s i\<close> telling whether descriptor \<open>i\<close> is open, and the calls
  that fail. Opening takes the lowest free descriptor from 2 to 7.
\<close>

definition closed :: "(nat \<Rightarrow> bool) \<Rightarrow> i32 \<Rightarrow> bool" where
  "closed fd_open fd \<longleftrightarrow> sint fd < 0 \<or> sint fd > 7 \<or> sint fd \<ge> 2 \<and> \<not> fd_open (unat fd)"

locale checked_io = file_io +
  fixes fds :: "'a \<Rightarrow> nat \<Rightarrow> bool"
  assumes same_fds: "same_files s s' \<Longrightarrow> fds s' = fds s"
    and bad_read: "ok s \<Longrightarrow> closed (fds s) fd \<or> fd = 1 \<Longrightarrow> run_of readable buf (unat n) \<Longrightarrow> sint n \<ge> 0 \<Longrightarrow> \<exists>s'. int80 pf 3 fd buf n s = Some (- 1, s') \<and> prints s [] s'"
    and bad_write: "ok s \<Longrightarrow> closed (fds s) fd \<or> fd = 0 \<Longrightarrow> \<exists>s'. int80 pf 4 fd buf n s = Some (- 1, s') \<and> prints s [] s'"
    and bad_close: "ok s \<Longrightarrow> closed (fds s) fd \<or> fd = 0 \<or> fd = 1 \<Longrightarrow> \<exists>s'. int80 pf 6 fd a b s = Some (- 1, s') \<and> prints s [] s'"
    and bad_vidmap: "ok s \<Longrightarrow> scr < 0x8000000 \<Longrightarrow> \<exists>s'. int80 pf 8 scr a b s = Some (- 1, s') \<and> prints s [] s'"
    and bad_number: "ok s \<Longrightarrow> num = 0 \<or> num > 10 \<Longrightarrow> \<exists>s'. int80 pf num a b c s = Some (- 1, s') \<and> prints s [] s'"
    and open_dot: "ok s \<Longrightarrow> cstr (ptr (umem pf s) a) [0x2E] \<Longrightarrow> run_of readable a 2 \<Longrightarrow> k \<in> {2..<8} \<Longrightarrow> \<not> fds s k \<Longrightarrow>
      (\<And>j. j \<in> {2..<k} \<Longrightarrow> fds s j) \<Longrightarrow>
      \<exists>s'. int80 pf 5 a (stale pf) (stale pf) s = Some (of_nat k, s') \<and> ok s' \<and> out s' = out s \<and>
        fds s' = (fds s)(k := True) \<and> named s' = named s \<and> (\<forall>x. readable x \<longrightarrow> umem pf s' x = umem pf s x)"
    and open_full: "ok s \<Longrightarrow> cstr (ptr (umem pf s) a) [0x2E] \<Longrightarrow> run_of readable a 2 \<Longrightarrow> (\<And>j. j \<in> {2..<8} \<Longrightarrow> fds s j) \<Longrightarrow>
      \<exists>s'. int80 pf 5 a (stale pf) (stale pf) s = Some (- 1, s') \<and> prints s [] s'"
    and close_open: "ok s \<Longrightarrow> k \<in> {2..<8} \<Longrightarrow> fds s k \<Longrightarrow>
      \<exists>s'. int80 pf 6 (of_nat k) a b s = Some (0, s') \<and> ok s' \<and> out s' = out s \<and>
        fds s' = (fds s)(k := False) \<and> named s' = named s \<and> (\<forall>x. readable x \<longrightarrow> umem pf s' x = umem pf s x)"
begin

text \<open>From \<open>s\<close> to \<open>s'\<close> the program has printed \<open>bs\<close>, the descriptors are \<open>f\<close>, and the directory is the same.\<close>

definition reaches :: "'a \<Rightarrow> u8 list \<Rightarrow> (nat \<Rightarrow> bool) \<Rightarrow> 'a \<Rightarrow> bool" where
  "reaches s bs f s' \<longleftrightarrow> ok s' \<and> out s' = fold echo bs (out s) \<and> fds s' = f \<and> named s' = named s \<and>
     (\<forall>x. readable x \<longrightarrow> umem pf s' x = umem pf s x)"

lemma reaches_trans: "reaches s a f t \<Longrightarrow> reaches t b g u \<Longrightarrow> reaches s (a @ b) g u"
  by (simp add: reaches_def)

lemma reaches_prints: "prints s bs t \<Longrightarrow> reaches s bs (fds s) t"
  using same_fds same_named by (auto simp: reaches_def prints_def)

lemma reaches_ok: "reaches s bs f t \<Longrightarrow> ok t \<and> fds t = f"
  by (simp add: reaches_def)

definition fails :: "('a \<Rightarrow> (i32 \<times> 'a) option) \<Rightarrow> 'a \<Rightarrow> bool" where
  "fails call s \<longleftrightarrow> (\<exists>t. call s = Some (- 1, t) \<and> prints s [] t)"

lemma expect_error_ok:
  assumes "reaches s [] f t" "fails call t"
  shows "\<exists>u. expect_error pf msg (call t) 0 = Some (0, u) \<and> reaches s [] f u"
proof -
  obtain u where u: "call t = Some (- 1, u)" "prints t [] u" using assms(2) by (auto simp: fails_def)
  have "reaches s [] (fds t) u" using reaches_trans [OF assms(1) reaches_prints [OF u(2)]] by simp
  then show ?thesis using u(1) reaches_ok [OF assms(1)] by (simp add: expect_error_def)
qed

lemma expect_errors_ok:
  "(\<And>i t. i \<in> set js \<Longrightarrow> reaches s [] f t \<Longrightarrow> fails (call (of_nat i)) t) \<Longrightarrow> reaches s [] f t \<Longrightarrow>
     \<exists>u. expect_errors pf msg call js 0 t = Some (0, u) \<and> reaches s [] f u"
proof (induction js arbitrary: t)
  case (Cons i js)
  then obtain u where "expect_error pf msg (call (of_nat i) t) 0 = Some (0, u)" "reaches s [] f u"
    using expect_error_ok [OF Cons.prems(2)] by (metis list.set_intros(1))
  with Cons show ?case by simp
qed simp

lemma verdict_pass:
  assumes "reaches s [] f t" "line (name @ '': PASS'') \<in> strs"
  shows "\<exists>u. verdict pf name 0 t = Some (0, u) \<and> reaches s (bytes_of (line (name @ '': PASS''))) f u"
proof -
  from assms(1) have t: "ok t" "fds t = f" by (simp_all add: reaches_def)
  from say_prints [OF t(1) assms(2)] obtain u where u: "say pf (line (name @ '': PASS'')) t = Some u"
    "prints t (bytes_of (line (name @ '': PASS''))) u" by blast
  then show ?thesis using reaches_trans [OF assms(1) reaches_prints [OF u(2)]] t(2) by (simp add: verdict_def)
qed

lemma reaches_refl: "ok s \<Longrightarrow> reaches s [] (fds s) s"
  by (simp add: reaches_def)

text \<open>The calls that fail, as the tests make them.\<close>

lemma fails_read: "reaches s [] f t \<Longrightarrow> closed f fd \<or> fd = 1 \<Longrightarrow> run_of readable buf 31 \<Longrightarrow> fails (ece391_read pf fd buf 31) t"
  using bad_read [of t fd buf 31] by (auto simp: fails_def ece391_read_def reaches_def)

lemma fails_write: "reaches s [] f t \<Longrightarrow> closed f fd \<or> fd = 0 \<Longrightarrow> fails (ece391_write pf fd buf n) t"
  using bad_write [of t fd buf n] by (auto simp: fails_def ece391_write_def reaches_def)

lemma fails_close: "reaches s [] f t \<Longrightarrow> closed f fd \<or> fd = 0 \<or> fd = 1 \<Longrightarrow> fails (ece391_close pf fd) t"
  using bad_close [of t fd "stale pf" "stale pf"] by (auto simp: fails_def ece391_close_def reaches_def)

lemma fails_open:
  assumes "reaches s [] f t" "str \<in> strs" "\<not> named s (bytes_of str)"
  shows "fails (ece391_open pf (literal pf str)) t"
proof -
  have t: "ok t" "\<not> named t (bytes_of str)" using assms(1,3) by (simp_all add: reaches_def)
  have "cstr (ptr (umem pf t) (literal pf str)) (bytes_of str)" "run_of readable (literal pf str) (Suc (length (bytes_of str)))"
    using literals [OF t(1) assms(2)] by (simp_all add: bytes_of_def)
  from open_missing [OF t(1) this t(2)] show ?thesis by (simp add: fails_def ece391_open_def)
qed

lemma fails_vidmap: "reaches s [] f t \<Longrightarrow> a < 0x8000000 \<Longrightarrow> fails (ece391_vidmap pf a) t"
  using bad_vidmap [of t a] by (simp add: fails_def ece391_vidmap_def reaches_def)

lemma fails_number: "reaches s [] f t \<Longrightarrow> num = 0 \<or> num > 10 \<Longrightarrow> fails (call_sys pf num) t"
  using bad_number [of t num] by (simp add: fails_def call_sys_def reaches_def)

text \<open>A test passes: it returns 0, prints its \<open>PASS\<close> line and leaves the descriptors as they were.\<close>

definition passes :: "('a \<Rightarrow> (i32 \<times> 'a) option) \<Rightarrow> u8 list \<Rightarrow> 'a \<Rightarrow> bool" where
  "passes test bs s \<longleftrightarrow> (\<exists>u. test s = Some (0, u) \<and> reaches s bs (fds s) u)"

lemma err_fd_passes:
  assumes s: "ok s" and fd: "closed (fds s) fd" and buf: "run_of readable buf 31" and str: "line (name @ '': PASS'') \<in> strs"
  shows "passes (err_fd name fd pf buf) (bytes_of (line (name @ '': PASS''))) s"
proof -
  note r0 = reaches_refl [OF s]
  obtain s1 where 1: "expect_error pf (line ''read fail'') (ece391_read pf fd buf 31 s) 0 = Some (0, s1)" "reaches s [] (fds s) s1"
    using expect_error_ok [OF r0 fails_read [OF r0]] fd buf by blast
  obtain s2 where 2: "expect_error pf (line ''write fail'') (ece391_write pf fd buf 31 s1) 0 = Some (0, s2)" "reaches s [] (fds s) s2"
    using expect_error_ok [OF 1(2) fails_write [OF 1(2)]] fd by blast
  obtain s3 where 3: "expect_error pf (line ''close fail'') (ece391_close pf fd s2) 0 = Some (0, s3)" "reaches s [] (fds s) s3"
    using expect_error_ok [OF 2(2) fails_close [OF 2(2)]] fd by blast
  from verdict_pass [OF 3(2) str] show ?thesis using 1 2 3 by (simp add: passes_def err_fd_def)
qed

lemma err_open_passes:
  assumes s: "ok s" and str: "''helloo'' \<in> strs" "''shel'' \<in> strs" "[] \<in> strs" "line (''err_open'' @ '': PASS'') \<in> strs"
    and l: "\<not> named s (bytes_of ''helloo'')" "\<not> named s (bytes_of ''shel'')" "\<not> named s []"
  shows "passes (err_open pf) (bytes_of (line (''err_open'' @ '': PASS''))) s"
proof -
  note r0 = reaches_refl [OF s]
  have f1: "fails (ece391_open pf (literal pf ''helloo'')) t" if "reaches s [] (fds s) t" for t
    by (rule fails_open [OF that str(1) l(1)])
  have f2: "fails (ece391_open pf (literal pf ''shel'')) t" if "reaches s [] (fds s) t" for t
    by (rule fails_open [OF that str(2) l(2)])
  have f3: "fails (ece391_open pf (literal pf [])) t" if "reaches s [] (fds s) t" for t
    using fails_open [OF that str(3)] l(3) by (simp add: bytes_of_def)
  obtain s1 where 1: "expect_error pf (line (CHR 0x27 # ''helloo'' @ [CHR 0x27] @ '' fail'')) (ece391_open pf (literal pf ''helloo'') s) 0 = Some (0, s1)"
      "reaches s [] (fds s) s1" using expect_error_ok [OF r0 f1 [OF r0]] by blast
  obtain s2 where 2: "expect_error pf (line (CHR 0x27 # ''shel'' @ [CHR 0x27] @ '' fail'')) (ece391_open pf (literal pf ''shel'') s1) 0 = Some (0, s2)"
      "reaches s [] (fds s) s2" using expect_error_ok [OF 1(2) f2 [OF 1(2)]] by blast
  obtain s3 where 3: "expect_error pf (line ''empty string fail'') (ece391_open pf (literal pf []) s2) 0 = Some (0, s3)" "reaches s [] (fds s) s3"
    using expect_error_ok [OF 2(2) f3 [OF 2(2)]] by blast
  from verdict_pass [OF 3(2) str(4)] show ?thesis using 1(1) 2(1) 3(1) by (simp add: passes_def err_open_def)
qed

lemma err_unopened_passes:
  assumes s: "ok s" and none: "\<And>i. i \<in> {2..<8} \<Longrightarrow> \<not> fds s i" and buf: "run_of readable buf 31"
    and str: "line (''err_unopened'' @ '': PASS'') \<in> strs"
  shows "passes (err_unopened pf buf) (bytes_of (line (''err_unopened'' @ '': PASS''))) s"
proof -
  note r0 = reaches_refl [OF s]
  have c: "closed (fds s) (of_nat i)" if "i \<in> {2..<8}" for i
    using none [OF that] that by (auto simp: closed_def sint_count unat_of_nat take_bit_nat_eq_self)
  have c': "closed (fds s) (of_nat i) \<or> (of_nat i :: i32) = 0 \<or> (of_nat i :: i32) = 1" if "i \<in> {0..<8}" for i
    using c [of i] that by (cases "2 \<le> i") (auto simp: not_le numeral_2_eq_2 less_Suc_eq)
  have f1: "fails (ece391_close pf (of_nat i)) t" if "i \<in> set [0..<8]" "reaches s [] (fds s) t" for i t
    using fails_close [OF that(2) c'] that(1) unfolding set_upt by blast
  have f2: "fails (ece391_read pf (of_nat i) buf 31) t" "fails (ece391_write pf (of_nat i) buf 31) t"
    if "i \<in> set [2..<8]" "reaches s [] (fds s) t" for i t
    using fails_read [OF that(2) _ buf] fails_write [OF that(2)] c that(1) unfolding set_upt by blast+
  obtain s1 where 1: "expect_errors pf (line ''close unopened or invalid fd fail'') (ece391_close pf) [0..<8] 0 s = Some (0, s1)" "reaches s [] (fds s) s1"
    using expect_errors_ok [where call = "ece391_close pf", OF f1 r0] by blast
  obtain s2 where 2: "expect_errors pf (line ''read from unopened fd fail'') (\<lambda>i. ece391_read pf i buf 31) [2..<8] 0 s1 = Some (0, s2)" "reaches s [] (fds s) s2"
    using expect_errors_ok [where call = "\<lambda>i. ece391_read pf i buf 31", OF f2(1) 1(2)] by blast
  obtain s3 where 3: "expect_errors pf (line ''write to unopened fd fail'') (\<lambda>i. ece391_write pf i buf 31) [2..<8] 0 s2 = Some (0, s3)" "reaches s [] (fds s) s3"
    using expect_errors_ok [where call = "\<lambda>i. ece391_write pf i buf 31", OF f2(2) 2(2)] by blast
  from verdict_pass [OF 3(2) str] show ?thesis using 1(1) 2(1) 3(1) by (simp add: passes_def err_unopened_def del: expect_errors.simps)
qed

lemma err_vidmap_passes:
  assumes s: "ok s" and str: "line (''err_vidmap'' @ '': PASS'') \<in> strs"
  shows "passes (err_vidmap pf) (bytes_of (line (''err_vidmap'' @ '': PASS''))) s"
proof -
  note r0 = reaches_refl [OF s]
  obtain s1 where 1: "expect_error pf (line ''Null pointer fail'') (ece391_vidmap pf 0 s) 0 = Some (0, s1)" "reaches s [] (fds s) s1"
    using expect_error_ok [OF r0 fails_vidmap [OF r0, of 0]] by auto
  obtain s2 where 2: "expect_error pf (line ''Kernel pointer fail fail'') (ece391_vidmap pf 0x400000 s1) 0 = Some (0, s2)" "reaches s [] (fds s) s2"
    using expect_error_ok [OF 1(2) fails_vidmap [OF 1(2), of "0x400000"]] by auto
  from verdict_pass [OF 2(2) str] show ?thesis using 1(1) 2(1) by (simp add: passes_def err_vidmap_def)
qed

lemma err_stdin_out_passes:
  assumes s: "ok s" and buf: "run_of readable buf 31" and str: "line (''err_stdin_out'' @ '': PASS'') \<in> strs"
  shows "passes (err_stdin_out pf buf) (bytes_of (line (''err_stdin_out'' @ '': PASS''))) s"
proof -
  note r0 = reaches_refl [OF s]
  obtain s1 where 1: "expect_error pf (line ''write to stdin fail'') (ece391_write pf 0 buf 31 s) 0 = Some (0, s1)" "reaches s [] (fds s) s1"
    using expect_error_ok [OF r0 fails_write [OF r0]] by blast
  obtain s2 where 2: "expect_error pf (line ''read from stdout fail'') (ece391_read pf 1 buf 31 s1) 0 = Some (0, s2)" "reaches s [] (fds s) s2"
    using expect_error_ok [OF 1(2) fails_read [OF 1(2), of 1 buf]] buf by auto
  from verdict_pass [OF 2(2) str] show ?thesis using 1(1) 2(1) by (simp add: passes_def err_stdin_out_def)
qed

lemma err_syscall_num_passes:
  assumes s: "ok s" and str: "line (''err_syscall_num'' @ '': PASS'') \<in> strs"
  shows "passes (err_syscall_num pf) (bytes_of (line (''err_syscall_num'' @ '': PASS''))) s"
proof -
  note r0 = reaches_refl [OF s]
  obtain s1 where 1: "expect_error pf (line ''syscall 0 fail'') (call_sys pf BIG_NUM s) 0 = Some (0, s1)" "reaches s [] (fds s) s1"
    using expect_error_ok [OF r0 fails_number [OF r0, of BIG_NUM]] by auto
  obtain s2 where 2: "expect_error pf (line ''big num syscall fail'') (call_sys pf NEG_NUM s1) 0 = Some (0, s2)" "reaches s [] (fds s) s2"
    using expect_error_ok [OF 1(2) fails_number [OF 1(2), of NEG_NUM]] by auto
  obtain s3 where 3: "expect_error pf (line ''neg num syscall fail'') (call_sys pf 0 s2) 0 = Some (0, s3)" "reaches s [] (fds s) s3"
    using expect_error_ok [OF 2(2) fails_number [OF 2(2), of 0]] by auto
  from verdict_pass [OF 3(2) str] show ?thesis using 1(1) 2(1) 3(1) by (simp add: passes_def err_syscall_num_def)
qed

text \<open>Six opens succeed, the seventh fails, and closing leaves the table as it was.\<close>

lemma open_dot_literal:
  assumes "reaches s [] f t" "''.'' \<in> strs"
  shows "cstr (ptr (umem pf t) (literal pf ''.'')) [0x2E]" "run_of readable (literal pf ''.'') 2" "ok t" "fds t = f"
  using literals [of t "''.''"] assms reaches_ok [OF assms(1)] by (simp_all add: bytes_of_def numeral_2_eq_2)

lemma open_lots_result:
  assumes str: "''.'' \<in> strs" and none: "\<And>i. i \<in> {2..<8} \<Longrightarrow> \<not> f i"
  shows "k + n = 6 \<Longrightarrow> reaches s [] (\<lambda>j. j \<in> {2..<2 + k} \<or> f j) t \<Longrightarrow>
    \<exists>u. open_lots pf (Suc n) cnt t = Some (cnt + 1, u) \<and> reaches s [] (\<lambda>j. j \<in> {2..<8} \<or> f j) u"
proof (induction n arbitrary: k t)
  case 0
  note l = open_dot_literal [OF 0(2) str]
  have "fds t j" if "j \<in> {2..<8}" for j using that 0(1) by (simp add: l(4))
  from open_full [OF l(3,1,2) this] obtain u where "ece391_open pf (literal pf ''.'') t = Some (- 1, u)" "prints t [] u"
    by (auto simp: ece391_open_def)
  moreover from this have "reaches s [] (fds t) u" using reaches_trans [OF 0(2) reaches_prints] by fastforce
  ultimately show ?case using 0(1) by (simp add: l(4))
next
  case (Suc n)
  note l = open_dot_literal [OF Suc.prems(2) str]
  have k: "2 + k \<in> {2..<8}" using Suc.prems(1) by simp
  have free: "\<not> fds t (2 + k)" and below: "\<And>j. j \<in> {2..<2 + k} \<Longrightarrow> fds t j" using none [OF k] by (simp_all add: l(4))
  from open_dot [OF l(3,1,2) k free below] obtain u where u: "ece391_open pf (literal pf ''.'') t = Some (of_nat (2 + k), u)"
    "reaches t [] ((fds t)(2 + k := True)) u" by (auto simp: ece391_open_def reaches_def)
  have "(fds t)(2 + k := True) = (\<lambda>j. j \<in> {2..<2 + Suc k} \<or> f j)" by (auto simp: l(4) fun_eq_iff)
  then have "reaches s [] (\<lambda>j. j \<in> {2..<2 + Suc k} \<or> f j) u" using reaches_trans [OF Suc.prems(2) u(2)] by simp
  moreover have "(of_nat (2 + k) :: i32) \<noteq> - 1" using Suc.prems(1) by (intro count_not_error) simp
  ultimately show ?case using Suc.IH [of "Suc k" u] Suc.prems(1) u(1) by simp
qed

lemma close_lots_result:
  "distinct js \<Longrightarrow> (\<And>j. j \<in> set js \<Longrightarrow> j \<in> {2..<8} \<and> f j) \<Longrightarrow> reaches s [] f t \<Longrightarrow>
     \<exists>u. close_lots pf js t = Some u \<and> reaches s [] (\<lambda>j. j \<notin> set js \<and> f j) u"
proof (induction js arbitrary: f t)
  case (Cons k js)
  have "ok t" "k \<in> {2..<8}" "fds t k" using Cons.prems(2) [of k] reaches_ok [OF Cons.prems(3)] by simp_all
  from close_open [OF this, of "stale pf" "stale pf"] obtain u where u: "ece391_close pf (of_nat k) t = Some (0, u)" "reaches t [] ((fds t)(k := False)) u"
    by (auto simp: ece391_close_def reaches_def)
  have r: "reaches s [] (f(k := False)) u" using reaches_trans [OF Cons.prems(3) u(2)] reaches_ok [OF Cons.prems(3)] by simp
  have pre: "j \<in> {2..<8} \<and> (f(k := False)) j" if "j \<in> set js" for j using that Cons.prems(1,2) by auto
  have "distinct js" using Cons.prems(1) by simp
  then obtain v where
    "close_lots pf js u = Some v" "reaches s [] (\<lambda>j. j \<notin> set js \<and> (f(k := False)) j) v"
    using Cons.IH [OF _ pre r] by blast
  moreover have "(\<lambda>j. j \<notin> set js \<and> (f(k := False)) j) = (\<lambda>j. j \<notin> set (k # js) \<and> f j)" by (auto simp: fun_eq_iff)
  ultimately show ?case using u(1) by simp
qed simp

lemma err_open_lots_passes:
  assumes s: "ok s" and none: "\<And>i. i \<in> {2..<8} \<Longrightarrow> \<not> fds s i"
    and str: "''.'' \<in> strs" "line (''err_open_lots'' @ '': PASS'') \<in> strs"
  shows "passes (err_open_lots pf) (bytes_of (line (''err_open_lots'' @ '': PASS''))) s"
proof -
  have "reaches s [] (\<lambda>j. j \<in> {2..<2 + 0} \<or> fds s j) s" using reaches_refl [OF s] by simp
  from open_lots_result [OF str(1) none _ this, where n = 6 and cnt = 0] obtain s1 where
    1: "open_lots pf 7 0 s = Some (1, s1)" "reaches s [] (\<lambda>j. j \<in> {2..<8} \<or> fds s j) s1" by auto
  have all: "j \<in> {2..<8} \<and> (j \<in> {2..<8} \<or> fds s j)" if "j \<in> set [2..<8]" for j using that unfolding set_upt by blast
  obtain s2 where 2: "close_lots pf [2..<8] s1 = Some s2" "reaches s [] (\<lambda>j. j \<notin> set [2..<8] \<and> (j \<in> {2..<8} \<or> fds s j)) s2"
    using close_lots_result [OF distinct_upt all 1(2)] by blast
  have "(\<lambda>j. j \<notin> set [2..<8] \<and> (j \<in> {2..<8} \<or> fds s j)) = fds s" using none by (auto simp: fun_eq_iff)
  then have "reaches s [] (fds s) s2" using 2(2) by simp
  from verdict_pass [OF this str(2)] show ?thesis using 1(1) 2(1) by (simp add: passes_def err_open_lots_def del: open_lots.simps close_lots.simps)
qed

lemma run_tests_pass:
  "(\<And>t. ok t \<Longrightarrow> fds t = f \<Longrightarrow> named t = l \<Longrightarrow> list_all2 (\<lambda>test bs. passes test bs t) ts bss) \<Longrightarrow>
     ok s \<Longrightarrow> fds s = f \<Longrightarrow> named s = l \<Longrightarrow>
     \<exists>u. run_tests ts 0 s = Some (0, u) \<and> reaches s (concat bss) f u"
proof (induction ts arbitrary: bss s)
  case Nil
  then have "bss = []" by fastforce
  then show ?case using reaches_refl [OF Nil(2)] Nil(3) by simp
next
  case (Cons test ts)
  obtain bs bs' where bss: "bss = bs # bs'" "passes test bs s"
    using Cons.prems(1) [OF Cons.prems(2-4)] by (auto simp: list_all2_Cons1)
  obtain t where t: "test s = Some (0, t)" "reaches s bs f t" using bss(2) Cons.prems(3) by (auto simp: passes_def)
  have "ok t" "fds t = f" "named t = l" using t(2) Cons.prems(4) by (simp_all add: reaches_def)
  moreover have "list_all2 (\<lambda>test bs. passes test bs v) ts bs'" if "ok v" "fds v = f" "named v = l" for v
    using Cons.prems(1) [OF that] by (simp add: bss(1))
  ultimately obtain u where "run_tests ts 0 t = Some (0, u)" "reaches t (concat bs') f u"
    using Cons.IH [of bs' t] by blast
  then show ?case using t reaches_trans [OF t(2)] by (auto simp: bss(1))
qed

end

text \<open>The literals on the way of a passing run.\<close>

definition test_names :: "string list" where
  "test_names = [''err_neg_fd'', ''err_big_fd'', ''err_open_lots'', ''err_open'', ''err_unopened'', ''err_vidmap'', ''err_stdin_out'',
     ''err_syscall_num'']"

definition pass_lines :: "string list" where
  "pass_lines = map (\<lambda>name. line (name @ '': PASS'')) test_names"

definition syserr_strs :: "string set" where
  "syserr_strs = set pass_lines \<union> {''.'', ''helloo'', ''shel'', []}"

context checked_io
begin

lemma all_tests_pass:
  assumes s: "ok s" and none: "\<And>i. i \<in> {2..<8} \<Longrightarrow> \<not> fds s i" and strs: "syserr_strs \<subseteq> strs"
    and l: "\<not> named s (bytes_of ''helloo'')" "\<not> named s (bytes_of ''shel'')" "\<not> named s []"
    and buf: "run_of readable (neg_buf fr) 31" "run_of readable (big_buf fr) 31" "run_of readable (unopened_buf fr) 31"
      "run_of readable (std_buf fr) 31"
  shows "\<exists>u. run_tests (all_tests pf fr) 0 s = Some (0, u) \<and> reaches s (concat (map bytes_of pass_lines)) (fds s) u"
proof (rule run_tests_pass [OF _ s refl refl])
  fix t assume t: "ok t" "fds t = fds s" "named t = named s"
  have str: "line (name @ '': PASS'') \<in> strs" if "name \<in> set test_names" for name
    using that strs by (auto simp: syserr_strs_def pass_lines_def)
  have n: "\<And>i. i \<in> {2..<8} \<Longrightarrow> \<not> fds t i" using none by (simp add: t(2))
  have c: "closed (fds t) NEG_NUM" "closed (fds t) BIG_NUM" by (simp_all add: closed_def)
  have dot: "''.'' \<in> strs" "''helloo'' \<in> strs" "''shel'' \<in> strs" "[] \<in> strs" using strs by (simp_all add: syserr_strs_def)
  note pass = err_fd_passes [OF t(1) c(1) buf(1) str] err_fd_passes [OF t(1) c(2) buf(2) str]
    err_open_lots_passes [OF t(1) n dot(1) str] err_open_passes [OF t(1) dot(2-4) str l [folded t(3)]]
    err_unopened_passes [OF t(1) n buf(3) str] err_vidmap_passes [OF t(1) str] err_stdin_out_passes [OF t(1) buf(4) str]
    err_syscall_num_passes [OF t(1) str]
  show "list_all2 (\<lambda>test bs. passes test bs t) (all_tests pf fr) (map bytes_of pass_lines)"
    unfolding all_tests_def pass_lines_def test_names_def list.map err_neg_fd_def err_big_fd_def
    by (intro list.rel_intros pass) (simp_all add: test_names_def)
qed

end

end
