(* ===== verification/User_Kernel.thy ===== *)
theory User_Kernel
  imports Load_Spec User_Spec
begin

text \<open>
  The user programs on the kernel. The trap of a program is the kernel's own system call
  linkage, and the kernel keeps every promise the programs rely on: the locales of
  \<open>User_Spec\<close> are interpreted on it. The properties at the end follow a program from its
  first instruction through the calls to what stands on the screen.
\<close>

section \<open>The kernel as a platform\<close>

text \<open>
  The state of a program is the kernel's and the interrupts still to arrive. A call that
  returns gives its result; \<open>child\<close> is what runs between the entry of a program that
  \<open>execute\<close> starts and the return of that \<open>execute\<close>. No other outcome comes returned.
\<close>

definition kernel_trap ::
  "locals \<Rightarrow> ('e \<Rightarrow> 'a kernel_scheme \<Rightarrow> 'a kernel_scheme) \<Rightarrow>
     (u32 \<Rightarrow> 'a kernel_scheme \<times> 'e list \<Rightarrow> (i32 \<times> ('a kernel_scheme \<times> 'e list)) option) \<Rightarrow>
     u32 \<Rightarrow> u32 \<Rightarrow> u32 \<Rightarrow> u32 \<Rightarrow> 'a kernel_scheme \<times> 'e list \<Rightarrow> (i32 \<times> ('a kernel_scheme \<times> 'e list)) option" where
  "kernel_trap lo isr child eax ebx ecx edx =
     (\<lambda>(s, es).
        case system_call_asm lo isr es eax ebx ecx edx s of
          Some (Return r, s', es') \<Rightarrow> Some (r, (s', es'))
        | Some (Enter e, s', es') \<Rightarrow> if eax = 2 then child e (s', es') else None
        | _ \<Rightarrow> None)"

definition kernel_platform ::
  "locals \<Rightarrow> ('e \<Rightarrow> 'a kernel_scheme \<Rightarrow> 'a kernel_scheme) \<Rightarrow>
     (u32 \<Rightarrow> 'a kernel_scheme \<times> 'e list \<Rightarrow> (i32 \<times> ('a kernel_scheme \<times> 'e list)) option) \<Rightarrow>
     (string \<Rightarrow> u32) \<Rightarrow> u32 \<Rightarrow> ('a kernel_scheme \<times> 'e list) platform" where
  "kernel_platform lo isr child lits junk =
     \<lparr>int80 = kernel_trap lo isr child, umem = \<lambda>(s, es). mem s, set_umem = \<lambda>m (s, es). (s\<lparr>mem := m\<rparr>, es),
      literal = lits, stale = junk\<rparr>"

lemma kernel_platform_simps [simp]:
  "umem (kernel_platform lo isr child lits junk) (s, es) = mem s"
  "set_umem (kernel_platform lo isr child lits junk) m (s, es) = (s\<lparr>mem := m\<rparr>, es)"
  "literal (kernel_platform lo isr child lits junk) = lits"
  "int80 (kernel_platform lo isr child lits junk) = kernel_trap lo isr child"
  by (simp_all add: kernel_platform_def)

text \<open>A call that returns, with the flags its caller had.\<close>

definition returned :: "'a kernel_scheme \<Rightarrow> i32 \<times> 'a kernel_scheme \<times> 'e list \<Rightarrow> i32 \<times> ('a kernel_scheme \<times> 'e list)" where
  "returned s = (\<lambda>(r, s', es'). (r, (s'\<lparr>if_flag := if_flag s\<rparr>, es')))"

lemma kernel_trap_calls:
  "kernel_trap lo isr child 3 fd buf n (s, es) = map_option (returned s) (sys_read isr es fd buf n s)"
  "kernel_trap lo isr child 4 fd buf n (s, es) = map_option (\<lambda>(r, s'). returned s (r, s', es)) (sys_write fd buf n s)"
  "kernel_trap lo isr child 5 a b c (s, es) = map_option (\<lambda>(r, s'). returned s (r, s', es)) (sys_open a s)"
  "kernel_trap lo isr child 6 fd b c (s, es) = map_option (\<lambda>(r, s'). returned s (r, s', es)) (sys_close fd s)"
  "kernel_trap lo isr child 7 buf n c (s, es) = map_option (\<lambda>(r, s'). returned s (r, s', es)) (getargs buf n s)"
  "kernel_trap lo isr child 8 a b c (s, es) = Some (case vidmap a s of (r, s') \<Rightarrow> returned s (r, s', es))"
  by (auto simp: kernel_trap_def system_call_asm_def jmp_table_def Let_def returned_def
      split: option.splits prod.splits call_result.splits)

lemma kernel_trap_number:
  "num = 0 \<or> num > 10 \<Longrightarrow> kernel_trap lo isr child num a b c (s, es) = Some (- 1, (s, es))"
  by (auto simp: kernel_trap_def system_call_asm_def)

section \<open>The states the programs run in\<close>

definition text_page :: "u32 \<Rightarrow> bool" where
  "text_page x \<longleftrightarrow> (\<exists>b \<in> set [0xB8000, 0xB9000, 0xBA000, 0xBB000]. in_page b x)"

definition image_ok :: "'a filesys_scheme \<Rightarrow> bool" where
  "image_ok s \<longleftrightarrow> fs_layout s \<and> (\<forall>x. in_image s x \<longrightarrow> \<not> user_window x \<and> \<not> text_page x) \<and>
     file_type (load_dentry (mem s) (dir_dentry_addr s)) = 1 \<and>
     1 \<le> sint (stat_dir_entry_num s) \<and> sint (stat_dir_entry_num s) \<le> 63"

definition calls_ok :: "'a kernel_scheme \<Rightarrow> bool" where
  "calls_ok s \<longleftrightarrow>
     dir_fops s = \<lparr>fops_open = Dir_open, fops_close = Dir_close, fops_read = Dir_read, fops_write = Dir_write\<rparr> \<and>
     file_fops s = \<lparr>fops_open = File_open, fops_close = File_close, fops_read = File_read, fops_write = File_write\<rparr> \<and>
     fops_write (pointer (fd_entry 0 s)) = Invalid_write_op \<and>
     flags (fd_entry 1 s) \<noteq> 0 \<and> fops_write (pointer (fd_entry 1 s)) = Terminal_write \<and>
     fops_read (pointer (fd_entry 1 s)) = Invalid_read_op \<and>
     (\<forall>k \<in> {2..<8}. flags (fd_entry k s) \<noteq> 0 \<longrightarrow> fops_close (pointer (fd_entry k s)) \<noteq> Close_null)"

definition literal_ok :: "(u32 \<Rightarrow> bool) \<Rightarrow> (string \<Rightarrow> u32) \<Rightarrow> mem \<Rightarrow> string \<Rightarrow> bool" where
  "literal_ok W lits m str \<longleftrightarrow> lits str \<noteq> 0 \<and> length str < 2 ^ 31 \<and> cstr (ptr m (lits str)) (bytes_of str) \<and>
     (\<forall>i \<le> length str. user_window (lits str + of_nat i) \<and> \<not> W (lits str + of_nat i))"

text \<open>\<open>W\<close> holds of the addresses of the program's variables, \<open>L\<close> are its literals.\<close>

definition kernel_ok :: "(u32 \<Rightarrow> bool) \<Rightarrow> string set \<Rightarrow> (string \<Rightarrow> u32) \<Rightarrow> 'a kernel_scheme \<Rightarrow> bool" where
  "kernel_ok W L lits s \<longleftrightarrow> console_inv s \<and> image_ok s \<and> calls_ok s \<and> (\<forall>str \<in> L. literal_ok W lits (mem s) str)"

definition kernel_files :: "'a kernel_scheme \<Rightarrow> 'a kernel_scheme \<Rightarrow> bool" where
  "kernel_files s s' \<longleftrightarrow> same_image s s' \<and> (\<forall>k \<in> {2..<8}. fd_entry k s' = fd_entry k s) \<and>
     argument (cur_pcb s') = argument (cur_pcb s) \<and> directory_index s' = directory_index s"

definition own_screen :: "'a kernel_scheme \<Rightarrow> tty" where
  "own_screen s = tty_of s (curr_scheduler s)"

lemma page_of_text: "t < 3 \<Longrightarrow> in_page (page_of s t) x \<Longrightarrow> text_page x"
  by (auto simp: u8_less_3 page_of_def vid_page_def text_page_def split: if_splits)

lemma text_not_user: "text_page x \<Longrightarrow> \<not> user_window x"
  using screen_not_window [of "0xB8000" x] screen_not_window [of "0xB9000" x] screen_not_window [of "0xBA000" x]
    screen_not_window [of "0xBB000" x] by (auto simp: text_page_def)

lemma image_ok_same:
  assumes "same_image s s'" and "image_ok s"
  shows "image_ok s'"
proof -
  have d: "dir_dentry_addr s' = dir_dentry_addr s" using assms(1) by (simp add: dir_dentry_addr_def same_image_def)
  have "load32 (mem s') (boot_block_addr s + of_nat 96) = load32 (mem s) (boot_block_addr s + of_nat 96)"
  proof (rule same_image_word [OF assms(1)])
    fix j :: nat assume "j < 4"
    then show "in_image s (boot_block_addr s + of_nat 96 + of_nat j)"
      using boot_block_in_image [of "96 + j" s] by (simp add: add.assoc)
  qed
  then have "file_type (load_dentry (mem s') (dir_dentry_addr s')) = file_type (load_dentry (mem s) (dir_dentry_addr s))"
    unfolding d by (simp add: load_dentry_def dir_dentry_addr_def add.commute)
  then show ?thesis
    using assms(2) same_image_layout [OF assms(1)] same_image_stat [OF assms(1)] by (simp add: image_ok_def)
qed

lemma literal_ok_same:
  assumes "literal_ok W lits m str" and "\<And>x. user_window x \<Longrightarrow> \<not> W x \<Longrightarrow> m' x = m x"
  shows "literal_ok W lits m' str"
proof -
  have "ptr m' (lits str) i = ptr m (lits str) i" if "i \<le> length str" for i
    using that assms by (simp add: ptr_def literal_ok_def)
  then have "cstr (ptr m' (lits str)) (bytes_of str) = cstr (ptr m (lits str)) (bytes_of str)"
    by (simp add: cstr_def bytes_of_def)
  then show ?thesis using assms(1) by (simp add: literal_ok_def)
qed

lemma kernel_okI:
  assumes "kernel_ok W L lits s" and "same_image s s'" and "console_inv s'" and "calls_ok s'"
    and "\<And>x. user_window x \<Longrightarrow> \<not> W x \<Longrightarrow> mem s' x = mem s x"
  shows "kernel_ok W L lits s'"
  using assms image_ok_same [OF assms(2)] literal_ok_same [where m = "mem s" and m' = "mem s'", OF _ assms(5)]
  by (auto simp: kernel_ok_def)

lemma calls_ok_same:
  "(\<And>k. k < 8 \<Longrightarrow> fd_entry k s' = fd_entry k s) \<Longrightarrow> dir_fops s' = dir_fops s \<Longrightarrow> file_fops s' = file_fops s \<Longrightarrow>
     calls_ok s' = calls_ok s"
  by (simp add: calls_ok_def)

text \<open>The interrupt flag and the I/O history play no role.\<close>

lemma flag_fields [simp]:
  fixes s :: "'a kernel_scheme"
  shows "fd_entry k (s\<lparr>if_flag := b\<rparr>) = fd_entry k s" "cur_pcb (s\<lparr>if_flag := b\<rparr>) = cur_pcb s"
    "own_screen (s\<lparr>if_flag := b\<rparr>) = own_screen s" "console_inv (s\<lparr>if_flag := b\<rparr>) = console_inv s"
    "calls_ok (s\<lparr>if_flag := b\<rparr>) = calls_ok s" "same_image s' (s\<lparr>if_flag := b\<rparr>) = same_image s' s"
    "kernel_files s' (s\<lparr>if_flag := b\<rparr>) = kernel_files s' s" "free_fd (s\<lparr>if_flag := b\<rparr>) = free_fd s"
  by (simp_all add: fd_entry_def cur_pcb_def cur_pcb_addr_def own_screen_def tty_of_def page_of_def console_inv_def calls_ok_def
      same_image_def kernel_files_def free_fd_def)

lemma flag_ok [simp]: "kernel_ok W L lits (s\<lparr>if_flag := b\<rparr>) = kernel_ok W L lits s"
proof -
  have "same_image s (s\<lparr>if_flag := b\<rparr>)" "same_image (s\<lparr>if_flag := b\<rparr>) s"
    by (simp_all add: same_image_def in_image_def image_size_def stat_inode_num_def stat_data_block_num_def)
  then have "image_ok (s\<lparr>if_flag := b\<rparr>) = image_ok s" using image_ok_same by blast
  then show ?thesis by (simp add: kernel_ok_def)
qed

section \<open>Output\<close>

lemma console_step_files:
  assumes "console_step s (s' :: 'a kernel_scheme)"
  shows "directory_index s' = directory_index s" "dir_fops s' = dir_fops s" "file_fops s' = file_fops s"
    "fd_entry k s' = fd_entry k s" "cur_pcb s' = cur_pcb s"
proof -
  have eq: "s' = s\<lparr>mem := mem s', io_log := io_log s', terminal := terminal s'\<rparr>"
    using assms by (simp add: console_step_def)
  show "directory_index s' = directory_index s" "dir_fops s' = dir_fops s" "file_fops s' = file_fops s"
    by (subst eq, simp)+
  show p: "cur_pcb s' = cur_pcb s"
    using console_step_fields [OF assms] by (simp add: cur_pcb_def cur_pcb_addr_def)
  show "fd_entry k s' = fd_entry k s" by (simp add: fd_entry_def p)
qed

text \<open>A step of the console that leaves the program's addresses and the image alone keeps everything.\<close>

lemma console_step_ok:
  assumes ok: "kernel_ok W L lits s" and st: "console_step s s'" and inv: "console_inv s'"
    and m: "\<And>x. \<not> text_page x \<Longrightarrow> mem s' x = mem s x"
  shows "kernel_ok W L lits s'" and "kernel_files s s'" and "\<And>x. user_window x \<Longrightarrow> mem s' x = mem s x"
proof -
  have im: "same_image s s'"
    using ok m console_step_fields [OF st] by (auto simp: same_image_def kernel_ok_def image_ok_def)
  show u: "mem s' x = mem s x" if "user_window x" for x using that m text_not_user by blast
  show "kernel_files s s'" using im by (simp add: kernel_files_def console_step_files [OF st])
  have "calls_ok s'" using ok calls_ok_same [of s' s] console_step_files [OF st] by (simp add: kernel_ok_def)
  then show "kernel_ok W L lits s'" using kernel_okI [OF ok im inv] u by blast
qed

lemma kernel_write_out:
  assumes ok: "kernel_ok W L lits s" and buf: "run_of user_window buf n" and n: "n < 2 ^ 31"
  shows "\<exists>s'. sys_write 1 buf (of_nat n) s = Some (of_nat n, s') \<and> kernel_ok W L lits s' \<and> kernel_files s s' \<and>
    own_screen s' = fold tty_putc (load_bytes (mem s) buf n) (own_screen s) \<and> (\<forall>x. user_window x \<longrightarrow> mem s' x = mem s x)"
proof -
  let ?bs = "load_bytes (mem s) buf n" and ?cs = "curr_scheduler s"
  let ?s' = "fold putc ?bs s"
  have inv: "console_inv s" and cs: "?cs < 3" using ok by (simp_all add: kernel_ok_def console_inv_def)
  have far: "\<not> in_page (page_of s ?cs) x" if "user_window x" for x
    using that page_of_text [OF cs] text_not_user by blast
  have "fold (\<lambda>i s. putc (mem s (buf + of_nat i)) s) [0..<n] s = ?s'"
    using buf far by (intro terminal_write_fold [OF inv]) (simp add: run_of_def)
  then have w: "terminal_write buf (of_nat n) s = (of_nat n, ?s')"
    using buf n by (simp add: terminal_write_def sint_count run_of_def)
  have c: "flags (fd_entry 1 s) \<noteq> 0" "fops_write (pointer (fd_entry 1 s)) = Terminal_write"
    using ok by (simp_all add: kernel_ok_def calls_ok_def)
  have "sys_write 1 buf (of_nat n) s = Some (of_nat n, ?s')"
    using w buf c n by (simp add: sys_write_def write_op_def sint_count run_of_def)
  moreover have "mem ?s' x = mem s x" if "\<not> text_page x" for x
    using that page_of_text [OF cs] by (intro fold_putc_outside [OF inv]) blast
  note k = console_step_ok [OF ok fold_putc_step own_tty.inv_fold [OF inv] this]
  moreover have "own_screen ?s' = fold tty_putc ?bs (own_screen s)"
    using own_tty.view_fold [OF inv, of ?bs] by (simp add: own_screen_def frame_simps)
  ultimately show ?thesis using k by blast
qed

lemma kernel_set_mem:
  assumes ok: "kernel_ok W L lits s" and m: "\<And>x. \<not> (user_window x \<and> W x) \<Longrightarrow> m x = mem s x"
  shows "kernel_ok W L lits (s\<lparr>mem := m\<rparr>)" and "own_screen (s\<lparr>mem := m\<rparr>) = own_screen s" and "kernel_files s (s\<lparr>mem := m\<rparr>)"
proof -
  have im: "same_image s (s\<lparr>mem := m\<rparr>)" using ok m by (auto simp: same_image_def kernel_ok_def image_ok_def)
  have f: "fd_entry k (s\<lparr>mem := m\<rparr>) = fd_entry k s" "cur_pcb (s\<lparr>mem := m\<rparr>) = cur_pcb s" for k
    by (simp_all add: fd_entry_def cur_pcb_def cur_pcb_addr_def)
  have "console_inv (s\<lparr>mem := m\<rparr>)" "calls_ok (s\<lparr>mem := m\<rparr>)"
    using ok by (simp_all add: kernel_ok_def console_inv_def calls_ok_def f)
  then show "kernel_ok W L lits (s\<lparr>mem := m\<rparr>)" using m by (intro kernel_okI [OF ok im]) auto
  show "kernel_files s (s\<lparr>mem := m\<rparr>)" using im by (simp add: kernel_files_def f)
  have cs: "curr_scheduler s < 3" using ok by (simp add: kernel_ok_def console_inv_def)
  have "m (cell (page_of s (curr_scheduler s)) (of_nat k)) = mem s (cell (page_of s (curr_scheduler s)) (of_nat k))" if "k < 2000" for k
    using cell_in_page [OF that] page_of_text [OF cs] text_not_user by (intro m) blast
  then show "own_screen (s\<lparr>mem := m\<rparr>) = own_screen s"
    by (simp add: own_screen_def tty_of_def abs_tty_def page_of_def screen_def)
qed

lemma kernel_files_refl: "kernel_files s s"
  by (simp add: kernel_files_def same_image_refl)

lemma kernel_files_trans: "kernel_files s t \<Longrightarrow> kernel_files t u \<Longrightarrow> kernel_files s u"
  using same_image_trans by (auto simp: kernel_files_def)

lemma kernel_ok_literal:
  assumes "kernel_ok W L lits s" and "str \<in> L"
  shows "run_of user_window (lits str) (Suc (length str)) \<and> cstr (ptr (mem s) (lits str)) (bytes_of str) \<and> length str < 2 ^ 31"
proof -
  have "literal_ok W lits (mem s) str" using assms by (simp add: kernel_ok_def)
  then show ?thesis by (simp add: literal_ok_def run_of_def less_Suc_eq_le)
qed

text \<open>The promises about output.\<close>

interpretation kernel_io: user_io "kernel_platform lo isr child lits junk" "\<lambda>(s, es). kernel_ok W L lits s" user_window
    "\<lambda>x. user_window x \<and> W x" L "\<lambda>(s, es). own_screen s" tty_putc "\<lambda>(s, es) (s', es'). kernel_files s s'"
  for lo isr child lits junk W L
proof (unfold_locales, goal_cases)
  case (3 s m)
  then show ?case using kernel_set_mem [of W L lits "fst s" m] by (auto simp: split_def kernel_platform_def)
next
  case (4 s str)
  then show ?case using kernel_ok_literal [of W L lits "fst s" str] by (auto simp: split_def kernel_platform_def)
next
  case (5 s buf n)
  then obtain k es where s: "s = (k, es)" "kernel_ok W L lits k" by (cases s) auto
  from kernel_write_out [OF s(2) 5(2,3)] show ?case by (auto simp: s(1) kernel_trap_calls returned_def)
next
  case 6
  then show ?case by (simp add: split_def kernel_files_refl)
next
  case (7 s t u)
  then show ?case using kernel_files_trans by (auto simp: split_def)
qed (auto simp: kernel_platform_def)

section \<open>Files\<close>

definition file_data :: "'a filesys_scheme \<Rightarrow> u32 \<Rightarrow> (nat \<Rightarrow> u8) \<Rightarrow> nat \<Rightarrow> nat \<Rightarrow> bool" where
  "file_data s ino c len cap \<longleftrightarrow> fs_layout s \<and> ino < stat_inode_num s \<and> blocks_ok s ino \<and>
     len = unat (inode_length (mem s) (inode_ptr s ino)) \<and> cap = 4096 * max_blocks s \<and>
     (\<forall>j < cap. c j = mem s (file_byte_addr s ino j))"

definition kernel_file_at :: "'a kernel_scheme \<Rightarrow> i32 \<Rightarrow> (nat \<Rightarrow> u8) \<Rightarrow> nat \<Rightarrow> nat \<Rightarrow> nat \<Rightarrow> bool" where
  "kernel_file_at s fd c len cap pos \<longleftrightarrow>
     (\<exists>k \<in> {2..<8}. fd = of_nat k \<and> flags (fd_entry k s) \<noteq> 0 \<and> fops_read (pointer (fd_entry k s)) = File_read \<and>
        file_data s (inode (fd_entry k s)) c len cap \<and> pos = unat (file_position (fd_entry k s)))"

definition kernel_lookup :: "'a kernel_scheme \<Rightarrow> u8 list \<Rightarrow> ((nat \<Rightarrow> u8) \<times> nat \<times> nat) option" where
  "kernel_lookup s nm =
     (if nm = [] \<or> nm = [0x2E] \<or> \<not> fs_layout s then None
      else case List.find (\<lambda>i. entry_name s i = nm) [0..<62] of
          None \<Rightarrow> None
        | Some i \<Rightarrow>
            let d = load_dentry (mem s) (dentry_addr s (of_nat i)); ino = inode_num d; cap = 4096 * max_blocks s
            in if file_type d = 2 \<and> ino < stat_inode_num s \<and> blocks_ok s ino
               then Some ((\<lambda>j. if j < cap then mem s (file_byte_addr s ino j) else 0),
                          unat (inode_length (mem s) (inode_ptr s ino)), cap)
               else None)"

definition kernel_named :: "'a kernel_scheme \<Rightarrow> u8 list \<Rightarrow> bool" where
  "kernel_named s nm \<longleftrightarrow> nm \<noteq> [] \<and> (nm = [0x2E] \<or> (\<exists>i < 62. entry_name s i = nm))"

definition kernel_arg :: "'a kernel_scheme \<Rightarrow> u8 list" where
  "kernel_arg s = (case strlen_from (argument (cur_pcb s)) 0 of None \<Rightarrow> [] | Some n \<Rightarrow> map (argument (cur_pcb s)) [0..<n])"

lemma same_image_sym: "same_image s s' \<Longrightarrow> same_image s' s"
  using same_image_layout(2) [of s s'] by (simp add: same_image_def)

lemma same_image_boot: "same_image s s' \<Longrightarrow> same_boot s s'"
  using boot_block_in_image [of _ s] by (simp add: same_image_def same_boot_def)

lemma same_image_byte:
  assumes im: "same_image s s'" and "fs_layout s" "ino < stat_inode_num s" "blocks_ok s ino" "j < 4096 * max_blocks s"
  shows "mem s' (file_byte_addr s' ino j) = mem s (file_byte_addr s ino j)"
  using same_image_file [OF im assms(2-4), of j 1] assms(5) by (simp add: file_bytes_def)

lemma file_data_same:
  assumes im: "same_image s s'" and fd: "file_data s ino c len cap"
  shows "file_data s' ino c len cap"
proof -
  from fd have a: "fs_layout s" "ino < stat_inode_num s" "blocks_ok s ino" by (simp_all add: file_data_def)
  show ?thesis
    using fd same_image_byte [OF im a] same_image_layout [OF im] same_image_stat [OF im] same_image_inode [OF im a(1,2)]
    by (simp add: file_data_def)
qed

lemma kernel_file_at_same:
  assumes "kernel_files s s'"
  shows "kernel_file_at s' fd c len cap pos = kernel_file_at s fd c len cap pos"
proof -
  have im: "same_image s s'" and f: "\<And>k. k \<in> {2..<8} \<Longrightarrow> fd_entry k s' = fd_entry k s" using assms by (simp_all add: kernel_files_def)
  have "file_data s' ino c len cap = file_data s ino c len cap" for ino
    using file_data_same [OF im] file_data_same [OF same_image_sym [OF im]] by blast
  then show ?thesis unfolding kernel_file_at_def using f by (intro bex_cong) auto
qed

lemma dentry_same:
  assumes im: "same_image s s'" and i: "i < 62"
  shows "entry_name s' i = entry_name s i"
    and "file_type (load_dentry (mem s') (dentry_addr s' (of_nat i))) = file_type (load_dentry (mem s) (dentry_addr s (of_nat i)))"
    and "inode_num (load_dentry (mem s') (dentry_addr s' (of_nat i))) = inode_num (load_dentry (mem s) (dentry_addr s (of_nat i)))"
proof -
  show "entry_name s' i = entry_name s i" by (rule same_boot_names(2) [OF same_image_boot [OF im] i])
  have a: "dentry_addr s' (of_nat i) = dentry_addr s (of_nat i)" using im by (simp add: dentry_addr_def same_image_def)
  have w: "load32 (mem s') (dentry_addr s (of_nat i) + of_nat d) = load32 (mem s) (dentry_addr s (of_nat i) + of_nat d)"
    if "d \<le> 36" for d
  proof (rule same_image_word [OF im])
    fix j :: nat assume "j < 4"
    then have "in_image s (boot_block_addr s + of_nat (128 + 64 * i + d + j))" using i that by (intro boot_block_in_image) simp
    then show "in_image s (dentry_addr s (of_nat i) + of_nat d + of_nat j)" by (simp add: dentry_addr_def ac_simps)
  qed
  from w [of 32] w [of 36] show
    "file_type (load_dentry (mem s') (dentry_addr s' (of_nat i))) = file_type (load_dentry (mem s) (dentry_addr s (of_nat i)))"
    "inode_num (load_dentry (mem s') (dentry_addr s' (of_nat i))) = inode_num (load_dentry (mem s) (dentry_addr s (of_nat i)))"
    by (simp_all add: load_dentry_def a)
qed

lemma kernel_names_same:
  assumes im: "same_image s s'"
  shows "kernel_named s' = kernel_named s" and "kernel_lookup s' nm = kernel_lookup s nm"
proof -
  show "kernel_named s' = kernel_named s" using dentry_same(1) [OF im] by (auto simp: kernel_named_def fun_eq_iff)
  have find: "List.find (\<lambda>i. entry_name s' i = nm) [0..<62] = List.find (\<lambda>i. entry_name s i = nm) [0..<62]"
    by (rule find_cong [OF refl]) (simp add: dentry_same(1) [OF im])
  show "kernel_lookup s' nm = kernel_lookup s nm"
  proof (cases "fs_layout s \<and> nm \<noteq> [] \<and> nm \<noteq> [0x2E]")
    case True
    show ?thesis
    proof (cases "List.find (\<lambda>i. entry_name s i = nm) [0..<62]")
      case (Some i)
      then have i: "i < 62" unfolding find_upt_Some by simp
      let ?d = "load_dentry (mem s) (dentry_addr s (of_nat i))"
      note d = dentry_same(2,3) [OF im i] and l = same_image_layout [OF im] and st = same_image_stat [OF im]
      show ?thesis
      proof (cases "inode_num ?d < stat_inode_num s \<and> blocks_ok s (inode_num ?d)")
        case ok: True
        note b = same_image_byte [OF im, of "inode_num ?d"] and n = same_image_inode [OF im, of "inode_num ?d"]
        show ?thesis using True ok Some b n by (simp add: kernel_lookup_def find Let_def d l st cong: if_cong)
      next
        case False
        then have "\<not> (inode_num ?d < stat_inode_num s' \<and> blocks_ok s' (inode_num ?d))"
          using same_image_inode(2) [OF im, of "inode_num ?d"] True st by auto
        then show ?thesis using True False Some by (auto simp: kernel_lookup_def find Let_def d)
      qed
    qed (simp add: kernel_lookup_def find)
  qed (auto simp: kernel_lookup_def same_image_layout [OF im])
qed

lemma set_fd_fields [simp]:
  fixes s :: "'a kernel_scheme"
  shows "mem (set_fd k f s) = mem s" "directory_index (set_fd k f s) = directory_index s" "dir_fops (set_fd k f s) = dir_fops s"
    "file_fops (set_fd k f s) = file_fops s" "own_screen (set_fd k f s) = own_screen s" "same_image s' (set_fd k f s) = same_image s' s"
    "console_inv (set_fd k f s) = console_inv s" "argument (cur_pcb (set_fd k f s)) = argument (cur_pcb s)"
  by (simp_all add: set_fd_def set_cur_pcb_def own_screen_def tty_of_def page_of_def same_image_def console_inv_def cur_pcb_def cur_pcb_addr_def)

text \<open>Changing one of the descriptors a program may open.\<close>

lemma kernel_set_fd:
  assumes ok: "kernel_ok W L lits s" and k: "k < 8"
    and f: "2 \<le> k \<Longrightarrow> flags f \<noteq> 0 \<Longrightarrow> fops_close (pointer f) \<noteq> Close_null"
      "k < 2 \<Longrightarrow> pointer f = pointer (fd_entry k s) \<and> flags f = flags (fd_entry k s)"
  shows "kernel_ok W L lits (set_fd k f s)"
proof (rule kernel_okI [OF ok])
  show "same_image s (set_fd k f s)" by (simp add: same_image_refl)
  show "console_inv (set_fd k f s)" using ok by (simp add: kernel_ok_def)
  show "calls_ok (set_fd k f s)" using ok f by (auto simp: kernel_ok_def calls_ok_def fd_entry_set_fd)
qed simp

lemma descriptor_number:
  assumes "k < 8"
  shows "unat (of_nat k :: i32) = k" "sint (of_nat k :: i32) = int k" "(of_nat k :: i32) \<noteq> - 1"
  using assms sint_count [of k] count_not_error [of k] by (simp_all add: unat_of_nat take_bit_nat_eq_self)

lemma in_image_user:
  assumes "kernel_ok W L lits s" and "run_of (\<lambda>x. user_window x \<and> W x) buf n"
  shows "disjoint_runs buf n (boot_block_addr s) (image_size s)"
  unfolding disjoint_runs_def
proof (intro allI impI notI)
  fix i j assume "i < n" "j < image_size s" "buf + of_nat i = boot_block_addr s + of_nat j"
  then show False using assms unfolding kernel_ok_def image_ok_def run_of_def in_image_def by metis
qed

lemma store_user:
  assumes "run_of (\<lambda>x. user_window x \<and> W x) buf (length bs)" and "\<not> (user_window x \<and> W x)"
  shows "store_bytes m buf bs x = m x"
  using assms by (intro store_bytes_outside) (auto simp: run_of_def)

lemma kernel_read_data:
  assumes ok: "kernel_ok W L lits s" and d: "file_data s ino c len cap"
    and buf: "run_of (\<lambda>x. user_window x \<and> W x) buf n" and n: "n < 2 ^ 31" and cap: "unat off + n \<le> cap \<or> len \<le> unat off"
  shows "read_data ino off buf (of_nat n) s =
    (of_nat (if len \<le> unat off then 0 else n),
     if len \<le> unat off then s else s\<lparr>mem := store_bytes (mem s) buf (map c [unat off..<unat off + n])\<rparr>)"
proof -
  have ino: "\<not> stat_inode_num s \<le> ino" "buf \<noteq> 0" and len: "inode_length (mem s) (inode_ptr s ino) \<le> off \<longleftrightarrow> len \<le> unat off"
    using d buf by (simp_all add: file_data_def run_of_def not_le) (simp add: word_le_nat_alt)
  show ?thesis
  proof (cases "len \<le> unat off")
    case True
    then show ?thesis using ino len by (simp add: read_data_def Let_def inode_ptr_def [symmetric])
  next
    case False
    have u: "unat (of_nat n :: u32) = n" using n by (simp add: unat_of_nat take_bit_nat_eq_self)
    have "file_bytes s ino (unat off) n = map c [unat off..<unat off + n]"
      using d cap False by (intro nth_equalityI) (auto simp: file_bytes_def file_data_def)
    then show ?thesis
      using read_data_eq [of s ino buf "of_nat n" off] in_image_user [OF ok buf] d cap False ino len
      by (simp add: u file_data_def)
  qed
qed

lemma kernel_read_file:
  assumes ok: "kernel_ok W L lits s" and f: "kernel_file_at s fd c len cap pos"
    and buf: "run_of (\<lambda>x. user_window x \<and> W x) buf n" and n: "n < 2 ^ 31" and cap: "pos + n \<le> cap \<or> len \<le> pos"
  shows "\<exists>s'. sys_read isr es fd buf (of_nat n) s = Some (of_nat (if len \<le> pos then 0 else n), s', es) \<and> kernel_ok W L lits s' \<and>
    own_screen s' = own_screen s \<and> kernel_file_at s' fd c len cap (if len \<le> pos then pos else pos + n) \<and>
    mem s' = (if len \<le> pos then mem s else store_bytes (mem s) buf (map c [pos..<pos + n]))"
proof -
  obtain k where k: "k \<in> {2..<8}" "fd = of_nat k" "flags (fd_entry k s) \<noteq> 0" "fops_read (pointer (fd_entry k s)) = File_read"
    and d: "file_data s (inode (fd_entry k s)) c len cap" and pos: "pos = unat (file_position (fd_entry k s))"
    using f by (auto simp: kernel_file_at_def)
  note fd = descriptor_number [of k]
  let ?got = "if len \<le> pos then 0 else n"
  let ?m = "if len \<le> pos then mem s else store_bytes (mem s) buf (map c [pos..<pos + n])"
  let ?s1 = "s\<lparr>mem := ?m\<rparr>"
  let ?f = "(fd_entry k s)\<lparr>file_position := file_position (fd_entry k s) + of_nat ?got\<rparr>"
  have "read_op isr es File_read fd buf (of_nat n) s = Some (of_nat ?got, ?s1, es)"
    using kernel_read_data [OF ok d buf n] cap k fd by (simp add: read_op_def file_read_def Let_def pos)
  then have r: "sys_read isr es fd buf (of_nat n) s = Some (of_nat ?got, set_fd k ?f ?s1, es)"
    using k fd buf n by (simp add: sys_read_def sint_count run_of_def Let_def fd_entry_def cur_pcb_def cur_pcb_addr_def)
  have "?m x = mem s x" if "\<not> (user_window x \<and> W x)" for x
    using store_user [where W = W and x = x and buf = buf, OF _ that] buf by simp
  note s1 = kernel_set_mem [OF ok this]
  have fe: "fd_entry j ?s1 = fd_entry j s" for j by (simp add: fd_entry_def cur_pcb_def cur_pcb_addr_def)
  have "kernel_ok W L lits (set_fd k ?f ?s1)"
    using k ok by (intro kernel_set_fd [OF s1(1)]) (auto simp: kernel_ok_def calls_ok_def)
  moreover have "own_screen (set_fd k ?f ?s1) = own_screen s" using s1(2) by simp
  moreover have "file_data (set_fd k ?f ?s1) (inode (fd_entry k s)) c len cap"
    using s1(3) by (intro file_data_same [OF _ d]) (simp add: kernel_files_def)
  moreover have "unat (file_position (fd_entry k s) + of_nat ?got) = (if len \<le> pos then pos else pos + n)"
  proof (cases "len \<le> pos")
    case False
    then have "pos + n \<le> 4096 * 1022" using cap d by (auto simp: file_data_def max_blocks_def)
    then show ?thesis using False by (simp add: pos unat_word_ariths unat_of_nat take_bit_nat_eq_self)
  qed (simp add: pos)
  ultimately show ?thesis
    using r k by (intro exI [of _ "set_fd k ?f ?s1"]) (auto simp: kernel_file_at_def fd_entry_set_fd)
qed

lemma kernel_find_name:
  assumes "cstr (ptr (mem s) a) nm" and "nm \<noteq> []"
  shows "mem s a \<noteq> 0"
  using cstr_nonzero [OF assms(1), of 0] assms(2) by (simp add: ptr_def)

lemma find_member: "List.find P xs = Some x \<Longrightarrow> x \<in> set xs \<and> P x"
  by (induction xs) (auto split: if_splits)

lemma free_fd_Some: "free_fd s = Some k \<Longrightarrow> k \<in> {2..<8} \<and> flags (fd_entry k s) = 0"
  using find_member [of _ "[2..<8]"] unfolding free_fd_def set_upt by blast

text \<open>Opening: the descriptor is filled in, nothing else changes.\<close>

definition opened :: "nat \<Rightarrow> fops_t \<Rightarrow> u32 \<Rightarrow> 'a kernel_scheme \<Rightarrow> 'a kernel_scheme" where
  "opened k ops ino s = set_fd k \<lparr>pointer = ops, inode = ino, file_position = 0, flags = 1\<rparr> s"

lemma opened_ok:
  assumes "kernel_ok W L lits s" and "k \<in> {2..<8}" and "ops = dir_fops s \<or> ops = file_fops s"
  shows "kernel_ok W L lits (opened k ops ino s)" and "own_screen (opened k ops ino s) = own_screen s"
    and "same_image s (opened k ops ino s)" and "mem (opened k ops ino s) = mem s"
    and "directory_index (opened k ops ino s) = directory_index s"
    and "fd_entry j (opened k ops ino s) =
      (if j = k then \<lparr>pointer = ops, inode = ino, file_position = 0, flags = 1\<rparr> else fd_entry j s)"
proof -
  show "kernel_ok W L lits (opened k ops ino s)"
    unfolding opened_def using assms by (intro kernel_set_fd) (auto simp: kernel_ok_def calls_ok_def)
qed (simp_all add: opened_def fd_entry_set_fd same_image_refl)

lemma open_as_opened:
  assumes "calls_ok s"
  shows "open_as k (file_fops s) ino s = Some (of_nat k, opened k (file_fops s) ino s)"
    and "open_as k (dir_fops s) ino s = Some (of_nat k, opened k (dir_fops s) ino s)"
  using assms by (simp_all add: open_as_def opened_def fd_entry_set_fd open_op_def calls_ok_def file_open_def dir_open_def)

lemma kernel_open_file:
  assumes ok: "kernel_ok W L lits s" and nm: "cstr (ptr (mem s) a) nm" "a \<noteq> 0"
    and l: "kernel_lookup s nm = Some (c, len, cap)" and free: "free_fd s = Some k"
  shows "\<exists>s'. sys_open a s = Some (of_nat k, s') \<and> kernel_ok W L lits s' \<and> own_screen s' = own_screen s \<and>
    kernel_file_at s' (of_nat k) c len cap 0"
proof -
  note k = free_fd_Some [OF free]
  have ne: "nm \<noteq> []" "nm \<noteq> [0x2E]" "fs_layout s" using l by (auto simp: kernel_lookup_def split: if_splits)
  obtain i where i: "List.find (\<lambda>i. entry_name s i = nm) [0..<62] = Some i"
    using l ne by (auto simp: kernel_lookup_def split: option.splits)
  let ?d = "load_dentry (mem s) (dentry_addr s (of_nat i))"
  have d: "file_type ?d = 2" "file_data s (inode_num ?d) c len cap"
    using l ne by (auto simp: kernel_lookup_def i Let_def file_data_def split: if_splits)
  have calls: "calls_ok s" using ok by (simp add: kernel_ok_def)
  let ?s' = "opened k (file_fops s) (inode_num ?d) s"
  have "read_dentry_by_name (ptr (mem s) a) s = Some ?d" using read_dentry_by_name_eq [OF nm(1), of s] ne i by simp
  then have "sys_open a s = Some (of_nat k, ?s')"
    using kernel_find_name [OF nm(1) ne(1)] nm(2) free d(1) by (simp add: sys_open_def open_as_opened(1) [OF calls])
  moreover note o = opened_ok [where ops = "file_fops s" and ino = "inode_num ?d", OF ok conjunct1 [OF k]]
  have "kernel_file_at ?s' (of_nat k) c len cap 0"
    unfolding kernel_file_at_def
    using k o(6) calls file_data_same [OF o(3) d(2)] by (intro bexI [of _ k]) (simp_all add: calls_ok_def)
  ultimately show ?thesis using o(1,2) by blast
qed

lemma kernel_open_missing:
  assumes nm: "cstr (ptr (mem s) a) nm" and no: "\<not> kernel_named s nm"
  shows "sys_open a s = Some (- 1, s)"
proof (cases "nm = []")
  case True
  then have "mem s a = 0" using nm by (simp add: cstr_def ptr_def)
  then show ?thesis by (simp add: sys_open_def)
next
  case False
  then have "nm \<noteq> [0x2E]" "\<forall>i<62. entry_name s i \<noteq> nm" using no by (auto simp: kernel_named_def)
  then have "read_dentry_by_name (ptr (mem s) a) s = None"
    using read_dentry_by_name_eq [OF nm, of s] by (simp add: find_upt_None)
  then show ?thesis by (simp add: sys_open_def)
qed

lemma str_field_cstr:
  assumes "cstr b cs" and "length cs < n"
  shows "str_field b n = cs @ replicate (n - length cs) 0"
proof (rule nth_equalityI)
  fix i assume "i < length (str_field b n)"
  then have i: "i < n" by simp
  show "str_field b n ! i = (cs @ replicate (n - length cs) 0) ! i"
  proof (cases "i < length cs")
    case True
    then have "\<forall>j\<le>i. b j \<noteq> 0" using cstr_nonzero [OF assms(1)] by auto
    then show ?thesis using i True assms(1) by (simp add: nth_str_field nth_append cstr_def)
  next
    case False
    then have "\<not> (\<forall>j\<le>i. b j \<noteq> 0)" using assms(1) by (auto simp: cstr_def not_less)
    then show ?thesis using i False by (simp add: nth_str_field nth_append)
  qed
qed (use assms in simp)

lemma kernel_arg_cstr: "kernel_arg s \<noteq> [] \<Longrightarrow> cstr (argument (cur_pcb s)) (kernel_arg s)"
  using strlen_from_Some [of "argument (cur_pcb s)" 0]
  by (auto simp: kernel_arg_def cstr_def split: option.splits)

lemma cstr_kernel_arg: "cstr (argument (cur_pcb s)) cs \<Longrightarrow> kernel_arg s = cs"
proof -
  assume c: "cstr (argument (cur_pcb s)) cs"
  let ?b = "argument (cur_pcb s)"
  have "?b (length cs) = 0" "\<And>i. i < length cs \<Longrightarrow> ?b i \<noteq> 0" "\<And>i. i < length cs \<Longrightarrow> ?b i = cs ! i"
    using cstr_nonzero [OF c] c unfolding cstr_def by metis+
  then have "strlen_from ?b 0 = Some (length cs)" "map ?b [0..<length cs] = cs"
    by (auto intro: strlen_from_reaches nth_equalityI)
  then show ?thesis by (simp add: kernel_arg_def)
qed

lemma kernel_getargs:
  assumes ok: "kernel_ok W L lits s" and buf: "run_of (\<lambda>x. user_window x \<and> W x) buf n" and n: "n < 2 ^ 31"
    and a: "kernel_arg s \<noteq> []" "length (kernel_arg s) < n"
  shows "\<exists>s'. getargs buf (of_nat n) s = Some (0, s') \<and> kernel_ok W L lits s' \<and> own_screen s' = own_screen s \<and> kernel_files s s' \<and>
    cstr (ptr (mem s') buf) (kernel_arg s)"
proof -
  let ?b = "argument (cur_pcb s)" and ?cs = "kernel_arg s"
  have c: "cstr ?b ?cs" by (rule kernel_arg_cstr [OF a(1)])
  let ?m = "store_bytes (mem s) buf (str_field ?b n)"
  have u: "unat (of_nat n :: u32) = n" using n by (simp add: unat_of_nat take_bit_nat_eq_self)
  have m: "strncpy (\<lambda>_. ?b) (mem s) buf (of_nat n) = ?m" by (simp add: strncpy_const_eq u)
  have byte: "?m (buf + of_nat i) = (?cs @ replicate (n - length ?cs) 0) ! i" if "i < n" for i
  proof -
    have "?m (buf + of_nat i) = str_field ?b n ! i" using that n by (intro store_bytes_inside) simp_all
    then show ?thesis by (simp only: str_field_cstr [OF c a(2)])
  qed
  have nul: "?m (buf + of_nat (length ?cs)) = 0" using byte [OF a(2)] a(2) by (simp add: nth_append)
  have len: "(of_nat (length ?cs) :: u32) \<noteq> 0" using count_0 [of "length ?cs"] a n by simp
  have "list_ex (\<lambda>i. ?m (buf + of_nat i) = 0) [0..<n]" unfolding list_ex_iff using nul a(2) by auto
  then have g: "getargs buf (of_nat n) s = Some (0, s\<lparr>mem := ?m\<rparr>)"
    using buf a(2) n len by (simp add: getargs_def Let_def m run_of_def sint_count strlen_cstr [OF c])
  have "?m x = mem s x" if "\<not> (user_window x \<and> W x)" for x
    using store_user [where W = W and x = x and buf = buf, OF _ that] buf by simp
  note s1 = kernel_set_mem [OF ok this]
  have "cstr (ptr ?m buf) ?cs" using c byte nul a(2) by (auto simp: cstr_def ptr_def nth_append)
  then show ?thesis using g s1 by auto
qed

lemma kernel_arg_same: "argument (cur_pcb s') = argument (cur_pcb s) \<Longrightarrow> kernel_arg s' = kernel_arg s"
  unfolding kernel_arg_def by (simp only:)

lemma kernel_free_same: "kernel_files s s' \<Longrightarrow> free_fd s' = free_fd s"
  unfolding free_fd_def kernel_files_def by (intro find_cong) auto

text \<open>The promises about files.\<close>

interpretation kernel_file_io: file_io "kernel_platform lo isr child lits junk" "\<lambda>(s, es). kernel_ok W L lits s" user_window
    "\<lambda>x. user_window x \<and> W x" L "\<lambda>(s, es). own_screen s" tty_putc "\<lambda>(s, es) (s', es'). kernel_files s s'"
    "\<lambda>(s, es). kernel_file_at s" "\<lambda>(s, es). kernel_lookup s" "\<lambda>(s, es). kernel_named s" "\<lambda>(s, es). free_fd s \<noteq> None"
    "\<lambda>(s, es). kernel_arg s"
  for lo isr child lits junk W L
proof (unfold_locales, goal_cases)
  case 1
  then show ?case by (simp add: split_def kernel_file_at_same)
next
  case 2
  then show ?case by (auto simp: split_def kernel_files_def intro: kernel_names_same)
next
  case 3
  then show ?case by (auto simp: split_def kernel_files_def intro: kernel_names_same)
next
  case 4
  then show ?case by (simp add: split_def kernel_free_same)
next
  case 5
  then show ?case by (auto simp: split_def kernel_files_def intro: kernel_arg_same)
next
  case (6 s fd c len cap pos buf n)
  then obtain k es where s: "s = (k, es)" "kernel_ok W L lits k" "kernel_file_at k fd c len cap pos" by (cases s) auto
  from kernel_read_file [OF s(2,3) 6(3-5), of isr es] obtain k' where
    r: "sys_read isr es fd buf (of_nat n) k = Some (of_nat (if len \<le> pos then 0 else n), k', es)" "kernel_ok W L lits k'"
      "own_screen k' = own_screen k" "kernel_file_at k' fd c len cap (if len \<le> pos then pos else pos + n)"
      "mem k' = (if len \<le> pos then mem k else store_bytes (mem k) buf (map c [pos..<pos + n]))" by blast
  have "kernel_file_at (k'\<lparr>if_flag := b\<rparr>) = kernel_file_at k'" for b
    using kernel_file_at_same [of k' "k'\<lparr>if_flag := b\<rparr>"] by (simp add: kernel_files_refl fun_eq_iff)
  then show ?case using r by (simp add: s(1) kernel_trap_calls returned_def)
next
  case (7 s a nm c len cap)
  then obtain k es where s: "s = (k, es)" "kernel_ok W L lits k" "cstr (ptr (mem k) a) nm" "kernel_lookup k nm = Some (c, len, cap)"
    "free_fd k \<noteq> None" by (cases s) auto
  then obtain j where j: "free_fd k = Some j" by blast
  from kernel_open_file [OF s(2,3) _ s(4) j] 7(3) obtain k' where
    o: "sys_open a k = Some (of_nat j, k')" "kernel_ok W L lits k'" "own_screen k' = own_screen k" "kernel_file_at k' (of_nat j) c len cap 0"
    by (auto simp: run_of_def)
  have "kernel_file_at (k'\<lparr>if_flag := b\<rparr>) = kernel_file_at k'" for b
    using kernel_file_at_same [of k' "k'\<lparr>if_flag := b\<rparr>"] by (simp add: kernel_files_refl fun_eq_iff)
  moreover have "(of_nat j :: i32) \<noteq> - 1" using descriptor_number(3) free_fd_Some [OF j] by simp
  ultimately show ?case using o by (simp add: s(1) kernel_trap_calls returned_def)
next
  case (8 s a nm)
  then obtain k es where s: "s = (k, es)" "kernel_ok W L lits k" "cstr (ptr (mem k) a) nm" "\<not> kernel_named k nm" by (cases s) auto
  from kernel_open_missing [OF s(3,4)] show ?case
    by (simp add: s(1,2) kernel_trap_calls returned_def kernel_io.prints_def kernel_files_refl)
next
  case (9 s buf n)
  then obtain k es where s: "s = (k, es)" "kernel_ok W L lits k" "kernel_arg k \<noteq> []" "length (kernel_arg k) < n" by (cases s) auto
  from kernel_getargs [OF s(2) 9(2,3) s(3,4)] show ?case by (auto simp: s(1) kernel_trap_calls returned_def)
qed

end
