(* ===== verification/User_Sample.thy ===== *)
theory User_Sample
  imports User_Kernel
begin

text \<open>
  A machine on which the user programs run, for the witnesses: the image of the file system
  with its directory entry, process 0 on terminal 0 with its standard descriptors and
  \<open>shell\<close> as its argument, and in its page the literals, one every 64 bytes.
\<close>

definition sample_strs :: "string list" where
  "sample_strs = pass_lines @ [''.'', ''helloo'', ''shel'', [], line []]"

definition sample_lits :: "string \<Rightarrow> u32" where
  "sample_lits str =
     (case List.find (\<lambda>i. sample_strs ! i = str) [0..<length sample_strs] of
        Some i \<Rightarrow> 0x8048000 + of_nat (64 * i) | None \<Rightarrow> 0x8048000)"

definition sample_vars :: "u32 \<Rightarrow> bool" where
  "sample_vars x \<longleftrightarrow> 0x8100000 \<le> unat x \<and> unat x < 0x8101000"

definition user_mem :: mem where
  "user_mem x =
     (if 0x8048000 \<le> unat x \<and> unat x < 0x8048000 + 64 * length sample_strs
      then lit (sample_strs ! ((unat x - 0x8048000) div 64)) ((unat x - 0x8048000) mod 64)
      else if x = 96 then 1 else sample_image x)"

definition sample_user :: kernel where
  "sample_user = sample_kernel\<lparr>mem := user_mem,
     terminal := (terminal sample_kernel)(0 := \<lparr>pcb = pcb_addr 0, screen_x = 0, screen_y = 0\<rparr>),
     pcbs := (pcbs sample_kernel)(pcb_addr 0 :=
       (sample_pcb 0 (- 1) 0)\<lparr>argument := lit ''shell'',
          file_descriptor := (\<lambda>_. \<lparr>pointer = stdin_fops sample_kernel, inode = 0, file_position = 0, flags = 0\<rparr>)
            (0 := \<lparr>pointer = stdin_fops sample_kernel, inode = 0, file_position = 0, flags = 1\<rparr>,
             1 := \<lparr>pointer = stdout_fops sample_kernel, inode = 0, file_position = 0, flags = 1\<rparr>)\<rparr>)\<rparr>"

lemma sample_user_fields:
  "mem sample_user = user_mem" "curr_scheduler sample_user = 0" "current_terminal sample_user = 0"
  "boot_block_addr sample_user = 0" "inode_addr sample_user = 4096" "data_block_addr sample_user = 8192"
  "directory_index sample_user = - 1"
  "terminal sample_user t = \<lparr>pcb = (if t = 0 then pcb_addr 0 else 0), screen_x = 0, screen_y = 0\<rparr>"
  "fd_entry k sample_user = \<lparr>pointer = if k = 1 then stdout_fops sample_kernel else stdin_fops sample_kernel,
     inode = 0, file_position = 0, flags = if k < 2 then 1 else 0\<rparr>"
  "argument (cur_pcb sample_user) = lit ''shell''"
  by (simp_all add: sample_user_def sample_kernel_fields fd_entry_def cur_pcb_def cur_pcb_addr_def sample_pcb_def)
     (simp_all add: sample_kernel_def init_fops_table_def keyboard.extend_def kernel.fields_def sample_kb_def
        paging.extend_def keyboard.fields_def sample_paging_def paging_init_def Let_def filesys.extend_def paging.fields_def sample_fs_fields)

lemma sample_fops:
  "stdin_fops sample_kernel = \<lparr>fops_open = Terminal_open, fops_close = Terminal_close, fops_read = Terminal_read, fops_write = Invalid_write_op\<rparr>"
  "stdout_fops sample_kernel = \<lparr>fops_open = Terminal_open, fops_close = Terminal_close, fops_read = Invalid_read_op, fops_write = Terminal_write\<rparr>"
  "dir_fops sample_user = \<lparr>fops_open = Dir_open, fops_close = Dir_close, fops_read = Dir_read, fops_write = Dir_write\<rparr>"
  "file_fops sample_user = \<lparr>fops_open = File_open, fops_close = File_close, fops_read = File_read, fops_write = File_write\<rparr>"
  by (simp_all add: sample_user_def sample_kernel_def init_fops_table_def)

text \<open>Below the program's page the memory is the image, with the type of its first entry.\<close>

lemma user_mem_low: "unat x < 0x8000000 \<Longrightarrow> user_mem x = (if x = 96 then 1 else sample_image x)"
  by (simp add: user_mem_def)

lemma sample_user_image:
  "stat_dir_entry_num sample_user = 2" "stat_inode_num sample_user = 1" "stat_data_block_num sample_user = 2"
  "file_type (load_dentry user_mem 64) = 1"
  by (simp_all add: stat_dir_entry_num_def stat_inode_num_def stat_data_block_num_def sample_user_fields load32_def
      user_mem_low sample_image_def load_dentry_def)

lemma sample_literals:
  assumes "str \<in> set sample_strs"
  shows "literal_ok sample_vars sample_lits user_mem str"
proof -
  obtain i where i: "i < length sample_strs" "sample_strs ! i = str" using assms by (auto simp: in_set_conv_nth)
  then have "List.find (\<lambda>i. sample_strs ! i = str) [0..<length sample_strs] \<noteq> None" unfolding find_None_iff by auto
  then obtain j where j: "j < length sample_strs" "sample_strs ! j = str" "sample_lits str = 0x8048000 + of_nat (64 * j)"
    unfolding sample_lits_def using find_member [of "\<lambda>i. sample_strs ! i = str" "[0..<length sample_strs]"] by fastforce
  have len: "length sample_strs = 13" by (simp add: sample_strs_def pass_lines_def test_names_def)
  have "list_all (\<lambda>s. length s < 64 \<and> 0 \<notin> set (bytes_of s)) sample_strs"
    by (simp add: sample_strs_def pass_lines_def test_names_def bytes_of_def)
  then have short: "length str < 64" "0 \<notin> set (bytes_of str)" using assms by (simp_all add: list_all_iff)
  have a: "unat (sample_lits str + of_nat k) = 0x8048000 + 64 * j + k" if "k < 64" for k
    using that j(1) len unfolding j(3) by (simp add: unat_word_ariths unat_of_nat take_bit_nat_eq_self)
  have m: "ptr user_mem (sample_lits str) k = lit str k" if "k < 64" for k
    using that a [OF that] j(1,2) by (simp add: ptr_def user_mem_def)
  have "cstr (ptr user_mem (sample_lits str)) (bytes_of str)"
    using cstr_lit [OF short(2)] m short(1) by (simp add: cstr_def bytes_of_def)
  moreover have "sample_lits str \<noteq> 0" using a [of 0] by (auto simp: unat_eq_0)
  moreover have "user_window (sample_lits str + of_nat k) \<and> \<not> sample_vars (sample_lits str + of_nat k)" if "k \<le> length str" for k
    using a [of k] that short(1) j(1) len by (simp add: user_window_def drop_bit_range sample_vars_def)
  ultimately show ?thesis using short(1) by (simp add: literal_ok_def)
qed

lemma sample_run:
  assumes "n \<le> 0x1000"
  shows "run_of (\<lambda>x. user_window x \<and> sample_vars x) 0x8100000 n"
proof -
  have "unat (0x8100000 + of_nat i :: u32) = 0x8100000 + i" if "i < n" for i
    using that assms by (simp add: unat_word_ariths unat_of_nat take_bit_nat_eq_self)
  then show ?thesis using assms by (simp add: run_of_def user_window_def drop_bit_range sample_vars_def)
qed

lemma sample_user_ok: "kernel_ok sample_vars (set sample_strs) sample_lits sample_user"
proof -
  have "fs_layout sample_user" by (simp add: fs_layout_def sample_user_fields sample_user_image)
  moreover have "\<not> user_window x \<and> \<not> text_page x" if "in_image sample_user x" for x
  proof -
    have low: "unat x < 16384"
      using that by (auto simp: in_image_def image_size_def sample_user_fields sample_user_image unat_of_nat take_bit_nat_eq_self)
    have "\<not> in_page b x" if "16384 \<le> unat b" "unat b < 0x100000" for b
    proof
      assume "in_page b x"
      then obtain i where "i < 4000" "x = b + of_nat i" by (auto simp: in_page_def)
      then show False using unat_run [of b 4000 i] that low by simp
    qed
    then show ?thesis using low by (simp add: text_page_def user_window_def drop_bit_range)
  qed
  ultimately have "image_ok sample_user"
    by (simp add: image_ok_def sample_user_image sample_user_fields dir_dentry_addr_def)
  moreover have "console_inv sample_user" by (simp add: console_inv_def sample_user_fields cursor_ok_def term_pos_def)
  moreover have "calls_ok sample_user" by (simp add: calls_ok_def sample_fops sample_user_fields)
  ultimately show ?thesis using sample_literals by (simp add: kernel_ok_def sample_user_fields)
qed

lemma sample_shell_name: "entry_name sample_user 0 = bytes_of ''shell''"
proof -
  have "load_bytes user_mem 128 32 = map (\<lambda>i. sample_image (128 + of_nat i)) [0..<32]"
    unfolding load_bytes_def
  proof (intro map_cong refl)
    fix i assume "i \<in> set [0..<32]"
    then have "unat (128 + of_nat i :: u32) = 128 + i" by (simp add: unat_word_ariths unat_of_nat take_bit_nat_eq_self)
    moreover have "128 + of_nat i \<noteq> (96 :: u32)" using calculation by (auto simp: word_unat_eq_iff)
    ultimately show "user_mem (128 + of_nat i) = sample_image (128 + of_nat i)" using \<open>i \<in> set [0..<32]\<close> by (simp add: user_mem_low)
  qed
  then show ?thesis
    by (simp add: entry_name_def dentry_addr_def sample_user_fields upt_rec sample_image_def bytes_of_def)
qed

text \<open>Its one file, with 5000 bytes in two blocks, and its free descriptors.\<close>

lemma sample_shell_file:
  obtains c where "kernel_lookup sample_user (bytes_of ''shell'') = Some (c, 5000, 8192)"
proof -
  have b: "max_blocks sample_user = 2" by (simp add: max_blocks_def sample_user_image)
  have "fs_layout sample_user" by (simp add: fs_layout_def sample_user_fields sample_user_image)
  moreover have "List.find (\<lambda>i. entry_name sample_user i = bytes_of ''shell'') [0..<62] = Some 0"
    by (simp add: find_upt_Some sample_shell_name)
  moreover have d: "file_type (load_dentry user_mem 128) = 2" "inode_num (load_dentry user_mem 128) = 0"
    by (simp_all add: load_dentry_def load32_def user_mem_low sample_image_def)
  moreover have "inode_length user_mem (inode_ptr sample_user 0) = 5000"
    by (simp add: inode_length_def inode_ptr_def sample_user_fields load32_def user_mem_low sample_image_def)
  moreover have "blocks_ok sample_user 0"
    unfolding blocks_ok_def b
  proof (intro allI impI)
    fix k :: nat assume "k < 2"
    then consider "k = 0" | "k = 1" by linarith
    then show "inode_data_block (mem sample_user) (inode_ptr sample_user 0) (of_nat k) < stat_data_block_num sample_user"
      by cases (simp_all add: inode_data_block_def inode_ptr_def sample_user_fields sample_user_image load32_def user_mem_low sample_image_def)
  qed
  ultimately show thesis
    using that by (simp add: kernel_lookup_def bytes_of_def b dentry_addr_def sample_user_fields sample_user_image)
qed

lemma sample_free_fd: "free_fd sample_user = Some 2"
  by (simp add: free_fd_def upt_conv_Cons sample_user_fields)

lemma sample_gap: "192 \<le> unat x \<Longrightarrow> unat x < 4096 \<Longrightarrow> user_mem x = 0"
  by (auto simp: user_mem_low sample_image_def)

lemma sample_no_name: "0 < i \<Longrightarrow> i < 62 \<Longrightarrow> entry_name sample_user i = []"
proof -
  assume i: "0 < i" "i < 62"
  then have "unat (128 + 64 * of_nat i :: u32) = 128 + 64 * i" by (simp add: unat_word_ariths unat_of_nat take_bit_nat_eq_self)
  then have "user_mem (128 + 64 * of_nat i) = 0" using i by (intro sample_gap) auto
  then show ?thesis by (simp add: entry_name_def dentry_addr_def sample_user_fields load_bytes_def upt_conv_Cons)
qed

end
