(* ===== verification/User_Run.thy ===== *)
theory User_Run
  imports User_Sample
begin

text \<open>
  The directory and the failing calls on the kernel, and what the programs of \<^verbatim>\<open>syscalls\<close>
  put on the screen: the properties of \<open>cat\<close>, \<open>ls\<close>, \<open>syserr\<close> and the counter.
\<close>

section \<open>The directory\<close>

definition entries_from :: "'a filesys_scheme \<Rightarrow> u8 list list" where
  "entries_from s = map (dir_name s) [directory_index s..sint (stat_dir_entry_num s) - 2]"

definition kernel_dir_at :: "'a kernel_scheme \<Rightarrow> i32 \<Rightarrow> u8 list list \<Rightarrow> bool" where
  "kernel_dir_at s fd nms \<longleftrightarrow>
     (\<exists>k \<in> {2..<8}. fd = of_nat k \<and> flags (fd_entry k s) \<noteq> 0 \<and> fops_read (pointer (fd_entry k s)) = Dir_read) \<and>
     sint (stat_dir_entry_num s) \<le> 63 \<and> - 1 \<le> directory_index s \<and> nms = entries_from s"

definition kernel_ready :: "'a kernel_scheme \<Rightarrow> bool" where
  "kernel_ready s \<longleftrightarrow> free_fd s \<noteq> None \<and> - 1 \<le> directory_index s"

lemma dir_name_same:
  assumes "same_image s s'" and "i < 62"
  shows "dir_name s' i = dir_name s i"
  using dentry_same(1) [OF assms(1), of "nat i"] assms(2) by (simp add: dir_name_def)

lemma entries_from_same:
  assumes "same_image s s'" and "sint (stat_dir_entry_num s) \<le> 63"
  shows "map (dir_name s') [a..sint (stat_dir_entry_num s') - 2] = map (dir_name s) [a..sint (stat_dir_entry_num s) - 2]"
  using dir_name_same [OF assms(1)] same_image_stat [OF assms(1)] assms(2) by simp

lemma kernel_dir_at_same:
  assumes f: "kernel_files s s'"
  shows "kernel_dir_at s' fd nms = kernel_dir_at s fd nms"
proof -
  have im: "same_image s s'" and "directory_index s' = directory_index s" using f by (simp_all add: kernel_files_def)
  then have "entries_from s' = entries_from s" if "sint (stat_dir_entry_num s) \<le> 63"
    using that entries_from_same [OF im] by (simp add: entries_from_def)
  then show ?thesis using f same_image_stat [OF im] by (auto simp: kernel_dir_at_def kernel_files_def)
qed

lemma kernel_open_dot:
  assumes ok: "kernel_ok W L lits s" and nm: "cstr (ptr (mem s) a) [0x2E]" "a \<noteq> 0"
  shows "sys_open a s = (case free_fd s of None \<Rightarrow> Some (- 1, s) | Some k \<Rightarrow> Some (of_nat k, opened k (dir_fops s) 0 s))"
proof -
  have "read_dentry_by_name (ptr (mem s) a) s = Some (load_dentry (mem s) (dir_dentry_addr s))"
    using read_dentry_by_name_eq [OF nm(1), of s] by simp
  moreover have "file_type (load_dentry (mem s) (dir_dentry_addr s)) = 1" "calls_ok s"
    using ok by (simp_all add: kernel_ok_def image_ok_def)
  ultimately show ?thesis
    using kernel_find_name [OF nm(1)] nm(2) by (simp add: sys_open_def open_as_opened(2) split: option.splits)
qed

lemma kernel_open_dir:
  assumes ok: "kernel_ok W L lits s" and r: "kernel_ready s" and nm: "cstr (ptr (mem s) a) [0x2E]" "a \<noteq> 0"
  shows "\<exists>k s'. sys_open a s = Some (of_nat k, s') \<and> k < 8 \<and> kernel_ok W L lits s' \<and> own_screen s' = own_screen s \<and>
    kernel_dir_at s' (of_nat k) (entries_from s)"
proof -
  obtain k where f: "free_fd s = Some k" using r by (auto simp: kernel_ready_def)
  then have k: "k \<in> {2..<8}" using free_fd_Some by blast
  let ?s' = "opened k (dir_fops s) 0 s"
  note o = opened_ok [where ops = "dir_fops s" and ino = 0, OF ok k]
  have "entries_from ?s' = entries_from s"
    using ok o(3,5) entries_from_same [of s ?s'] by (simp add: entries_from_def kernel_ok_def image_ok_def)
  moreover have "sint (stat_dir_entry_num ?s') \<le> 63"
    using ok same_image_stat(1) [OF o(3)] by (simp add: kernel_ok_def image_ok_def)
  moreover have "fops_read (dir_fops s) = Dir_read" using ok by (simp add: kernel_ok_def calls_ok_def)
  ultimately have "kernel_dir_at ?s' (of_nat k) (entries_from s)"
    unfolding kernel_dir_at_def using k o(5,6) r by (auto simp: kernel_ready_def intro!: bexI [of _ k])
  then show ?thesis using kernel_open_dot [OF ok nm] f k o(1,2) by auto
qed

lemma entries_Cons:
  assumes "entries_from s = nm # nms"
  shows "directory_index s < sint (stat_dir_entry_num s) - 1" "nm = dir_name s (directory_index s)"
    "nms = map (dir_name s) [directory_index s + 1..sint (stat_dir_entry_num s) - 2]"
proof -
  have ne: "directory_index s \<le> sint (stat_dir_entry_num s) - 2"
    using assms by (cases "directory_index s \<le> sint (stat_dir_entry_num s) - 2") (auto simp: entries_from_def)
  then show "directory_index s < sint (stat_dir_entry_num s) - 1" by simp
  show "nm = dir_name s (directory_index s)" "nms = map (dir_name s) [directory_index s + 1..sint (stat_dir_entry_num s) - 2]"
    using assms upto_rec1 [OF ne] by (simp_all add: entries_from_def)
qed

lemma kernel_read_dir:
  assumes ok: "kernel_ok W L lits s" and d: "kernel_dir_at s fd (nm # nms)" and buf: "run_of (\<lambda>x. user_window x \<and> W x) buf 33"
  shows "\<exists>s'. sys_read isr es fd buf 32 s = Some (of_nat (length nm), s', es) \<and> kernel_ok W L lits s' \<and>
    own_screen s' = own_screen s \<and> kernel_dir_at s' fd nms \<and> cstr (ptr (mem s') buf) nm"
proof -
  obtain k where k: "k \<in> {2..<8}" "fd = of_nat k" "flags (fd_entry k s) \<noteq> 0" "fops_read (pointer (fd_entry k s)) = Dir_read"
    and i: "- 1 \<le> directory_index s" and e: "entries_from s = nm # nms" using d by (auto simp: kernel_dir_at_def)
  note nm = entries_Cons [OF e] and fd = descriptor_number [of k]
  have n63: "sint (stat_dir_entry_num s) \<le> 63" using ok by (simp add: kernel_ok_def image_ok_def)
  have b0: "buf \<noteq> 0" using buf by (simp add: run_of_def)
  have "disjoint_runs buf 33 (boot_block_addr s) 4096"
    using in_image_user [OF ok buf] by (auto simp: disjoint_runs_def image_size_def)
  then have "disjoint_runs buf 32 (dentry_addr s (of_int (directory_index s))) 32"
    using i nm(1) n63 by (intro entry_in_boot) auto
  from dir_read_next [OF b0 i nm(1) this, of 32] obtain m where
    r: "dir_read buf 32 s = Some (of_nat (length nm), s\<lparr>mem := m, directory_index := directory_index s + 1\<rparr>)"
    and c: "cstr (ptr m buf) nm" and m: "\<forall>x. (\<forall>i<33. x \<noteq> buf + of_nat i) \<longrightarrow> m x = mem s x"
    by (auto simp: nm(2))
  have mx: "m x = mem s x" if nw: "\<not> (user_window x \<and> W x)" for x
  proof (rule m [rule_format])
    fix i :: nat assume "i < 33"
    then show "x \<noteq> buf + of_nat i" using buf nw by (auto simp: run_of_def)
  qed
  let ?s1 = "s\<lparr>mem := m, directory_index := directory_index s + 1\<rparr>"
  let ?f = "(fd_entry k s)\<lparr>file_position := file_position (fd_entry k s) + of_nat (length nm)\<rparr>"
  note s0 = kernel_set_mem [where m = m, OF ok mx]
  have fe: "fd_entry j ?s1 = fd_entry j s" for j by (simp add: fd_entry_def cur_pcb_def cur_pcb_addr_def)
  have im: "same_image s ?s1" using s0(3) by (simp add: kernel_files_def same_image_def)
  have ok1: "kernel_ok W L lits ?s1"
    using ok calls_ok_same [of ?s1 s] mx by (intro kernel_okI [OF ok im]) (auto simp: fe kernel_ok_def console_inv_def)
  have sc: "own_screen ?s1 = own_screen s" using s0(2) by (simp add: own_screen_def tty_of_def page_of_def)
  have rd: "sys_read isr es fd buf 32 s = Some (of_nat (length nm), set_fd k ?f ?s1, es)"
    using k fd b0 r by (simp add: sys_read_def read_op_def Let_def fe)
  have "kernel_ok W L lits (set_fd k ?f ?s1)"
    using k ok by (intro kernel_set_fd [OF ok1]) (auto simp: kernel_ok_def calls_ok_def)
  moreover have "sint (stat_dir_entry_num (set_fd k ?f ?s1)) \<le> 63"
    using n63 same_image_stat(1) [of s "set_fd k ?f ?s1"] im by simp
  moreover have "entries_from (set_fd k ?f ?s1) = nms"
    using entries_from_same [of s "set_fd k ?f ?s1" "directory_index s + 1"] im n63 by (simp add: entries_from_def nm(3))
  ultimately show ?thesis
    using rd k i c sc by (intro exI [of _ "set_fd k ?f ?s1"]) (auto simp: kernel_dir_at_def fd_entry_set_fd)
qed

lemma kernel_read_dir_end:
  assumes ok: "kernel_ok W L lits s" and d: "kernel_dir_at s fd []" and buf: "run_of (\<lambda>x. user_window x \<and> W x) buf 33"
  shows "\<exists>s'. sys_read isr es fd buf 32 s = Some (0, s', es) \<and> kernel_ok W L lits s' \<and> own_screen s' = own_screen s"
proof -
  obtain k where k: "k \<in> {2..<8}" "fd = of_nat k" "flags (fd_entry k s) \<noteq> 0" "fops_read (pointer (fd_entry k s)) = Dir_read"
    and e: "entries_from s = []" using d by (auto simp: kernel_dir_at_def)
  note fd = descriptor_number [of k]
  have stop: "directory_index s \<ge> sint (stat_dir_entry_num s) - 1" using e by (simp add: entries_from_def)
  have b0: "buf \<noteq> 0" using buf by (simp add: run_of_def)
  let ?s1 = "s\<lparr>directory_index := - 1\<rparr>"
  have fe: "fd_entry j ?s1 = fd_entry j s" for j by (simp add: fd_entry_def cur_pcb_def cur_pcb_addr_def)
  have "same_image s ?s1" by (simp add: same_image_def)
  then have ok1: "kernel_ok W L lits ?s1"
    using ok calls_ok_same [of ?s1 s] by (intro kernel_okI [OF ok]) (auto simp: fe kernel_ok_def console_inv_def)
  have sc: "own_screen ?s1 = own_screen s" by (simp add: own_screen_def tty_of_def page_of_def)
  have "sys_read isr es fd buf 32 s = Some (0, set_fd k (fd_entry k s) ?s1, es)"
    using k fd b0 stop by (simp add: sys_read_def read_op_def dir_read_def Let_def fe)
  moreover have "kernel_ok W L lits (set_fd k (fd_entry k s) ?s1)"
    using k ok by (intro kernel_set_fd [OF ok1]) (auto simp: kernel_ok_def calls_ok_def)
  ultimately show ?thesis using sc by auto
qed

interpretation kernel_dir_io: dir_io "kernel_platform lo isr child lits junk" "\<lambda>(s, es). kernel_ok W L lits s" user_window
    "\<lambda>x. user_window x \<and> W x" L "\<lambda>(s, es). own_screen s" tty_putc "\<lambda>(s, es) (s', es'). kernel_files s s'"
    "\<lambda>(s, es). kernel_file_at s" "\<lambda>(s, es). kernel_lookup s" "\<lambda>(s, es). kernel_named s" "\<lambda>(s, es). free_fd s \<noteq> None"
    "\<lambda>(s, es). kernel_arg s" "\<lambda>(s, es). kernel_dir_at s" "\<lambda>(s, es). kernel_ready s" "\<lambda>(s, es). entries_from s"
  for lo isr child lits junk W L
proof (unfold_locales, goal_cases)
  case 1
  then show ?case by (simp add: split_def kernel_dir_at_same)
next
  case (2 s a)
  then obtain k es where s: "s = (k, es)" "kernel_ok W L lits k" "kernel_ready k" "cstr (ptr (mem k) a) [0x2E]" "a \<noteq> 0"
    by (cases s) (auto simp: run_of_def)
  from kernel_open_dir [OF s(2-5)] obtain j k' where
    o: "sys_open a k = Some (of_nat j, k')" "j < 8" "kernel_ok W L lits k'" "own_screen k' = own_screen k"
      "kernel_dir_at k' (of_nat j) (entries_from k)" by blast
  have "kernel_dir_at (k'\<lparr>if_flag := b\<rparr>) = kernel_dir_at k'" for b
    using kernel_dir_at_same [of k' "k'\<lparr>if_flag := b\<rparr>"] by (simp add: kernel_files_refl fun_eq_iff)
  then show ?case using o descriptor_number(3) [of j] by (simp add: s(1) kernel_trap_calls returned_def)
next
  case (3 s fd nm nms buf)
  then obtain k es where s: "s = (k, es)" "kernel_ok W L lits k" "kernel_dir_at k fd (nm # nms)" by (cases s) auto
  from kernel_read_dir [OF s(2,3) 3(3), of isr es] obtain k' where
    o: "sys_read isr es fd buf 32 k = Some (of_nat (length nm), k', es)" "kernel_ok W L lits k'" "own_screen k' = own_screen k"
      "kernel_dir_at k' fd nms" "cstr (ptr (mem k') buf) nm" by blast
  have "kernel_dir_at (k'\<lparr>if_flag := b\<rparr>) = kernel_dir_at k'" for b
    using kernel_dir_at_same [of k' "k'\<lparr>if_flag := b\<rparr>"] by (simp add: kernel_files_refl fun_eq_iff)
  moreover have "nm = dir_name k (directory_index k)" using s(3) entries_Cons(2) by (metis kernel_dir_at_def)
  then have "length nm \<le> 32" using entry_name_length [of k "nat (directory_index k)"] by (simp add: dir_name_def)
  ultimately show ?case using o load_bytes_cstr [OF o(5)] by (simp add: s(1) kernel_trap_calls returned_def)
next
  case (4 s fd buf)
  then obtain k es where s: "s = (k, es)" "kernel_ok W L lits k" "kernel_dir_at k fd []" by (cases s) auto
  from kernel_read_dir_end [OF s(2,3) 4(3), of isr es] show ?case by (auto simp: s(1) kernel_trap_calls returned_def)
qed

section \<open>The calls that fail\<close>

definition kernel_fds :: "'a kernel_scheme \<Rightarrow> nat \<Rightarrow> bool" where
  "kernel_fds s k \<longleftrightarrow> 2 \<le> k \<and> k < 8 \<and> flags (fd_entry k s) \<noteq> 0"

lemma closed_cases:
  assumes "closed (kernel_fds s) fd"
  shows "sint fd < 0 \<or> sint fd > 7 \<or> sint fd \<ge> 2 \<and> flags (fd_entry (unat fd) s) = 0"
proof (cases "sint fd < 0 \<or> sint fd > 7")
  case False
  then have "unat fd = nat (sint fd)" by (simp add: unat_nonneg_sint)
  then show ?thesis using assms False by (auto simp: closed_def kernel_fds_def)
qed auto

lemma kernel_bad_write:
  assumes ok: "kernel_ok W L lits s" and fd: "closed (kernel_fds s) fd \<or> fd = 0"
  shows "sys_write fd buf n s = Some (- 1, s)"
proof -
  have "fops_write (pointer (fd_entry 0 s)) = Invalid_write_op" using ok by (simp add: kernel_ok_def calls_ok_def)
  then show ?thesis using fd closed_cases [of s fd]
    by (auto simp: sys_write_def write_op_def invalid_write_op_def)
qed

lemma kernel_bad_close:
  assumes "closed (kernel_fds s) fd \<or> fd = 0 \<or> fd = 1"
  shows "sys_close fd s = Some (- 1, s)"
  using assms closed_cases [of s fd] by (auto simp: sys_close_def)

lemma kernel_bad_read:
  assumes ok: "kernel_ok W L lits s" and fd: "closed (kernel_fds s) fd \<or> fd = 1"
  shows "\<exists>s'. sys_read isr es fd buf n s = Some (- 1, s', es) \<and> kernel_ok W L lits s' \<and> kernel_files s s' \<and>
    own_screen s' = own_screen s \<and> mem s' = mem s"
proof (cases "fd = 1 \<and> \<not> sint n < 0 \<and> buf \<noteq> 0")
  case True
  have c: "flags (fd_entry 1 s) \<noteq> 0" "fops_read (pointer (fd_entry 1 s)) = Invalid_read_op"
    using ok by (simp_all add: kernel_ok_def calls_ok_def)
  let ?f = "(fd_entry 1 s)\<lparr>file_position := file_position (fd_entry 1 s) + - 1\<rparr>"
  have "sys_read isr es fd buf n s = Some (- 1, set_fd 1 ?f s, es)"
    using True c by (simp add: sys_read_def read_op_def invalid_read_op_def Let_def)
  moreover have "kernel_ok W L lits (set_fd 1 ?f s)" by (rule kernel_set_fd [OF ok]) simp_all
  moreover have "kernel_files s (set_fd 1 ?f s)" by (simp add: kernel_files_def fd_entry_set_fd same_image_refl)
  ultimately show ?thesis by auto
next
  case False
  then have "sys_read isr es fd buf n s = Some (- 1, s, es)"
    using fd closed_cases [of s fd] by (auto simp: sys_read_def)
  then show ?thesis using ok by (auto simp: kernel_files_refl)
qed

lemma kernel_bad_vidmap: "a < 0x8000000 \<Longrightarrow> vidmap a s = (- 1, cli s)"
  by (simp add: vidmap_def)

lemma find_upt_least:
  assumes "a \<le> k" "k < b" "P k" "\<And>j. j \<in> {a..<k} \<Longrightarrow> \<not> P j"
  shows "List.find P [a..<b] = Some k"
  unfolding find_Some_iff using assms by (intro exI [of _ "k - a"]) auto

lemma kernel_close_open:
  assumes ok: "kernel_ok W L lits s" and k: "k \<in> {2..<8}" "kernel_fds s k"
  shows "\<exists>s'. sys_close (of_nat k) s = Some (0, s') \<and> kernel_ok W L lits s' \<and> own_screen s' = own_screen s \<and>
    kernel_fds s' = (kernel_fds s)(k := False) \<and> same_image s s' \<and> mem s' = mem s"
proof -
  note n = descriptor_number [of k]
  have f: "flags (fd_entry k s) \<noteq> 0" using k by (simp add: kernel_fds_def)
  then have "fops_close (pointer (fd_entry k s)) \<noteq> Close_null" using ok k(1) by (simp add: kernel_ok_def calls_ok_def)
  let ?f = "(fd_entry k s)\<lparr>inode := 0, file_position := 0, flags := 0\<rparr>"
  obtain r where "close_op (fops_close (pointer (fd_entry k s))) (set_fd k ?f s) = Some (r, set_fd k ?f s)"
    using close_op_total [OF \<open>fops_close (pointer (fd_entry k s)) \<noteq> Close_null\<close>] by blast
  then have "sys_close (of_nat k) s = Some (0, set_fd k ?f s)"
    using k(1) n f by (simp add: sys_close_def Let_def fd_entry_set_fd)
  moreover have "kernel_ok W L lits (set_fd k ?f s)" using k(1) by (intro kernel_set_fd [OF ok]) auto
  moreover have "kernel_fds (set_fd k ?f s) = (kernel_fds s)(k := False)"
    by (auto simp: kernel_fds_def fd_entry_set_fd fun_eq_iff)
  ultimately show ?thesis by (auto simp: same_image_refl)
qed

lemma opened_fds:
  assumes "k \<in> {2..<8}"
  shows "kernel_fds (opened k ops ino s) = (kernel_fds s)(k := True)"
  using assms by (auto simp: kernel_fds_def opened_def fd_entry_set_fd fun_eq_iff)

lemma flag_fds [simp]: "kernel_fds (s\<lparr>if_flag := b\<rparr>) = kernel_fds s" "kernel_named (s\<lparr>if_flag := b\<rparr>) = kernel_named s"
proof -
  show "kernel_fds (s\<lparr>if_flag := b\<rparr>) = kernel_fds s" by (simp add: kernel_fds_def fun_eq_iff)
  show "kernel_named (s\<lparr>if_flag := b\<rparr>) = kernel_named s" by (rule kernel_names_same) (simp add: same_image_refl)
qed

interpretation kernel_checked_io: checked_io "kernel_platform lo isr child lits junk" "\<lambda>(s, es). kernel_ok W L lits s" user_window
    "\<lambda>x. user_window x \<and> W x" L "\<lambda>(s, es). own_screen s" tty_putc "\<lambda>(s, es) (s', es'). kernel_files s s'"
    "\<lambda>(s, es). kernel_file_at s" "\<lambda>(s, es). kernel_lookup s" "\<lambda>(s, es). kernel_named s" "\<lambda>(s, es). free_fd s \<noteq> None"
    "\<lambda>(s, es). kernel_arg s" "\<lambda>(s, es). kernel_fds s"
  for lo isr child lits junk W L
proof (unfold_locales, goal_cases)
  case 1
  then show ?case by (auto simp: split_def kernel_files_def kernel_fds_def fun_eq_iff)
next
  case (2 s fd buf n)
  then obtain k es where s: "s = (k, es)" "kernel_ok W L lits k" "closed (kernel_fds k) fd \<or> fd = 1" by (cases s) auto
  from kernel_bad_read [OF s(2,3), of isr es buf n] show ?case
    by (auto simp: s(1) kernel_trap_calls returned_def kernel_io.prints_def)
next
  case (3 s fd buf n)
  then obtain k es where s: "s = (k, es)" "kernel_ok W L lits k" "closed (kernel_fds k) fd \<or> fd = 0" by (cases s) auto
  from kernel_bad_write [OF s(2,3)] show ?case
    by (simp add: s(1,2) kernel_trap_calls returned_def kernel_io.prints_def kernel_files_refl)
next
  case (4 s fd a b)
  then obtain k es where s: "s = (k, es)" "kernel_ok W L lits k" "closed (kernel_fds k) fd \<or> fd = 0 \<or> fd = 1" by (cases s) auto
  from kernel_bad_close [OF s(3)] show ?case
    by (simp add: s(1,2) kernel_trap_calls returned_def kernel_io.prints_def kernel_files_refl)
next
  case (5 s scr a b)
  then obtain k es where s: "s = (k, es)" "kernel_ok W L lits k" by (cases s) auto
  then show ?case using kernel_bad_vidmap [OF 5(2), of k]
    by (simp add: kernel_trap_calls returned_def kernel_io.prints_def cli_def kernel_files_refl)
next
  case (6 s num a b c)
  then obtain k es where s: "s = (k, es)" "kernel_ok W L lits k" by (cases s) auto
  then show ?case by (simp add: kernel_trap_number [OF 6(2)] kernel_io.prints_def kernel_files_refl)
next
  case (7 s a j)
  then obtain k es where s: "s = (k, es)" "kernel_ok W L lits k" "cstr (ptr (mem k) a) [0x2E]" "a \<noteq> 0" by (cases s) (auto simp: run_of_def)
  have "free_fd k = Some j"
    unfolding free_fd_def using 7(4-6) by (intro find_upt_least) (auto simp: s(1) kernel_fds_def)
  then have "sys_open a k = Some (of_nat j, opened j (dir_fops k) 0 k)" using kernel_open_dot [OF s(2-4)] by simp
  moreover note o = opened_ok [where ops = "dir_fops k" and ino = 0, OF s(2) 7(4) disjI1 [OF refl]]
  moreover have "kernel_named (opened j (dir_fops k) 0 k) = kernel_named k" using kernel_names_same(1) [OF o(3)] .
  ultimately show ?case by (simp add: s(1) kernel_trap_calls returned_def opened_fds [OF 7(4)])
next
  case (8 s a)
  then obtain k es where s: "s = (k, es)" "kernel_ok W L lits k" "cstr (ptr (mem k) a) [0x2E]" "a \<noteq> 0" by (cases s) (auto simp: run_of_def)
  have "free_fd k = None"
    unfolding free_fd_def find_None_iff set_upt using 8(4) by (auto simp: s(1) kernel_fds_def)
  then show ?case using kernel_open_dot [OF s(2-4)]
    by (simp add: s(1,2) kernel_trap_calls returned_def kernel_io.prints_def kernel_files_refl)
next
  case (9 s j a b)
  then obtain k es where s: "s = (k, es)" "kernel_ok W L lits k" "kernel_fds k j" by (cases s) auto
  from kernel_close_open [OF s(2) 9(2) s(3)] obtain k' where c: "sys_close (of_nat j) k = Some (0, k')" "kernel_ok W L lits k'"
    "own_screen k' = own_screen k" "kernel_fds k' = (kernel_fds k)(j := False)" "same_image k k'" "mem k' = mem k" by blast
  then show ?case using kernel_names_same(1) [OF c(5)] by (simp add: s(1) kernel_trap_calls returned_def)
qed

section \<open>Properties\<close>

text \<open>C27. \<open>cat\<close>, from its argument to the screen: run with the name of a file as its argument it returns 0 and has
  typed on its terminal the bytes of the file, in order, but in whole reads of 1024 bytes: the
  kernel's \<open>read\<close> does not stop at the end of a file, so the last read brings along what lies
  behind the end in the file's last block.\<close>

theorem cat_types_file:
  fixes s :: "'a kernel_scheme"
  assumes ok: "kernel_ok W L lits s" and buf: "run_of (\<lambda>x. user_window x \<and> W x) buf 1024"
    and arg: "cstr (argument (cur_pcb s)) nm" "nm \<noteq> []" "length nm < 1024"
    and f: "kernel_lookup s nm = Some (c, len, cap)" "rounded len \<le> cap" and free: "free_fd s \<noteq> None"
  shows "\<exists>s' es'. cat_main (kernel_platform lo isr child lits junk) buf (s, es) = Some (0, (s', es')) \<and>
    own_screen s' = fold tty_putc (map c [0..<rounded len]) (own_screen s)"
proof -
  have a: "kernel_arg s = nm" by (rule cstr_kernel_arg [OF arg(1)])
  from kernel_file_io.cat_prints [of W L lits "(s, es)" buf c len cap lo isr child junk] show ?thesis
    using assms by (auto simp: a)
qed

text \<open>C28. \<open>ls\<close>, from its first call to the screen: at the start of a listing, with a free descriptor and no empty
  names, it returns 0 and has typed the names of the directory, the directory itself first and then every
  entry in order, one on each line.\<close>

theorem ls_types_directory:
  fixes s :: "'a kernel_scheme"
  assumes ok: "kernel_ok W L lits s" and "''.'' \<in> L" and buf: "run_of (\<lambda>x. user_window x \<and> W x) buf 33"
    and "free_fd s \<noteq> None" and "directory_index s = - 1"
    and "\<forall>i < nat (sint (stat_dir_entry_num s)) - 1. entry_name s i \<noteq> []"
  shows "\<exists>s' es'. ls_main (kernel_platform lo isr child lits junk) buf (s, es) = Some (0, (s', es')) \<and>
    own_screen s' = fold tty_putc (concat (map (\<lambda>nm. nm @ [0x0A])
      ([0x2E] # map (entry_name s) [0..<nat (sint (stat_dir_entry_num s)) - 1]))) (own_screen s)"
proof -
  let ?n = "sint (stat_dir_entry_num s)"
  have n: "1 \<le> ?n" using ok by (simp add: kernel_ok_def image_ok_def)
  have "entries_from s = map (dir_name s) [- 1..?n - 2]" by (simp add: entries_from_def assms(5))
  also have "[- 1..?n - 2] = - 1 # [0..?n - 2]" using n upto_rec1 [of "- 1" "?n - 2"] by simp
  also have "[0..?n - 2] = map int [0..<nat ?n - 1]"
    using n by (intro nth_equalityI) auto
  finally have e: "entries_from s = [0x2E] # map (entry_name s) [0..<nat ?n - 1]"
    by (simp add: dir_name_def comp_def)
  then have "[] \<notin> set (entries_from s)" using assms(6) by auto
  from kernel_dir_io.ls_prints [of W L lits "(s, es)" buf lo isr child junk] this show ?thesis
    using assms by (auto simp: e kernel_ready_def)
qed

text \<open>C29. The error tests of \<open>syserr\<close> on the kernel: with no descriptor beyond the standard two open and no files
  of the names that must not exist, all eight of them pass. Each prints its PASS line, nothing else
  is printed, and the count of failures is 0. So every call they make is refused: reads, writes and closes on bad and unopened
  descriptors, the seventh \<open>open\<close>, unknown and empty names, bad \<open>vidmap\<close> pointers and bad call numbers.\<close>

theorem syserr_tests_pass:
  fixes s :: "'a kernel_scheme"
  assumes ok: "kernel_ok W L lits s" and strs: "syserr_strs \<subseteq> L"
    and closed: "\<forall>k \<in> {2..<8}. flags (fd_entry k s) = 0"
    and names: "\<forall>i < 62. entry_name s i \<noteq> bytes_of ''helloo'' \<and> entry_name s i \<noteq> bytes_of ''shel''"
    and bufs: "\<forall>a \<in> {neg_buf fr, big_buf fr, unopened_buf fr, std_buf fr}. run_of user_window a 31"
  shows "\<exists>s' es'. run_tests (all_tests (kernel_platform lo isr child lits junk) fr) 0 (s, es) = Some (0, (s', es')) \<and>
    own_screen s' = fold tty_putc (concat (map bytes_of pass_lines)) (own_screen s)"
proof -
  have fds: "\<not> kernel_fds s k" if "k \<in> {2..<8}" for k using closed that by (simp add: kernel_fds_def)
  have nm: "\<not> kernel_named s (bytes_of ''helloo'')" "\<not> kernel_named s (bytes_of ''shel'')" "\<not> kernel_named s []"
    using names by (auto simp: kernel_named_def bytes_of_def)
  from kernel_checked_io.all_tests_pass [of W L lits "(s, es)" fr lo isr child junk] show ?thesis
    using ok strs fds nm bufs by (auto simp: kernel_checked_io.reaches_def kernel_io.prints_def)
qed

text \<open>C30. The counter on the kernel: counting to \<open>mx\<close> it types the decimal numerals from 1 to \<open>mx\<close>, one on each line
  and without leading zeros, whatever it had counted to before.\<close>

theorem counter_prints_numerals:
  fixes s :: "'a kernel_scheme"
  assumes "kernel_ok W L lits s" and "line [] \<in> L" and "run_of (\<lambda>x. user_window x \<and> W x) buf 11" and "i \<le> mx"
  shows "\<exists>s' es'. counter_loop (kernel_platform lo isr child lits junk) buf mx i (s, es) = Some (s', es') \<and>
    own_screen s' = fold tty_putc (concat (map numeral_line [unat i + 1..<unat mx + 1])) (own_screen s)"
  using kernel_io.counter_loop_prints [of W buf L lits "(s, es)" i mx lo isr child junk] assms by auto

section \<open>Witnesses\<close>

lemma sample_bytes: "cstr (argument (cur_pcb sample_user)) (bytes_of ''shell'')"
  unfolding sample_user_fields by (rule cstr_lit) (simp add: bytes_of_def)

theorem cat_types_file_witness:
  "\<exists>c s' es'. kernel_lookup sample_user (bytes_of ''shell'') = Some (c, 5000, 8192) \<and>
     cat_main (kernel_platform sample_locals (\<lambda>_ s. s) (\<lambda>_ _. None) sample_lits 0) 0x8100000 (sample_user, []) = Some (0, (s', es')) \<and>
     own_screen s' = fold tty_putc (map c [0..<5120]) (own_screen sample_user)"
proof -
  obtain c where c: "kernel_lookup sample_user (bytes_of ''shell'') = Some (c, 5000, 8192)" by (rule sample_shell_file)
  from cat_types_file [OF sample_user_ok sample_run sample_bytes _ _ c, of sample_locals "\<lambda>_ s. s" "\<lambda>_ _. None" 0 "[]"] c
  show ?thesis by (simp add: bytes_of_def rounded_def sample_free_fd)
qed

theorem ls_types_directory_witness:
  "\<exists>s' es'. ls_main (kernel_platform sample_locals (\<lambda>_ s. s) (\<lambda>_ _. None) sample_lits 0) 0x8100000 (sample_user, []) = Some (0, (s', es')) \<and>
     own_screen s' = fold tty_putc (bytes_of ''.'' @ [0x0A] @ bytes_of ''shell'' @ [0x0A]) (own_screen sample_user)"
proof -
  have "\<forall>i < nat (sint (stat_dir_entry_num sample_user)) - 1. entry_name sample_user i \<noteq> []"
    by (simp add: sample_user_image sample_shell_name bytes_of_def)
  moreover have "''.'' \<in> set sample_strs" by (simp add: sample_strs_def)
  ultimately show ?thesis
    using ls_types_directory [OF sample_user_ok _ sample_run, of sample_locals "\<lambda>_ s. s" "\<lambda>_ _. None" 0 "[]"]
    by (simp add: sample_free_fd sample_user_fields sample_user_image sample_shell_name bytes_of_def)
qed

theorem syserr_tests_pass_witness:
  "\<exists>s' es'. run_tests (all_tests (kernel_platform sample_locals (\<lambda>_ s. s) (\<lambda>_ _. None) sample_lits 0)
       \<lparr>main_buf = 0x8100000, neg_buf = 0x8100000, big_buf = 0x8100000, unopened_buf = 0x8100000, std_buf = 0x8100000\<rparr>)
       0 (sample_user, []) = Some (0, (s', es')) \<and>
     own_screen s' = fold tty_putc (concat (map bytes_of pass_lines)) (own_screen sample_user)"
proof (rule syserr_tests_pass [OF sample_user_ok])
  let ?fr = "\<lparr>main_buf = 0x8100000, neg_buf = 0x8100000, big_buf = 0x8100000, unopened_buf = 0x8100000, std_buf = 0x8100000\<rparr>"
  show "syserr_strs \<subseteq> set sample_strs" by (auto simp: syserr_strs_def sample_strs_def)
  show "\<forall>k \<in> {2..<8}. flags (fd_entry k sample_user) = 0" by (simp add: sample_user_fields)
  have "run_of user_window 0x8100000 31" by (rule run_of_mono [OF sample_run]) auto
  then show "\<forall>a \<in> {neg_buf ?fr, big_buf ?fr, unopened_buf ?fr, std_buf ?fr}. run_of user_window a 31" by simp
  show "\<forall>i < 62. entry_name sample_user i \<noteq> bytes_of ''helloo'' \<and> entry_name sample_user i \<noteq> bytes_of ''shel''"
  proof (intro allI impI)
    fix i :: nat assume "i < 62"
    then show "entry_name sample_user i \<noteq> bytes_of ''helloo'' \<and> entry_name sample_user i \<noteq> bytes_of ''shel''"
      using sample_no_name [of i] by (cases "i = 0") (simp_all add: sample_shell_name bytes_of_def)
  qed
qed

theorem counter_prints_numerals_witness:
  "\<exists>s' es'. counter_loop (kernel_platform sample_locals (\<lambda>_ s. s) (\<lambda>_ _. None) sample_lits 0) 0x8100000 100 0 (sample_user, []) = Some (s', es') \<and>
     own_screen s' = fold tty_putc (concat (map numeral_line [1..<101])) (own_screen sample_user)"
proof -
  have "line [] \<in> set sample_strs" by (simp add: sample_strs_def)
  from counter_prints_numerals [OF sample_user_ok this sample_run, of 0 100 sample_locals "\<lambda>_ s. s" "\<lambda>_ _. None" 0 "[]"]
  show ?thesis by simp
qed

end
