(* ===== verification/Fish_Blink.thy ===== *)
theory Fish_Blink
  imports User_Programs
begin

text \<open>
  The blinking characters of the fish program: \<^verbatim>\<open>fish/blink.S\<close> and the memory routines of
  \<^verbatim>\<open>fish/fish.c\<close> it calls. The structures are a linked list inside a static array; both the
  list and the video memory are bytes of the program's memory.
\<close>

section \<open>The data\<close>

text \<open>The addresses of the global variables.\<close>

record fish_vars =
  blink_array :: u32
  mp1_list_head :: u32
  vmem_base_addr :: u32

text \<open>The offsets of the fields of \<open>struct mp1_blink_struct\<close>.\<close>

abbreviation (input) LOCATION :: u32 where "LOCATION \<equiv> 0"
abbreviation (input) ON_CHAR :: u32 where "ON_CHAR \<equiv> 2"
abbreviation (input) OFF_CHAR :: u32 where "OFF_CHAR \<equiv> 3"
abbreviation (input) ON_LENGTH :: u32 where "ON_LENGTH \<equiv> 4"
abbreviation (input) OFF_LENGTH :: u32 where "OFF_LENGTH \<equiv> 6"
abbreviation (input) COUNTDOWN :: u32 where "COUNTDOWN \<equiv> 8"
abbreviation (input) STATUS :: u32 where "STATUS \<equiv> 10"
abbreviation (input) NEXT :: u32 where "NEXT \<equiv> 12"
abbreviation (input) STRUCT_SIZE :: i32 where "STRUCT_SIZE \<equiv> 16"

definition load16 :: "mem \<Rightarrow> u32 \<Rightarrow> u16" where
  "load16 m a = ucast (m a) OR push_bit 8 (ucast (m (a + 1)))"

definition store16 :: "mem \<Rightarrow> u32 \<Rightarrow> u16 \<Rightarrow> mem" where
  "store16 m a x = m(a := ucast x, a + 1 := ucast (drop_bit 8 x))"

section \<open>Memory routines\<close>

definition ece391_memset :: "u32 \<Rightarrow> u8 \<Rightarrow> i32 \<Rightarrow> mem \<Rightarrow> mem" where
  "ece391_memset memory c n m = fold (\<lambda>i m. m(memory + of_nat i := c)) [0..<nat (sint n)] m"

definition ece391_memcpy :: "u32 \<Rightarrow> u32 \<Rightarrow> i32 \<Rightarrow> mem \<Rightarrow> i32 \<times> mem" where
  "ece391_memcpy dest src n m = (0, fold (\<lambda>i m. m(dest + of_nat i := m (src + of_nat i))) [0..<nat (sint n)] m)"

text \<open>A structure is free when its location is 0.\<close>

definition mp1_malloc :: "fish_vars \<Rightarrow> mem \<Rightarrow> u32" where
  "mp1_malloc v m =
     (case List.find (\<lambda>i. load16 m (blink_array v + 16 * of_nat i + LOCATION) = 0) [0..<80 * 25] of
        None \<Rightarrow> 0 | Some i \<Rightarrow> blink_array v + 16 * of_nat i)"

definition mp1_free :: "u32 \<Rightarrow> mem \<Rightarrow> mem" where
  "mp1_free memory = ece391_memset memory 0 STRUCT_SIZE"

section \<open>The tick\<close>

definition mp1_poke :: "fish_vars \<Rightarrow> u32 \<Rightarrow> u8 \<Rightarrow> mem \<Rightarrow> mem" where
  "mp1_poke v eax cl m = m(load32 m (vmem_base_addr v) + eax := cl)"

text \<open>One round of the loop of the tasklet, up to \<open>next_loop\<close>.\<close>

definition tasklet_step :: "fish_vars \<Rightarrow> u32 \<Rightarrow> mem \<Rightarrow> mem" where
  "tasklet_step v ebx m0 =
     (let m = store16 m0 (ebx + COUNTDOWN) (load16 m0 (ebx + COUNTDOWN) - 1)
      in if 0 < sint (load16 m (ebx + COUNTDOWN)) then m
         else
           let eax = push_bit 1 (ucast (load16 m (ebx + LOCATION)));
               (m, dx) = (if load16 m (ebx + STATUS) AND 1 = 0
                  then let m = mp1_poke v eax (m (ebx + ON_CHAR)) m in (m, load16 m (ebx + ON_LENGTH))
                  else let m = mp1_poke v eax (m (ebx + OFF_CHAR)) m in (m, load16 m (ebx + OFF_LENGTH)));
               m = store16 m (ebx + COUNTDOWN) dx
           in store16 m (ebx + STATUS) (load16 m (ebx + STATUS) XOR 1))"

partial_function (option) tasklet_loop :: "fish_vars \<Rightarrow> u32 \<Rightarrow> mem \<Rightarrow> mem option" where
  "tasklet_loop v ebx m =
     (if ebx = 0 then Some m
      else let m = tasklet_step v ebx m in tasklet_loop v (load32 m (ebx + NEXT)) m)"

definition mp1_rtc_tasklet :: "fish_vars \<Rightarrow> mem \<Rightarrow> mem option" where
  "mp1_rtc_tasklet v m = tasklet_loop v (load32 m (mp1_list_head v)) m"

section \<open>The commands\<close>

text \<open>\<open>tmp\<close> is the address of the command's temporary structure on the stack.\<close>

definition add_insert :: "fish_vars \<Rightarrow> u32 \<Rightarrow> u32 \<Rightarrow> mem \<Rightarrow> mem" where
  "add_insert v tmp edx m0 =
     (let (_, m) = ece391_memcpy edx tmp STRUCT_SIZE m0;
          m = store32 m (edx + NEXT) (load32 m (mp1_list_head v));
          m = store32 m (mp1_list_head v) edx
      in mp1_poke v (push_bit 1 (ucast (load16 m (edx + LOCATION)))) (m (edx + ON_CHAR)) m)"

definition mp1_ioctl_add :: "fish_vars \<Rightarrow> u32 \<Rightarrow> u32 \<Rightarrow> mem \<Rightarrow> i32 \<times> mem" where
  "mp1_ioctl_add v tmp arg m0 =
     (let (eax, m) = ece391_memcpy tmp arg STRUCT_SIZE m0
      in if eax \<noteq> 0 then (- 1, m)
         else if load16 m (tmp + LOCATION) \<ge> 80 * 25 then (- 1, m)
         else
           let m = store16 m (tmp + STATUS) 1;
               m = store16 m (tmp + COUNTDOWN) (load16 m (tmp + ON_LENGTH));
               eax = mp1_malloc v m
           in if eax = 0 then (- 1, m) else (0, add_insert v tmp eax m))"

partial_function (option) find_loop :: "mem \<Rightarrow> u16 \<Rightarrow> u32 \<Rightarrow> u32 option" where
  "find_loop m ax ebx =
     (if ebx = 0 then Some 0
      else if load16 m (ebx + LOCATION) = ax then Some ebx
      else find_loop m ax (load32 m (ebx + NEXT)))"

definition mp1_find_helper :: "fish_vars \<Rightarrow> u32 \<Rightarrow> mem \<Rightarrow> u32 option" where
  "mp1_find_helper v arg m = find_loop m (ucast arg) (load32 m (mp1_list_head v))"

partial_function (option) remove_find_prev :: "mem \<Rightarrow> u32 \<Rightarrow> u32 \<Rightarrow> u32 option" where
  "remove_find_prev m eax edx =
     (if load32 m edx = eax then Some edx else remove_find_prev m eax (load32 m edx + NEXT))"

definition mp1_ioctl_remove :: "fish_vars \<Rightarrow> u32 \<Rightarrow> mem \<Rightarrow> (i32 \<times> mem) option" where
  "mp1_ioctl_remove v arg m =
     do { eax \<leftarrow> mp1_find_helper v arg m;
          if eax = 0 then Some (- 1, m)
          else do {
            edx \<leftarrow> remove_find_prev m eax (mp1_list_head v);
            Some (0, mp1_free eax (store32 m edx (load32 m (eax + NEXT)))) } }"

text \<open>The flags of \<open>testb\<close> say that the result is negative when its top bit is set; \<open>cmovl\<close> asks for that.\<close>

definition sync_copy :: "fish_vars \<Rightarrow> u32 \<Rightarrow> u32 \<Rightarrow> mem \<Rightarrow> mem" where
  "sync_copy v esi edi m0 =
     (let m = store16 m0 (edi + ON_LENGTH) (load16 m0 (esi + ON_LENGTH));
          m = store16 m (edi + OFF_LENGTH) (load16 m (esi + OFF_LENGTH));
          m = store16 m (edi + COUNTDOWN) (load16 m (esi + COUNTDOWN));
          m = store16 m (edi + STATUS) (load16 m (esi + STATUS));
          eax = push_bit 1 (ucast (load16 m (edi + LOCATION)));
          cl = (if sint (m (edi + STATUS) AND 1) < 0 then m (edi + ON_CHAR) else m (edi + OFF_CHAR))
      in mp1_poke v eax cl m)"

definition mp1_ioctl_sync :: "fish_vars \<Rightarrow> u32 \<Rightarrow> mem \<Rightarrow> (i32 \<times> mem) option" where
  "mp1_ioctl_sync v arg m =
     do { esi \<leftarrow> mp1_find_helper v (drop_bit 16 arg) m;
          if esi = 0 then Some (- 1, m)
          else do {
            edi \<leftarrow> mp1_find_helper v (arg AND 0xFFFF) m;
            if edi = 0 then Some (- 1, m) else Some (0, sync_copy v esi edi m) } }"

definition mp1_ioctl_find :: "fish_vars \<Rightarrow> u32 \<Rightarrow> u32 \<Rightarrow> mem \<Rightarrow> (i32 \<times> mem) option" where
  "mp1_ioctl_find v tmp arg m0 =
     (let (eax, m) = ece391_memcpy tmp arg 2 m0
      in if eax \<noteq> 0 then Some (- 1, m)
         else do {
           p \<leftarrow> mp1_find_helper v (ucast (load16 m tmp)) m;
           if p = 0 then Some (- 1, m)
           else case ece391_memcpy arg p STRUCT_SIZE m of (eax, m) \<Rightarrow> Some (if eax = 0 then 0 else - 1, m) })"

abbreviation (input) RTC_ADD :: u32 where "RTC_ADD \<equiv> 0"
abbreviation (input) RTC_REMOVE :: u32 where "RTC_REMOVE \<equiv> 1"
abbreviation (input) RTC_FIND :: u32 where "RTC_FIND \<equiv> 2"
abbreviation (input) RTC_SYNC :: u32 where "RTC_SYNC \<equiv> 3"

text \<open>The jump table has four entries; a jump through a word behind it is \<^term>\<open>None\<close>.\<close>

definition mp1_ioctl :: "fish_vars \<Rightarrow> u32 \<Rightarrow> u32 \<Rightarrow> u32 \<Rightarrow> mem \<Rightarrow> (i32 \<times> mem) option" where
  "mp1_ioctl v tmp arg cmd m =
     (if cmd = RTC_ADD then Some (mp1_ioctl_add v tmp arg m)
      else if cmd = RTC_REMOVE then mp1_ioctl_remove v arg m
      else if cmd = RTC_FIND then mp1_ioctl_find v tmp arg m
      else if cmd = RTC_SYNC then mp1_ioctl_sync v arg m
      else None)"

end
