(* ===== verification/Fish_Program.thy ===== *)
theory Fish_Program
  imports Fish_Blink
begin

text \<open>The fish program itself, \<^verbatim>\<open>fish/fish.c\<close>, over the system calls of a platform.\<close>

text \<open>The addresses of the file names and of the local variables whose address is taken.\<close>

record fish_frame =
  file0 :: u32
  file1 :: u32
  garbage :: u32
  ret_val :: u32
  blink_struct :: u32
  frames_struct :: u32
  c0 :: u32
  c1 :: u32
  ioctl_tmp :: u32

abbreviation (input) LINE_END :: u8 where "LINE_END \<equiv> 0x0A"
abbreviation (input) WAIT :: nat where "WAIT \<equiv> 100"

definition on_mem :: "'s platform \<Rightarrow> (mem \<Rightarrow> mem) \<Rightarrow> 's \<Rightarrow> 's" where
  "on_mem pf f s = set_umem pf (f (umem pf s)) s"

definition call_ioctl :: "'s platform \<Rightarrow> fish_vars \<Rightarrow> fish_frame \<Rightarrow> u32 \<Rightarrow> u32 \<Rightarrow> 's \<Rightarrow> (i32 \<times> 's) option" where
  "call_ioctl pf v fr arg cmd s =
     do { (r, m) \<leftarrow> mp1_ioctl v (ioctl_tmp fr) arg cmd (umem pf s);
          Some (r, set_umem pf m s) }"

definition mp1_set_video_mode :: "'s platform \<Rightarrow> fish_vars \<Rightarrow> 's \<Rightarrow> (u32 \<times> 's) option" where
  "mp1_set_video_mode pf v s =
     do { (r, s) \<leftarrow> ece391_vidmap pf (vmem_base_addr v) s;
          Some (if r = - 1 then 0 else load32 (umem pf s) (vmem_base_addr v), s) }"

text \<open>One of the four waiting loops: \<open>n\<close> ticks of the clock, each followed by the tasklet.\<close>

fun wait_ticks :: "'s platform \<Rightarrow> fish_vars \<Rightarrow> fish_frame \<Rightarrow> i32 \<Rightarrow> nat \<Rightarrow> 's \<Rightarrow> 's option" where
  "wait_ticks pf v fr rtc_fd 0 s = Some s"
| "wait_ticks pf v fr rtc_fd (Suc n) s =
     do { (_, s) \<leftarrow> ece391_read pf rtc_fd (garbage fr) 4 s;
          m \<leftarrow> mp1_rtc_tasklet v (umem pf s);
          wait_ticks pf v fr rtc_fd n (set_umem pf m s) }"

text \<open>The next character of one of the two pictures, unless its line is over.\<close>

definition read_char :: "'s platform \<Rightarrow> i32 \<Rightarrow> u32 \<Rightarrow> bool \<Rightarrow> 's \<Rightarrow> (bool \<times> 's) option" where
  "read_char pf fd c eof s =
     (if umem pf s c \<noteq> LINE_END then
        do { (num_bytes, s) \<leftarrow> ece391_read pf fd c 1 s;
             if num_bytes = 0 then Some (True, poke pf c LINE_END s) else Some (eof, s) }
      else Some (eof, s))"

definition frame_struct :: "u32 \<Rightarrow> u8 \<Rightarrow> u8 \<Rightarrow> i32 \<Rightarrow> mem \<Rightarrow> mem" where
  "frame_struct p a b location m0 =
     (let m = m0(p + ON_CHAR := (if a = LINE_END then 0x20 else a));
          m = m(p + OFF_CHAR := (if b = LINE_END then 0x20 else b))
      in store16 m (p + LOCATION) (ucast location))"

partial_function (option) column_loop ::
  "'s platform \<Rightarrow> fish_vars \<Rightarrow> fish_frame \<Rightarrow> i32 \<Rightarrow> i32 \<Rightarrow> i32 \<Rightarrow> i32 \<Rightarrow> bool \<Rightarrow> bool \<Rightarrow> 's \<Rightarrow> (bool \<times> bool \<times> 's) option" where
  "column_loop pf v fr fd0 fd1 row col eof0 eof1 s =
     do { (eof0, s) \<leftarrow> read_char pf fd0 (c0 fr) eof0 s;
          (eof1, s) \<leftarrow> read_char pf fd1 (c1 fr) eof1 s;
          let a = umem pf s (c0 fr); b = umem pf s (c1 fr)
          in if a = LINE_END \<and> b = LINE_END then Some (eof0, eof1, s)
             else do {
               s \<leftarrow> (if (a \<noteq> 0x20 \<and> a \<noteq> LINE_END) \<or> (b \<noteq> 0x20 \<and> b \<noteq> LINE_END)
                    then map_option snd (call_ioctl pf v fr (frames_struct fr) RTC_ADD
                      (on_mem pf (frame_struct (frames_struct fr) a b (row * 80 + col + 40)) s))
                    else Some s);
               column_loop pf v fr fd0 fd1 row (col + 1) eof0 eof1 s } }"

text \<open>The end of a row: a picture that is over is closed, once more in every further row.\<close>

definition end_row :: "'s platform \<Rightarrow> i32 \<Rightarrow> u32 \<Rightarrow> bool \<Rightarrow> 's \<Rightarrow> 's option" where
  "end_row pf fd c eof s =
     (if eof then map_option snd (ece391_close pf fd (poke pf c LINE_END s)) else Some (poke pf c 0x30 s))"

partial_function (option) row_loop ::
  "'s platform \<Rightarrow> fish_vars \<Rightarrow> fish_frame \<Rightarrow> i32 \<Rightarrow> i32 \<Rightarrow> i32 \<Rightarrow> bool \<Rightarrow> bool \<Rightarrow> 's \<Rightarrow> 's option" where
  "row_loop pf v fr fd0 fd1 row eof0 eof1 s =
     (if eof0 \<and> eof1 then Some s
      else do {
        (eof0, eof1, s) \<leftarrow> column_loop pf v fr fd0 fd1 row 0 eof0 eof1 s;
        s \<leftarrow> end_row pf fd0 (c0 fr) eof0 s;
        s \<leftarrow> end_row pf fd1 (c1 fr) eof1 s;
        row_loop pf v fr fd0 fd1 (row + 1) eof0 eof1 s })"

definition open_frame :: "'s platform \<Rightarrow> u32 \<Rightarrow> 's \<Rightarrow> (i32 \<times> 's) option" where
  "open_frame pf f s =
     do { (fd, s) \<leftarrow> ece391_open pf f s;
          if sint fd < 0 then do { (_, s) \<leftarrow> ece391_halt pf (- 1) s; Some (fd, s) } else Some (fd, s) }"

definition add_frames :: "'s platform \<Rightarrow> fish_vars \<Rightarrow> fish_frame \<Rightarrow> 's \<Rightarrow> 's option" where
  "add_frames pf v fr s =
     (let s = poke pf (c1 fr) 0x30 (poke pf (c0 fr) 0x30 s);
          s = on_mem pf (\<lambda>m. store16 (store16 m (frames_struct fr + ON_LENGTH) 15) (frames_struct fr + OFF_LENGTH) 15) s
      in do {
        (fd0, s) \<leftarrow> open_frame pf (file0 fr) s;
        (fd1, s) \<leftarrow> open_frame pf (file1 fr) s;
        row_loop pf v fr fd0 fd1 0 False False s })"

definition main_struct :: "u32 \<Rightarrow> mem \<Rightarrow> mem" where
  "main_struct p m0 =
     (let m = m0(p + ON_CHAR := 0x49, p + OFF_CHAR := 0x4D);
          m = store16 m (p + ON_LENGTH) 7;
          m = store16 m (p + OFF_LENGTH) 6
      in store16 m (p + LOCATION) (6 * 80 + 60))"

definition fish_main :: "'s platform \<Rightarrow> fish_vars \<Rightarrow> fish_frame \<Rightarrow> 's \<Rightarrow> (i32 \<times> 's) option" where
  "fish_main pf v fr s =
     do { (p, s) \<leftarrow> mp1_set_video_mode pf v (on_mem pf (ece391_memset (blink_array v) 0 (STRUCT_SIZE * 80 * 25)) s);
          if p = 0 then Some (- 1, s)
          else do {
            (rtc_fd, s) \<leftarrow> ece391_open pf (literal pf ''rtc'') s;
            s \<leftarrow> add_frames pf v fr s;
            (r, s) \<leftarrow> ece391_write pf rtc_fd (ret_val fr) 4 (on_mem pf (\<lambda>m. store32 m (ret_val fr) 32) s);
            s \<leftarrow> wait_ticks pf v fr rtc_fd WAIT (on_mem pf (\<lambda>m. store32 m (ret_val fr) r) s);
            (_, s) \<leftarrow> call_ioctl pf v fr (blink_struct fr) RTC_ADD (on_mem pf (main_struct (blink_struct fr)) s);
            s \<leftarrow> wait_ticks pf v fr rtc_fd WAIT s;
            (_, s) \<leftarrow> call_ioctl pf v fr (push_bit 16 40 OR (6 * 80 + 60)) RTC_SYNC s;
            s \<leftarrow> wait_ticks pf v fr rtc_fd WAIT s;
            (_, s) \<leftarrow> call_ioctl pf v fr (6 * 80 + 60) RTC_REMOVE s;
            s \<leftarrow> wait_ticks pf v fr rtc_fd WAIT s;
            (_, s) \<leftarrow> ece391_close pf rtc_fd s;
            Some (0, s) } }"

end
