(* ===== verification/Fish_Spec.thy ===== *)
theory Fish_Spec
  imports Fish_Program
begin

text \<open>
  What the blinking characters promise: the linked list in the program's memory implements a
  list of records, and the commands and the tick implement operations on that list
  and on the characters of the screen.
\<close>

section \<open>Structures in memory\<close>

definition span :: "u32 \<Rightarrow> nat \<Rightarrow> u32 set" where
  "span a n = (\<lambda>i. a + of_nat i) ` {..<n}"

lemma spanI: "i < n \<Longrightarrow> a + of_nat i \<in> span a n"
  by (simp add: span_def)

lemma span_16:
  "span p 16 = {p, p + 1, p + 2, p + 3, p + 4, p + 5, p + 6, p + 7, p + 8, p + 9, p + 10, p + 11, p + 12, p + 13, p + 14, p + 15}"
  by (simp add: span_def lessThan_nat_numeral lessThan_Suc insert_commute)

lemma span_4: "span p 4 = {p, p + 1, p + 2, p + 3}"
  by (simp add: span_def lessThan_nat_numeral lessThan_Suc insert_commute)

text \<open>A structure without its link.\<close>

record blink =
  loc :: u16
  on_c :: u8
  off_c :: u8
  on_len :: u16
  off_len :: u16
  left :: u16
  phase :: u16

definition blink_at :: "mem \<Rightarrow> u32 \<Rightarrow> blink" where
  "blink_at m p =
     \<lparr>loc = load16 m p, on_c = m (p + 2), off_c = m (p + 3), on_len = load16 m (p + 4), off_len = load16 m (p + 6),
      left = load16 m (p + 8), phase = load16 m (p + 10)\<rparr>"

definition next_at :: "mem \<Rightarrow> u32 \<Rightarrow> u32" where
  "next_at m p = load32 m (p + 12)"

lemma load16_store16_same: "load16 (store16 m a x) a = x"
proof -
  have "load16 (store16 m a x) a = ucast (ucast x :: u8) OR push_bit 8 (ucast (ucast (drop_bit 8 x) :: u8))"
    by (simp add: load16_def store16_def)
  then show ?thesis by (auto intro!: bit_word_eqI simp: bit_simps)
qed

lemma blink_at_store16:
  "blink_at (store16 m p x) p = (blink_at m p)\<lparr>loc := x\<rparr>"
  "blink_at (store16 m (p + 4) x) p = (blink_at m p)\<lparr>on_len := x\<rparr>"
  "blink_at (store16 m (p + 6) x) p = (blink_at m p)\<lparr>off_len := x\<rparr>"
  "blink_at (store16 m (p + 8) x) p = (blink_at m p)\<lparr>left := x\<rparr>"
  "blink_at (store16 m (p + 10) x) p = (blink_at m p)\<lparr>phase := x\<rparr>"
  unfolding blink_at_def
  by (simp_all add: load16_store16_same) (simp_all add: load16_def store16_def add.assoc)

lemma next_at_store16:
  "next_at (store16 m p x) p = next_at m p"
  "next_at (store16 m (p + 4) x) p = next_at m p"
  "next_at (store16 m (p + 6) x) p = next_at m p"
  "next_at (store16 m (p + 8) x) p = next_at m p"
  "next_at (store16 m (p + 10) x) p = next_at m p"
  by (simp_all add: next_at_def load32_def store16_def add.assoc)

lemma store16_other:
  "x \<notin> span p 16 \<Longrightarrow> store16 m p y x = m x"
  "x \<notin> span p 16 \<Longrightarrow> store16 m (p + 4) y x = m x"
  "x \<notin> span p 16 \<Longrightarrow> store16 m (p + 6) y x = m x"
  "x \<notin> span p 16 \<Longrightarrow> store16 m (p + 8) y x = m x"
  "x \<notin> span p 16 \<Longrightarrow> store16 m (p + 10) y x = m x"
  by (simp_all add: span_16 store16_def add.assoc)

lemma blink_cong:
  assumes "\<And>x. x \<in> span p 16 \<Longrightarrow> m' x = m x"
  shows "blink_at m' p = blink_at m p" and "next_at m' p = next_at m p"
  using assms unfolding span_16 by (simp_all add: blink_at_def next_at_def load16_def load32_def add.assoc)

lemma load32_span_cong:
  assumes "\<And>x. x \<in> span p 4 \<Longrightarrow> m' x = m x"
  shows "load32 m' p = load32 m p"
  using assms unfolding span_4 by (simp add: load32_def)

section \<open>One tick\<close>

text \<open>What a tick does to a structure, and the character it draws if it draws one.\<close>

definition tick :: "blink \<Rightarrow> blink \<times> u8 option" where
  "tick b0 =
     (let b = b0\<lparr>left := left b0 - 1\<rparr>
      in if 0 < sint (left b) then (b, None)
         else if phase b AND 1 = 0 then (b\<lparr>left := on_len b, phase := phase b XOR 1\<rparr>, Some (on_c b))
         else (b\<lparr>left := off_len b, phase := phase b XOR 1\<rparr>, Some (off_c b)))"

lemma tick_loc [simp]: "loc (fst (tick b)) = loc b"
  by (simp add: tick_def Let_def)

definition cell_of :: "fish_vars \<Rightarrow> mem \<Rightarrow> u16 \<Rightarrow> u32" where
  "cell_of v m l = load32 m (vmem_base_addr v) + ucast l * 2"

lemma tasklet_step_eq:
  assumes var: "span p 16 \<inter> span (vmem_base_addr v) 4 = {}"
    and cell: "cell_of v m (loc (blink_at m p)) \<notin> span p 16"
  shows "blink_at (tasklet_step v p m) p = fst (tick (blink_at m p))"
    and "next_at (tasklet_step v p m) p = next_at m p"
    and "x \<notin> span p 16 \<Longrightarrow> tasklet_step v p m x =
      (case snd (tick (blink_at m p)) of None \<Rightarrow> m x | Some c \<Rightarrow> if x = cell_of v m (loc (blink_at m p)) then c else m x)"
proof -
  let ?b = "blink_at m p" and ?a = "cell_of v m (loc (blink_at m p))"
  define m1 where "m1 = store16 m (p + 8) (left ?b - 1)"
  have b1: "blink_at m1 p = ?b\<lparr>left := left ?b - 1\<rparr>" "next_at m1 p = next_at m p" by (simp_all add: m1_def blink_at_store16 next_at_store16)
  have o1: "m1 x = m x" if "x \<notin> span p 16" for x using that by (simp add: m1_def store16_other)
  have "load32 m1 (vmem_base_addr v) = load32 m (vmem_base_addr v)"
    using var by (intro load32_span_cong o1) auto
  then have poke: "mp1_poke v (ucast (loc ?b) * 2) c m1 = m1(?a := c)" for c by (simp add: mp1_poke_def cell_of_def)
  have b2: "blink_at (m1(?a := c)) p = blink_at m1 p" "next_at (m1(?a := c)) p = next_at m1 p" for c
    using cell by (intro blink_cong; auto)+
  have fields: "load16 m1 p = loc ?b" "m1 (p + 2) = on_c ?b" "m1 (p + 3) = off_c ?b" "load16 m1 (p + 8) = left ?b - 1"
    "load16 m1 (p + 10) = phase ?b"
    using b1(1) by (simp_all add: blink_at_def)
  have fields2: "load16 (m1(?a := c)) (p + 4) = on_len ?b" "load16 (m1(?a := c)) (p + 6) = off_len ?b" for c
    using b1(1) b2(1) [of c] by (simp_all add: blink_at_def)
  have ph: "load16 m' (p + 10) = phase (blink_at m' p)" "load16 m' (p + 8) = left (blink_at m' p)" for m' by (simp_all add: blink_at_def)
  have step: "tasklet_step v p m =
    (case snd (tick ?b) of None \<Rightarrow> m1
     | Some c \<Rightarrow> store16 (store16 (m1(?a := c)) (p + 8) (left (fst (tick ?b)))) (p + 10) (phase (fst (tick ?b))))"
    unfolding tasklet_step_def Let_def ph(2) [of m]
    unfolding m1_def [symmetric]
    by (simp add: fields fields2 poke ph(1) [of "store16 _ _ _"] blink_at_store16 b2 b1 tick_def Let_def)
  show "blink_at (tasklet_step v p m) p = fst (tick ?b)"
    unfolding step by (simp add: tick_def Let_def blink_at_store16 b2 b1)
  show "next_at (tasklet_step v p m) p = next_at m p"
    unfolding step by (simp add: tick_def Let_def next_at_store16 b2 b1)
  show "tasklet_step v p m x = (case snd (tick ?b) of None \<Rightarrow> m x | Some c \<Rightarrow> if x = ?a then c else m x)" if "x \<notin> span p 16"
    unfolding step using that by (simp add: o1 store16_other split: option.splits)
qed

section \<open>The list\<close>

fun linked :: "mem \<Rightarrow> u32 \<Rightarrow> u32 list \<Rightarrow> bool" where
  "linked m p [] \<longleftrightarrow> p = 0"
| "linked m p (q # qs) \<longleftrightarrow> p = q \<and> q \<noteq> 0 \<and> linked m (next_at m q) qs"

lemma linked_cong:
  "(\<And>q x. q \<in> set qs \<Longrightarrow> x \<in> span q 16 \<Longrightarrow> m' x = m x) \<Longrightarrow> linked m' p qs = linked m p qs"
proof (induction qs arbitrary: p)
  case (Cons q qs)
  have "next_at m' q = next_at m q" by (rule blink_cong(2)) (rule Cons.prems, simp_all)
  moreover have "linked m' (next_at m q) qs = linked m (next_at m q) qs"
    by (rule Cons.IH) (rule Cons.prems, simp_all)
  ultimately show ?case by simp
qed simp

definition slot :: "fish_vars \<Rightarrow> nat \<Rightarrow> u32" where
  "slot v i = blink_array v + 16 * of_nat i"

definition slots :: "fish_vars \<Rightarrow> u32 set" where
  "slots v = slot v ` {..<2000}"

definition video :: "fish_vars \<Rightarrow> mem \<Rightarrow> u32 set" where
  "video v m = span (load32 m (vmem_base_addr v)) 4000"

text \<open>The array, the two variables and the video memory are apart, and the array does not hold the null pointer.\<close>

definition layout :: "fish_vars \<Rightarrow> mem \<Rightarrow> bool" where
  "layout v m \<longleftrightarrow> 0 \<notin> span (blink_array v) 32000 \<and>
     span (blink_array v) 32000 \<inter> (span (mp1_list_head v) 4 \<union> span (vmem_base_addr v) 4 \<union> video v m) = {} \<and>
     span (mp1_list_head v) 4 \<inter> (span (vmem_base_addr v) 4 \<union> video v m) = {} \<and> span (vmem_base_addr v) 4 \<inter> video v m = {}"

lemma slot_index: "slot v i = blink_array v + of_nat (16 * i)"
  by (simp add: slot_def)

lemma slot_span: "q \<in> slots v \<Longrightarrow> span q 16 \<subseteq> span (blink_array v) 32000"
proof
  fix x assume "q \<in> slots v" "x \<in> span q 16"
  then obtain i j where "i < 2000" "j < 16" "x = slot v i + of_nat j" by (auto simp: slots_def span_def)
  then show "x \<in> span (blink_array v) 32000"
    using spanI [of "16 * i + j" 32000 "blink_array v"] by (simp add: slot_index add.assoc)
qed

lemma slots_apart:
  assumes "p \<in> slots v" "q \<in> slots v" "p \<noteq> q"
  shows "span p 16 \<inter> span q 16 = {}"
proof -
  obtain i j where ij: "i < 2000" "p = slot v i" "j < 2000" "q = slot v j" using assms(1,2) by (auto simp: slots_def)
  have "slot v i + of_nat a \<noteq> slot v j + of_nat b" if "a < 16" "b < 16" for a b
  proof
    assume "slot v i + of_nat a = slot v j + of_nat b"
    then have "(of_nat (16 * i + a) :: u32) = of_nat (16 * j + b)" by (simp add: slot_def add.assoc)
    then have "16 * i + a = 16 * j + b" using ij that by (subst (asm) of_nat_u32_inj) auto
    then have "i = j" using that by presburger
    then show False using assms(3) ij by simp
  qed
  then show ?thesis unfolding ij by (auto simp: span_def)
qed

lemma slot_inj: "i < 2000 \<Longrightarrow> j < 2000 \<Longrightarrow> slot v i = slot v j \<longleftrightarrow> i = j"
  using of_nat_u32_inj [of "16 * i" "16 * j"] by (simp add: slot_index)

lemma slot_apart:
  assumes "layout v m" "q \<in> slots v"
  shows "q \<noteq> 0" "span q 16 \<inter> span (mp1_list_head v) 4 = {}" "span q 16 \<inter> span (vmem_base_addr v) 4 = {}"
    "span q 16 \<inter> video v m = {}"
proof -
  have "q \<in> span (blink_array v) 32000" using slot_span [OF assms(2)] spanI [of 0 16 q] by auto
  then show "q \<noteq> 0" using assms(1) by (auto simp: layout_def)
  show "span q 16 \<inter> span (mp1_list_head v) 4 = {}" "span q 16 \<inter> span (vmem_base_addr v) 4 = {}" "span q 16 \<inter> video v m = {}"
    using assms(1) slot_span [OF assms(2)] unfolding layout_def by blast+
qed

lemma layout_cong:
  assumes "load32 m' (vmem_base_addr v) = load32 m (vmem_base_addr v)"
  shows "layout v m' = layout v m" and "video v m' = video v m" and "cell_of v m' l = cell_of v m l"
  using assms by (simp_all add: layout_def video_def cell_of_def)

lemma vmem_same:
  assumes "layout v m" and "\<And>x. x \<in> span (vmem_base_addr v) 4 \<Longrightarrow> m' x = m x"
  shows "layout v m'" and "video v m' = video v m" and "cell_of v m' l = cell_of v m l"
  using layout_cong [OF load32_span_cong [OF assms(2)]] assms(1) by simp_all

section \<open>The screen\<close>

text \<open>The characters of the 2000 cells; the attributes in between are never written.\<close>

definition screen_of :: "fish_vars \<Rightarrow> mem \<Rightarrow> nat \<Rightarrow> u8" where
  "screen_of v m k = (if k < 2000 then m (load32 m (vmem_base_addr v) + of_nat (2 * k)) else 0)"

lemma cell_of_index: "cell_of v m l = load32 m (vmem_base_addr v) + of_nat (2 * unat l)"
proof -
  have "of_nat (unat l) = (ucast l :: u32)" by (rule of_nat_unat)
  then show ?thesis by (simp add: cell_of_def)
qed

lemma cell_in_video: "unat l < 2000 \<Longrightarrow> cell_of v m l \<in> video v m"
  unfolding cell_of_index video_def by (rule spanI) simp

lemma cell_of_eq: "k < 2000 \<Longrightarrow> unat l < 2000 \<Longrightarrow> load32 m (vmem_base_addr v) + of_nat (2 * k) = cell_of v m l \<longleftrightarrow> k = unat l"
  unfolding cell_of_index add_left_cancel by (subst of_nat_u32_inj) auto

lemma screen_same:
  assumes "layout v m" and "\<And>x. x \<in> span (vmem_base_addr v) 4 \<union> video v m \<Longrightarrow> m' x = m x"
  shows "screen_of v m' = screen_of v m"
proof
  fix k
  have "load32 m' (vmem_base_addr v) = load32 m (vmem_base_addr v)" using assms(2) by (intro load32_span_cong) simp
  moreover have "load32 m (vmem_base_addr v) + of_nat (2 * k) \<in> video v m" if "k < 2000"
    unfolding video_def by (rule spanI) (use that in simp)
  ultimately show "screen_of v m' k = screen_of v m k" using assms(2) by (simp add: screen_of_def)
qed

lemma cell_drawn:
  assumes "layout v m" "unat l < 2000" and "m' (cell_of v m l) = c"
    and "\<And>x. x \<in> span (vmem_base_addr v) 4 \<union> video v m \<Longrightarrow> x \<noteq> cell_of v m l \<Longrightarrow> m' x = m x"
  shows "screen_of v m' = (screen_of v m)(unat l := c)"
proof
  fix k
  have "cell_of v m l \<notin> span (vmem_base_addr v) 4" using cell_in_video [OF assms(2)] assms(1) by (auto simp: layout_def)
  then have vm: "load32 m' (vmem_base_addr v) = load32 m (vmem_base_addr v)" using assms(4) by (intro load32_span_cong) auto
  have "load32 m (vmem_base_addr v) + of_nat (2 * k) \<in> video v m" if "k < 2000"
    unfolding video_def by (rule spanI) (use that in simp)
  then show "screen_of v m' k = ((screen_of v m)(unat l := c)) k"
    using assms(2-4) vm cell_of_eq [of k l m v] cell_of_index [of v m l] by (cases "k < 2000") (auto simp: screen_of_def)
qed

section \<open>The tick of the list\<close>

definition redraw :: "blink \<Rightarrow> u8 option \<Rightarrow> (nat \<Rightarrow> u8) \<Rightarrow> nat \<Rightarrow> u8" where
  "redraw b c scr = (case c of None \<Rightarrow> scr | Some c \<Rightarrow> scr(unat (loc b) := c))"

fun run_ticks :: "blink list \<Rightarrow> (nat \<Rightarrow> u8) \<Rightarrow> blink list \<times> (nat \<Rightarrow> u8)" where
  "run_ticks [] scr = ([], scr)"
| "run_ticks (b # bs) scr =
     (let (b', c) = tick b; (bs', scr') = run_ticks bs (redraw b c scr) in (b' # bs', scr'))"

lemma tasklet_loop_ticks:
  "layout v m \<Longrightarrow> linked m p qs \<Longrightarrow> distinct qs \<Longrightarrow> set qs \<subseteq> slots v \<Longrightarrow>
     (\<And>q. q \<in> set qs \<Longrightarrow> unat (loc (blink_at m q)) < 2000) \<Longrightarrow>
   \<exists>m'. tasklet_loop v p m = Some m' \<and> linked m' p qs \<and>
     (map (blink_at m') qs, screen_of v m') = run_ticks (map (blink_at m) qs) (screen_of v m) \<and>
     (\<forall>x. x \<notin> (\<Union>q \<in> set qs. span q 16) \<union> video v m \<longrightarrow> m' x = m x)"
proof (induction qs arbitrary: m p)
  case Nil
  then show ?case by (simp add: tasklet_loop.simps [of v 0 m])
next
  case (Cons q qs)
  let ?b = "blink_at m q" and ?m = "tasklet_step v q m"
  have q: "q \<in> slots v" "q \<noteq> 0" "p = q" "unat (loc ?b) < 2000" using Cons.prems by auto
  note apart = slot_apart [OF Cons.prems(1) q(1)] and cell = cell_in_video [OF q(4), of v m]
  have nc: "cell_of v m (loc ?b) \<notin> span q 16" using cell apart(4) by auto
  note st = tasklet_step_eq [OF apart(3) nc]
  have same: "?m x = m x" if "x \<notin> span q 16" "x \<notin> video v m" for x using st(3) [OF that(1)] cell that(2) by (auto split: option.splits)
  have var: "?m x = m x" if "x \<in> span (vmem_base_addr v) 4" for x
    using that apart(3) Cons.prems(1) by (intro same) (auto simp: layout_def)
  note lay = vmem_same [OF Cons.prems(1) var]
  have other: "?m x = m x" if "r \<in> set qs" "x \<in> span r 16" for r x
    using that slots_apart [of r v q] q(1) Cons.prems(3,4) slot_apart(4) [OF Cons.prems(1), of r] by (intro same) auto
  have link: "linked ?m (next_at ?m q) qs" unfolding st(2) using linked_cong [of qs ?m m, OF other] Cons.prems(2) by simp
  have bl: "blink_at ?m r = blink_at m r" if "r \<in> set qs" for r using other that by (intro blink_cong) simp
  have off: "x \<notin> span q 16" if "x \<in> span (vmem_base_addr v) 4 \<union> video v m" for x using that apart(3,4) by blast
  have scr: "screen_of v ?m = redraw ?b (snd (tick ?b)) (screen_of v m)"
  proof (cases "snd (tick ?b)")
    case None
    have "?m x = m x" if "x \<in> span (vmem_base_addr v) 4 \<union> video v m" for x
      using st(3) [OF off [OF that]] by (simp add: None)
    from screen_same [OF Cons.prems(1) this] show ?thesis by (simp add: redraw_def None)
  next
    case (Some c)
    have "?m (cell_of v m (loc ?b)) = c" using st(3) [OF nc] Some by simp
    moreover have "?m x = m x" if "x \<in> span (vmem_base_addr v) 4 \<union> video v m" "x \<noteq> cell_of v m (loc ?b)" for x
      using st(3) [OF off [OF that(1)]] that(2) by (simp add: Some)
    ultimately have "screen_of v ?m = (screen_of v m)(unat (loc ?b) := c)" by (rule cell_drawn [OF Cons.prems(1) q(4)])
    then show ?thesis by (simp add: redraw_def Some)
  qed
  have "distinct qs" "set qs \<subseteq> slots v" "\<And>r. r \<in> set qs \<Longrightarrow> unat (loc (blink_at ?m r)) < 2000"
    using Cons.prems(3-5) bl by auto
  from Cons.IH [OF lay(1) link this] obtain m' where
    m': "tasklet_loop v (next_at ?m q) ?m = Some m'" "linked m' (next_at ?m q) qs"
      "(map (blink_at m') qs, screen_of v m') = run_ticks (map (blink_at ?m) qs) (screen_of v ?m)"
    and f: "\<forall>x. x \<notin> (\<Union>q \<in> set qs. span q 16) \<union> video v ?m \<longrightarrow> m' x = ?m x" by blast
  have mq: "m' x = ?m x" if "x \<in> span q 16" for x
  proof (rule f [rule_format])
    have "x \<notin> span r 16" if "r \<in> set qs" for r
      using \<open>x \<in> span q 16\<close> that slots_apart [of q v r] q(1) Cons.prems(3,4) by auto
    then show "x \<notin> (\<Union>q \<in> set qs. span q 16) \<union> video v ?m" using that apart(4) lay(2) by auto
  qed
  then have keep: "blink_at m' q = fst (tick ?b)" "next_at m' q = next_at ?m q"
    using blink_cong [of q m' ?m] st(1) by auto
  have "tasklet_loop v p m = Some m'"
    using m'(1) q(2,3) by (simp add: tasklet_loop.simps [of v q m] next_at_def)
  moreover have "linked m' p (q # qs)" using m'(2) keep(2) q(2,3) by simp
  moreover have "(map (blink_at m') (q # qs), screen_of v m') = run_ticks (map (blink_at m) (q # qs)) (screen_of v m)"
  proof -
    have same_bl: "map (blink_at ?m) qs = map (blink_at m) qs" using bl by simp
    have "run_ticks (map (blink_at m) qs) (redraw ?b (snd (tick ?b)) (screen_of v m)) = (map (blink_at m') qs, screen_of v m')"
      using m'(3) [unfolded scr same_bl] by (rule sym)
    then show ?thesis by (simp add: keep(1) split_def)
  qed
  moreover have "m' x = m x" if "x \<notin> (\<Union>r \<in> set (q # qs). span r 16) \<union> video v m" for x
    using that f same lay(2) by simp
  ultimately show ?case by blast
qed

section \<open>The program's data as a list\<close>

text \<open>
  \<open>ps\<close> are the structures of the list. Every other structure of the array is free, which
  the program tells by its location 0, so no structure of the list may have that location.
\<close>

definition blinks :: "fish_vars \<Rightarrow> mem \<Rightarrow> u32 list \<Rightarrow> bool" where
  "blinks v m ps \<longleftrightarrow> layout v m \<and> linked m (load32 m (mp1_list_head v)) ps \<and> distinct ps \<and> set ps \<subseteq> slots v \<and>
     (\<forall>q \<in> slots v - set ps. loc (blink_at m q) = 0) \<and>
     (\<forall>q \<in> set ps. loc (blink_at m q) \<noteq> 0 \<and> unat (loc (blink_at m q)) < 2000)"

definition fish_rep :: "fish_vars \<Rightarrow> mem \<Rightarrow> blink list \<Rightarrow> (nat \<Rightarrow> u8) \<Rightarrow> bool" where
  "fish_rep v m bs scr \<longleftrightarrow> (\<exists>ps. blinks v m ps \<and> map (blink_at m) ps = bs) \<and> screen_of v m = scr"

lemma run_ticks_loc: "map loc (fst (run_ticks bs scr)) = map loc bs"
  by (induction bs arbitrary: scr) (simp_all add: split_def Let_def)

lemma tasklet_rep:
  assumes "fish_rep v m bs scr"
  shows "\<exists>m'. mp1_rtc_tasklet v m = Some m' \<and> fish_rep v m' (fst (run_ticks bs scr)) (snd (run_ticks bs scr))"
proof -
  obtain ps where ps: "blinks v m ps" "map (blink_at m) ps = bs" "screen_of v m = scr" using assms by (auto simp: fish_rep_def)
  note b = ps(1) [unfolded blinks_def]
  obtain m' where t: "tasklet_loop v (load32 m (mp1_list_head v)) m = Some m'" "linked m' (load32 m (mp1_list_head v)) ps"
      "(map (blink_at m') ps, screen_of v m') = run_ticks bs scr"
    and f: "\<forall>x. x \<notin> (\<Union>q \<in> set ps. span q 16) \<union> video v m \<longrightarrow> m' x = m x"
    using tasklet_loop_ticks [of v m _ ps] b ps(2,3) by blast
  have "x \<notin> span q 16" if "q \<in> set ps" "x \<in> span (mp1_list_head v) 4 \<union> span (vmem_base_addr v) 4" for q x
    using that slot_apart [of v m q] b by blast
  moreover have "span (mp1_list_head v) 4 \<inter> video v m = {}" "span (vmem_base_addr v) 4 \<inter> video v m = {}"
    using b by (simp_all add: layout_def Int_Un_distrib)
  ultimately have keep: "m' x = m x" if "x \<in> span (mp1_list_head v) 4 \<union> span (vmem_base_addr v) 4" for x
    using that f by blast
  have head: "load32 m' (mp1_list_head v) = load32 m (mp1_list_head v)" using keep by (intro load32_span_cong) simp
  have lay: "layout v m'" using vmem_same(1) [of v m m'] keep b by simp
  have free: "blink_at m' q = blink_at m q" if "q \<in> slots v - set ps" for q
  proof (rule blink_cong(1))
    fix x assume x: "x \<in> span q 16"
    have "x \<notin> span r 16" if "r \<in> set ps" for r using slots_apart [of q v r] \<open>q \<in> slots v - set ps\<close> b that x by blast
    moreover have "x \<notin> video v m" using slot_apart(4) [of v m q] \<open>q \<in> slots v - set ps\<close> b x by blast
    ultimately show "m' x = m x" using f by simp
  qed
  have "map loc (map (blink_at m') ps) = map loc (map (blink_at m) ps)"
    using t(3) run_ticks_loc [of bs scr] ps(2) by (metis fst_conv)
  then have "loc (blink_at m' q) = loc (blink_at m q)" if "q \<in> set ps" for q using that by simp
  then have "blinks v m' ps" using b lay t(2) head free by (simp add: blinks_def)
  then show ?thesis using t(1,3) by (auto simp: mp1_rtc_tasklet_def fish_rep_def split_def intro!: exI [of _ ps] dest!: sym [of "(_, _)"])
qed

section \<open>Copying and allocating\<close>

lemma fold_copy:
  "disjoint_runs d n a n \<Longrightarrow> k \<le> n \<Longrightarrow> k \<le> 2 ^ 32 \<Longrightarrow>
     fold (\<lambda>i m. m(d + of_nat i := m (a + of_nat i))) [0..<k] m = copy_bytes m d a k"
proof (induction k)
  case (Suc k)
  have "disjoint_runs d k (a + of_nat k) 1"
    using disjoint_runs_shift [where i = 0 and j = k and n' = k and k' = 1, OF Suc.prems(1)] Suc.prems(2) by simp
  from copy_bytes_add [OF this] have "copy_bytes (copy_bytes m d a k) (d + of_nat k) (a + of_nat k) 1 = copy_bytes m d a (Suc k)"
    by simp
  then have step: "(copy_bytes m d a k)(d + of_nat k := copy_bytes m d a k (a + of_nat k)) = copy_bytes m d a (Suc k)"
    by (simp only: One_nat_def copy_bytes_1)
  have ih: "fold (\<lambda>i m. m(d + of_nat i := m (a + of_nat i))) [0..<k] m = copy_bytes m d a k"
    by (rule Suc.IH) (use Suc.prems in simp_all)
  show ?case by (simp only: upt_Suc_append le0 fold_append comp_apply ih fold_simps step)
qed simp

lemma disjoint_spans: "span a n \<inter> span b k = {} \<longleftrightarrow> disjoint_runs a n b k"
  by (auto simp: span_def disjoint_runs_def)

lemma memcpy_struct:
  assumes "span d 16 \<inter> span a 16 = {}"
  obtains m' where "ece391_memcpy d a 16 m = (0, m')" and "blink_at m' d = blink_at m a" and "next_at m' d = next_at m a"
    and "\<And>x. x \<notin> span d 16 \<Longrightarrow> m' x = m x"
proof (rule that [of "copy_bytes m d a 16"])
  let ?m = "copy_bytes m d a 16"
  show "ece391_memcpy d a 16 m = (0, ?m)"
    using assms fold_copy [of d 16 a 16 m] by (simp add: ece391_memcpy_def disjoint_spans del: upt_Suc)
  have c: "?m (d + of_nat j) = m (a + of_nat j)" if "j < 16" for j using that by (simp add: copy_bytes_inside)
  have "?m d = m a" using c [of 0] by simp
  moreover have "?m (d + numeral k) = m (a + numeral k)" if "numeral k < (16 :: nat)" for k using c [OF that] by simp
  moreover have "?m (d + 1) = m (a + 1)" using c [of 1] by simp
  ultimately show "blink_at ?m d = blink_at m a" "next_at ?m d = next_at m a"
    by (simp_all add: blink_at_def next_at_def load16_def load32_def add.assoc)
  show "?m x = m x" if "x \<notin> span d 16" for x
    using that unfolding copy_bytes_def by (intro store_bytes_outside) (auto simp: span_def)
qed

definition free_slots :: "fish_vars \<Rightarrow> mem \<Rightarrow> nat set" where
  "free_slots v m = {i. i < 2000 \<and> loc (blink_at m (slot v i)) = 0}"

lemma mp1_malloc_eq:
  "mp1_malloc v m = (if free_slots v m = {} then 0 else slot v (LEAST i. i \<in> free_slots v m))"
proof -
  have l: "load16 m (blink_array v + 16 * of_nat i + 0) = loc (blink_at m (slot v i))" for i by (simp add: blink_at_def slot_def)
  show ?thesis
  proof (cases "free_slots v m = {}")
    case True
    then have "List.find (\<lambda>i. load16 m (blink_array v + 16 * of_nat i + 0) = 0) [0..<2000] = None"
      unfolding find_None_iff l by (auto simp: free_slots_def)
    then show ?thesis using True by (simp add: mp1_malloc_def del: upt_Suc)
  next
    case False
    define i where "i = (LEAST i. i \<in> free_slots v m)"
    have mem: "i \<in> free_slots v m" using False LeastI_ex [of "\<lambda>i. i \<in> free_slots v m"] unfolding i_def by blast
    then have i: "i < 2000" "loc (blink_at m (slot v i)) = 0" by (simp_all add: free_slots_def)
    have "loc (blink_at m (slot v j)) \<noteq> 0" if "j < i" for j
    proof
      assume "loc (blink_at m (slot v j)) = 0"
      then have "j \<in> free_slots v m" using that i(1) by (simp add: free_slots_def)
      then show False using that not_less_Least unfolding i_def by blast
    qed
    then have "List.find (\<lambda>i. load16 m (blink_array v + 16 * of_nat i + 0) = 0) [0..<2000] = Some i"
      unfolding l find_upt_Some using i by blast
    then show ?thesis using False by (simp add: mp1_malloc_def slot_def i_def [symmetric] del: upt_Suc)
  qed
qed

lemma mp1_malloc_list:
  assumes "blinks v m ps"
  shows "length ps \<le> 2000" and "length ps = 2000 \<Longrightarrow> mp1_malloc v m = 0"
    and "length ps < 2000 \<Longrightarrow> mp1_malloc v m \<in> slots v - set ps"
proof -
  have d: "distinct ps" "set ps \<subseteq> slots v" and fr: "\<And>q. q \<in> slots v - set ps \<Longrightarrow> loc (blink_at m q) = 0"
    and oc: "\<And>q. q \<in> set ps \<Longrightarrow> loc (blink_at m q) \<noteq> 0"
    using assms by (simp_all add: blinks_def)
  have card: "card (slots v) = 2000" "finite (slots v)"
    unfolding slots_def by (simp_all add: card_image inj_on_def slot_inj)
  have ps: "card (set ps) = length ps" using d by (simp add: distinct_card)
  show "length ps \<le> 2000" using card_mono [OF card(2) d(2)] card(1) ps by simp
  have "slot v i \<in> slots v - set ps" if "i \<in> free_slots v m" for i using that oc by (auto simp: free_slots_def slots_def)
  moreover have "i \<in> free_slots v m" if "slot v i \<in> slots v - set ps" "i < 2000" for i using that fr by (auto simp: free_slots_def)
  moreover have "i < 2000" if "i \<in> free_slots v m" for i using that by (simp add: free_slots_def)
  ultimately have free: "free_slots v m = {i. i < 2000 \<and> slot v i \<in> slots v - set ps}" by blast
  show "mp1_malloc v m = 0" if "length ps = 2000"
  proof -
    have "set ps = slots v" using card_subset_eq [OF card(2) d(2)] card(1) ps that by simp
    then show ?thesis by (simp add: mp1_malloc_eq free)
  qed
  show "mp1_malloc v m \<in> slots v - set ps" if "length ps < 2000"
  proof -
    have "set ps \<noteq> slots v" using that card(1) ps by auto
    then obtain i where "i < 2000" "slot v i \<in> slots v - set ps" using d(2) by (auto simp: slots_def)
    then have "i \<in> free_slots v m" by (simp add: free)
    then have "(LEAST i. i \<in> free_slots v m) \<in> free_slots v m" by (rule LeastI)
    then show ?thesis using \<open>i \<in> free_slots v m\<close> by (auto simp: mp1_malloc_eq free)
  qed
qed

section \<open>Adding a structure\<close>

definition globals :: "fish_vars \<Rightarrow> mem \<Rightarrow> u32 set" where
  "globals v m = span (blink_array v) 32000 \<union> span (mp1_list_head v) 4 \<union> span (vmem_base_addr v) 4 \<union> video v m"

lemma slot_globals: "q \<in> slots v \<Longrightarrow> x \<in> span q 16 \<Longrightarrow> x \<in> globals v m"
  using slot_span by (auto simp: globals_def)

lemma blinks_cong:
  assumes "blinks v m ps" and eq: "\<And>x. x \<in> globals v m \<Longrightarrow> m' x = m x"
  shows "blinks v m' ps" "map (blink_at m') ps = map (blink_at m) ps" "screen_of v m' = screen_of v m"
    "load32 m' (mp1_list_head v) = load32 m (mp1_list_head v)" "globals v m' = globals v m" "cell_of v m' l = cell_of v m l"
proof -
  have lay: "layout v m" and sub: "set ps \<subseteq> slots v" using assms(1) by (simp_all add: blinks_def)
  have var: "\<And>x. x \<in> span (vmem_base_addr v) 4 \<Longrightarrow> m' x = m x" using eq by (simp add: globals_def)
  note lay' = vmem_same [OF lay var]
  show "load32 m' (mp1_list_head v) = load32 m (mp1_list_head v)" using eq by (intro load32_span_cong) (simp add: globals_def)
  moreover have bl: "blink_at m' q = blink_at m q" if "q \<in> slots v" for q
    by (rule blink_cong(1)) (rule eq, rule slot_globals [OF that])
  moreover have "linked m' r ps = linked m r ps" for r
    by (rule linked_cong) (use eq slot_globals sub in blast)
  ultimately show "blinks v m' ps" using assms(1) lay' sub by (auto simp: blinks_def)
  show "map (blink_at m') ps = map (blink_at m) ps" using bl sub by auto
  show "screen_of v m' = screen_of v m" using eq by (intro screen_same [OF lay]) (auto simp: globals_def)
  show "globals v m' = globals v m" "cell_of v m' l = cell_of v m l" using lay' by (simp_all add: globals_def)
qed

lemma blinks_insert:
  assumes b: "blinks v m ps" and p: "p \<in> slots v - set ps"
    and new: "blink_at m' p = b" "loc b \<noteq> 0" "unat (loc b) < 2000" "next_at m' p = load32 m (mp1_list_head v)"
    and head: "load32 m' (mp1_list_head v) = p" and c: "m' (cell_of v m (loc b)) = c"
    and eq: "\<And>x. x \<in> globals v m \<Longrightarrow> x \<notin> span p 16 \<Longrightarrow> x \<notin> span (mp1_list_head v) 4 \<Longrightarrow> x \<noteq> cell_of v m (loc b) \<Longrightarrow> m' x = m x"
  shows "blinks v m' (p # ps)" "map (blink_at m') ps = map (blink_at m) ps" "screen_of v m' = (screen_of v m)(unat (loc b) := c)"
proof -
  have lay: "layout v m" and sub: "set ps \<subseteq> slots v" using b by (simp_all add: blinks_def)
  have cell: "cell_of v m (loc b) \<in> video v m" by (rule cell_in_video [OF new(3)])
  have off: "x \<notin> span p 16 \<and> x \<notin> span (mp1_list_head v) 4 \<and> x \<noteq> cell_of v m (loc b)" if "x \<in> span (vmem_base_addr v) 4" for x
    using that lay cell slot_apart(3) [OF lay, of p] p unfolding layout_def by blast
  have var: "\<And>x. x \<in> span (vmem_base_addr v) 4 \<Longrightarrow> m' x = m x" using off by (intro eq) (auto simp: globals_def)
  have other: "m' x = m x" if "q \<in> slots v" "q \<noteq> p" "x \<in> span q 16" for q x
  proof (rule eq)
    show "x \<in> globals v m" by (rule slot_globals [OF that(1,3)])
    show "x \<notin> span p 16" using slots_apart [of p v q] p that by blast
    show "x \<notin> span (mp1_list_head v) 4" "x \<noteq> cell_of v m (loc b)" using slot_apart [OF lay that(1)] that(3) cell by blast+
  qed
  have bl: "blink_at m' q = blink_at m q" if "q \<in> slots v" "q \<noteq> p" for q by (rule blink_cong(1)) (rule other [OF that])
  have ne: "q \<noteq> p" if "q \<in> set ps" for q using p that by blast
  have "linked m' r ps = linked m r ps" for r by (rule linked_cong) (use other sub ne in blast)
  then have "linked m' (load32 m' (mp1_list_head v)) (p # ps)"
    using b slot_apart(1) [OF lay, of p] p by (simp add: head new(4) blinks_def)
  then show "blinks v m' (p # ps)"
    using b p bl ne new vmem_same(1) [OF lay var] sub by (auto simp: blinks_def)
  show "map (blink_at m') ps = map (blink_at m) ps" using bl ne sub by auto
  show "screen_of v m' = (screen_of v m)(unat (loc b) := c)"
  proof (rule cell_drawn [where m = m and m' = m' and c = c, OF lay new(3) c])
    fix x assume x: "x \<in> span (vmem_base_addr v) 4 \<union> video v m" "x \<noteq> cell_of v m (loc b)"
    then show "m' x = m x"
      using off lay slot_apart(4) [OF lay, of p] p by (intro eq) (auto simp: globals_def layout_def)
  qed
qed

definition add_blink :: "blink \<Rightarrow> blink list \<Rightarrow> (nat \<Rightarrow> u8) \<Rightarrow> i32 \<times> blink list \<times> (nat \<Rightarrow> u8)" where
  "add_blink b bs scr =
     (if 2000 \<le> unat (loc b) \<or> length bs = 2000 then (- 1, bs, scr)
      else (0, b\<lparr>phase := 1, left := on_len b\<rparr> # bs, scr(unat (loc b) := on_c b)))"

lemma blink_at_next: "blink_at (store32 m (p + 12) x) p = blink_at m p"
  by (simp add: blink_at_def load16_def store32_def add.assoc)

lemma store32_other: "x \<notin> span p 16 \<Longrightarrow> store32 m (p + 12) y x = m x" "x \<notin> span p 4 \<Longrightarrow> store32 m p y x = m x"
  by (simp_all add: span_16 span_4 store32_def add.assoc)

definition tmp_ok :: "fish_vars \<Rightarrow> mem \<Rightarrow> u32 \<Rightarrow> bool" where
  "tmp_ok v m tmp \<longleftrightarrow> span tmp 16 \<inter> globals v m = {}"

text \<open>The command up to the allocation: what it has made in its temporary structure.\<close>

lemma add_prepared:
  assumes tmp: "span tmp 16 \<inter> span arg 16 = {}"
  obtains m1 m2 where "\<And>x. x \<notin> span tmp 16 \<Longrightarrow> m1 x = m x" "\<And>x. x \<notin> span tmp 16 \<Longrightarrow> m2 x = m x"
    and "blink_at m2 tmp = (blink_at m arg)\<lparr>phase := 1, left := on_len (blink_at m arg)\<rparr>"
    and "mp1_ioctl_add v tmp arg m =
      (if 2000 \<le> unat (loc (blink_at m arg)) then (- 1, m1)
       else if mp1_malloc v m2 = 0 then (- 1, m2) else (0, add_insert v tmp (mp1_malloc v m2) m2))"
proof -
  let ?b = "blink_at m arg"
  obtain m1 where m1: "ece391_memcpy tmp arg 16 m = (0, m1)" "blink_at m1 tmp = ?b" "\<And>x. x \<notin> span tmp 16 \<Longrightarrow> m1 x = m x"
    using memcpy_struct [OF tmp] by metis
  have l1: "load16 m1 tmp = loc ?b" using m1(2) by (simp add: blink_at_def)
  have l2: "load16 (store16 m1 (tmp + 10) 1) (tmp + 4) = on_len ?b"
    using blink_at_store16(5) [of m1 tmp 1] m1(2) by (simp add: blink_at_def)
  let ?m2 = "store16 (store16 m1 (tmp + 10) 1) (tmp + 8) (on_len ?b)"
  show thesis
  proof (rule that [of m1 ?m2])
    show "?m2 x = m x" if "x \<notin> span tmp 16" for x using that by (simp add: store16_other m1(3))
    show "blink_at ?m2 tmp = ?b\<lparr>phase := 1, left := on_len ?b\<rparr>" by (simp add: blink_at_store16 m1(2))
  qed (simp_all add: m1(3) mp1_ioctl_add_def m1(1) l1 l2 word_le_nat_alt Let_def)
qed

lemma malloc_cong:
  assumes "\<And>x. x \<in> span (blink_array v) 32000 \<Longrightarrow> m' x = m x"
  shows "mp1_malloc v m' = mp1_malloc v m"
proof -
  have "blink_at m' (slot v i) = blink_at m (slot v i)" if "i < 2000" for i
    by (rule blink_cong(1)) (use assms slot_span [of "slot v i" v] that in \<open>auto simp: slots_def\<close>)
  then have "free_slots v m' = free_slots v m" by (auto simp: free_slots_def)
  then show ?thesis by (simp add: mp1_malloc_eq)
qed

lemma add_effect:
  assumes lay: "layout v m" and tmp: "tmp_ok v m tmp" "span tmp 16 \<inter> span arg 16 = {}"
    and l: "unat (loc (blink_at m arg)) < 2000" and p: "mp1_malloc v m = p" "p \<in> slots v"
  obtains m' where "mp1_ioctl_add v tmp arg m = (0, m')"
    and "blink_at m' p = (blink_at m arg)\<lparr>phase := 1, left := on_len (blink_at m arg)\<rparr>"
    and "next_at m' p = load32 m (mp1_list_head v)" and "load32 m' (mp1_list_head v) = p"
    and "m' (cell_of v m (loc (blink_at m arg))) = on_c (blink_at m arg)"
    and "\<And>x. x \<notin> span tmp 16 \<Longrightarrow> x \<notin> span p 16 \<Longrightarrow> x \<notin> span (mp1_list_head v) 4 \<Longrightarrow>
      x \<noteq> cell_of v m (loc (blink_at m arg)) \<Longrightarrow> m' x = m x"
proof -
  let ?b = "blink_at m arg" and ?c = "cell_of v m (loc (blink_at m arg))"
  let ?b' = "?b\<lparr>phase := 1, left := on_len ?b\<rparr>"
  obtain m1 m2 where o2: "\<And>x. x \<notin> span tmp 16 \<Longrightarrow> m2 x = m x" and b2: "blink_at m2 tmp = ?b'"
    and run: "mp1_ioctl_add v tmp arg m =
      (if 2000 \<le> unat (loc (blink_at m arg)) then (- 1, m1)
       else if mp1_malloc v m2 = 0 then (- 1, m2) else (0, add_insert v tmp (mp1_malloc v m2) m2))"
    by (rule add_prepared [OF tmp(2), of m v]) blast
  have g2: "m2 x = m x" if "x \<in> globals v m" for x using that tmp(1) o2 by (auto simp: tmp_ok_def)
  have p2: "mp1_malloc v m2 = p" using malloc_cong [of v m2 m] g2 p(1) by (simp add: globals_def)
  note ap = slot_apart [OF lay p(2)]
  have "span p 16 \<inter> span tmp 16 = {}" using tmp(1) slot_globals [OF p(2), of _ m] by (auto simp: tmp_ok_def)
  then obtain m3 where m3: "ece391_memcpy p tmp 16 m2 = (0, m3)" "blink_at m3 p = ?b'" "\<And>x. x \<notin> span p 16 \<Longrightarrow> m3 x = m2 x"
    using memcpy_struct [of p tmp m2] b2 by metis
  have head: "load32 m3 (mp1_list_head v) = load32 m (mp1_list_head v)"
  proof (rule load32_span_cong)
    fix x assume "x \<in> span (mp1_list_head v) 4"
    then show "m3 x = m x" using ap(2) m3(3) [of x] g2 [of x] by (auto simp: globals_def)
  qed
  define m4 where "m4 = store32 m3 (p + 12) (load32 m3 (mp1_list_head v))"
  define m5 where "m5 = store32 m4 (mp1_list_head v) p"
  define m6 where "m6 = m5(?c := on_c ?b)"
  have cell: "?c \<in> video v m" using l by (rule cell_in_video)
  then have nc: "?c \<notin> span p 16" "?c \<notin> span (mp1_list_head v) 4" using ap(4) lay by (auto simp: layout_def)
  have h: "x \<notin> span (mp1_list_head v) 4" if "x \<in> span p 16" for x using that ap(2) by blast
  have e5: "x \<in> span p 16 \<Longrightarrow> m5 x = m4 x" for x using h by (simp add: m5_def store32_other)
  have b5: "blink_at m5 p = ?b'" "next_at m5 p = load32 m (mp1_list_head v)"
    using blink_cong [of p m5 m4, OF e5] head
    by (simp_all add: m4_def blink_at_next m3(2) next_at_def load32_store32_same)
  have o5: "m5 x = m x" if "x \<notin> span p 16" "x \<notin> span (mp1_list_head v) 4" "x \<notin> span tmp 16" for x
    using that by (simp add: m5_def m4_def store32_other m3(3) o2)
  have vm: "load32 m5 (vmem_base_addr v) = load32 m (vmem_base_addr v)"
  proof (rule load32_span_cong)
    fix x assume "x \<in> span (vmem_base_addr v) 4"
    then show "m5 x = m x" using ap(3) lay tmp(1) unfolding layout_def tmp_ok_def globals_def by (intro o5) blast+
  qed
  have fields: "load16 m5 p = loc ?b" "m5 (p + 2) = on_c ?b" using b5(1) by (simp_all add: blink_at_def)
  have e6: "x \<in> span p 16 \<Longrightarrow> m6 x = m5 x" "x \<in> span (mp1_list_head v) 4 \<Longrightarrow> m6 x = m5 x" for x
    using nc by (auto simp: m6_def)
  show thesis
  proof (rule that [of m6])
    show "mp1_ioctl_add v tmp arg m = (0, m6)"
      using run l m3(1) ap(1)
      by (simp add: p2 add_insert_def m4_def [symmetric] m5_def [symmetric] m6_def mp1_poke_def cell_of_def vm fields)
    show "blink_at m6 p = ?b'" "next_at m6 p = load32 m (mp1_list_head v)"
      using blink_cong [of p m6 m5, OF e6(1)] b5 by simp_all
    show "load32 m6 (mp1_list_head v) = p"
      using load32_span_cong [of "mp1_list_head v" m6 m5, OF e6(2)] by (simp add: m5_def load32_store32_same)
  qed (simp_all add: m6_def o5)
qed

lemma add_rep:
  assumes rep: "fish_rep v m bs scr" and tmp: "tmp_ok v m tmp" "span tmp 16 \<inter> span arg 16 = {}"
    and l0: "loc (blink_at m arg) \<noteq> 0"
  shows "\<exists>r m' bs' scr'. mp1_ioctl_add v tmp arg m = (r, m') \<and> add_blink (blink_at m arg) bs scr = (r, bs', scr') \<and> fish_rep v m' bs' scr'"
proof -
  let ?b = "blink_at m arg"
  obtain ps where ps: "blinks v m ps" "map (blink_at m) ps = bs" "screen_of v m = scr" using rep by (auto simp: fish_rep_def)
  have lay: "layout v m" using ps(1) by (simp add: blinks_def)
  have len: "length ps = length bs" using ps(2) by auto
  show ?thesis
  proof (cases "2000 \<le> unat (loc ?b) \<or> length bs = 2000")
    case True
    obtain m1 m2 where o: "\<And>x. x \<notin> span tmp 16 \<Longrightarrow> m1 x = m x" "\<And>x. x \<notin> span tmp 16 \<Longrightarrow> m2 x = m x"
      and run: "mp1_ioctl_add v tmp arg m = (if 2000 \<le> unat (loc ?b) then (- 1, m1)
       else if mp1_malloc v m2 = 0 then (- 1, m2) else (0, add_insert v tmp (mp1_malloc v m2) m2))"
      by (rule add_prepared [OF tmp(2), of m v]) blast
    have keep: "fish_rep v m' bs scr" if "\<And>x. x \<notin> span tmp 16 \<Longrightarrow> m' x = m x" for m'
    proof -
      have "m' x = m x" if "x \<in> globals v m" for x
        using that tmp(1) \<open>\<And>x. x \<notin> span tmp 16 \<Longrightarrow> m' x = m x\<close> by (auto simp: tmp_ok_def)
      from blinks_cong(1-3) [OF ps(1) this] show ?thesis using ps(2,3) by (auto simp: fish_rep_def)
    qed
    have "mp1_malloc v m2 = mp1_malloc v m" using malloc_cong [of v m2 m] o(2) tmp(1) by (auto simp: tmp_ok_def globals_def)
    then have "mp1_malloc v m2 = 0" if "length bs = 2000" using that mp1_malloc_list(2) [OF ps(1)] len by simp
    then show ?thesis using True run keep o by (auto simp: add_blink_def)
  next
    case False
    then have l: "unat (loc ?b) < 2000" by simp
    have p: "mp1_malloc v m \<in> slots v - set ps"
      using mp1_malloc_list(1,3) [OF ps(1)] len False by (simp add: order.not_eq_order_implies_strict)
    then obtain m' where m': "mp1_ioctl_add v tmp arg m = (0, m')" and new: "blink_at m' (mp1_malloc v m) = ?b\<lparr>phase := 1, left := on_len ?b\<rparr>"
        "next_at m' (mp1_malloc v m) = load32 m (mp1_list_head v)" "load32 m' (mp1_list_head v) = mp1_malloc v m"
        "m' (cell_of v m (loc ?b)) = on_c ?b"
      and eq: "\<And>x. x \<notin> span tmp 16 \<Longrightarrow> x \<notin> span (mp1_malloc v m) 16 \<Longrightarrow> x \<notin> span (mp1_list_head v) 4 \<Longrightarrow>
        x \<noteq> cell_of v m (loc ?b) \<Longrightarrow> m' x = m x"
      using add_effect [OF lay tmp l refl] by blast
    have ins: "blinks v m' (mp1_malloc v m # ps) \<and> map (blink_at m') ps = map (blink_at m) ps \<and>
        screen_of v m' = (screen_of v m)(unat (loc (?b\<lparr>phase := 1, left := on_len ?b\<rparr>)) := on_c ?b)"
      using l l0 new(4) eq tmp(1)
      by (intro conjI blinks_insert [OF ps(1) p new(1) _ _ new(2,3)]) (auto simp: tmp_ok_def)
    then have "fish_rep v m' (?b\<lparr>phase := 1, left := on_len ?b\<rparr> # bs) (scr(unat (loc ?b) := on_c ?b))"
      using new(1) ps(2,3) by (auto simp: fish_rep_def intro!: exI [of _ "mp1_malloc v m # ps"])
    then show ?thesis using m' False by (simp add: add_blink_def)
  qed
qed

end
