(* ===== verification/Fish_Commands.thy ===== *)
theory Fish_Commands
  imports Fish_Spec
begin

text \<open>
  The commands that search the list of blinking characters, removing one and making two blink
  together, and what becomes of the list when a character is added at location 0.
\<close>

section \<open>Finding and removing a structure\<close>

lemma find_loop_eq:
  "linked m p qs \<Longrightarrow> find_loop m l p = Some (case List.find (\<lambda>q. loc (blink_at m q) = l) qs of None \<Rightarrow> 0 | Some q \<Rightarrow> q)"
proof (induction qs arbitrary: p)
  case Nil
  then show ?case by (simp add: find_loop.simps [of m l 0])
next
  case (Cons q qs)
  then show ?case by (simp add: find_loop.simps [of m l q] next_at_def blink_at_def)
qed

lemma find_helper_eq:
  assumes "blinks v m ps"
  shows "mp1_find_helper v arg m = Some (case List.find (\<lambda>q. loc (blink_at m q) = ucast arg) ps of None \<Rightarrow> 0 | Some q \<Rightarrow> q)"
  using assms find_loop_eq [of m "load32 m (mp1_list_head v)" ps] by (simp add: mp1_find_helper_def blinks_def)

lemma find_slot:
  assumes "blinks v m ps" "List.find P ps = Some q"
  shows "q \<in> set ps" "q \<in> slots v" "q \<noteq> 0" "P q"
proof -
  show q: "q \<in> set ps" "P q" using assms(2) by (auto simp: find_Some_iff)
  then show "q \<in> slots v" using assms(1) by (auto simp: blinks_def)
  then show "q \<noteq> 0" using slot_apart(1) assms(1) by (auto simp: blinks_def)
qed

text \<open>The field that points to \<open>q\<close>: the head of the list, or the link of the structure before it.\<close>

definition link_to :: "u32 \<Rightarrow> u32 list \<Rightarrow> u32" where
  "link_to edx qs = (if qs = [] then edx else last qs + 12)"

lemma find_prev_eq:
  "linked m (load32 m edx) (as @ q # bs) \<Longrightarrow> q \<notin> set as \<Longrightarrow> remove_find_prev m q edx = Some (link_to edx as)"
proof (induction as arbitrary: edx)
  case Nil
  then show ?case by (simp add: remove_find_prev.simps [of m q edx] link_to_def)
next
  case (Cons r as)
  then have "remove_find_prev m q (r + 12) = Some (link_to (r + 12) as)" by (simp add: next_at_def)
  then show ?case using Cons.prems by (auto simp: remove_find_prev.simps [of m q edx] link_to_def)
qed

lemma linked_remove:
  "linked m p (as @ q # bs) \<Longrightarrow> distinct (as @ q # bs) \<Longrightarrow>
     (\<And>r. r \<in> set as \<union> set bs \<Longrightarrow> r \<noteq> last as \<or> as = [] \<Longrightarrow> next_at m' r = next_at m r) \<Longrightarrow>
     (as \<noteq> [] \<Longrightarrow> next_at m' (last as) = next_at m q) \<Longrightarrow>
     linked m' (if as = [] then next_at m q else p) (as @ bs)"
proof (induction as arbitrary: p)
  case Nil
  have "linked m' r bs = linked m r bs" for r
    using Nil(3) by (induction bs arbitrary: r) simp_all
  then show ?case using Nil(1) by simp
next
  case (Cons a as)
  have a: "p = a" "a \<noteq> 0" "linked m (next_at m a) (as @ q # bs)" using Cons.prems(1) by simp_all
  show ?case
  proof (cases "as = []")
    case True
    then have "next_at m' r = next_at m r" if "r \<in> set bs" for r using Cons.prems(2,3) that by auto
    then have "linked m' r bs = linked m r bs" for r by (induction bs arbitrary: r) simp_all
    then show ?thesis using a Cons.prems(4) True by simp
  next
    case False
    have "a \<noteq> last as" using Cons.prems(2) last_in_set [OF False] by auto
    then have n: "next_at m' a = next_at m a" using Cons.prems(3) [of a] False by simp
    have "linked m' (if as = [] then next_at m q else next_at m a) (as @ bs)"
      by (rule Cons.IH [OF a(3)]) (use Cons.prems(2-4) False in auto)
    then show ?thesis using a n False by simp
  qed
qed

fun remove_blink :: "u16 \<Rightarrow> blink list \<Rightarrow> blink list" where
  "remove_blink l [] = []"
| "remove_blink l (b # bs) = (if loc b = l then bs else b # remove_blink l bs)"

lemma remove_blink_split:
  "l \<notin> loc ` set as \<Longrightarrow> loc b = l \<Longrightarrow> remove_blink l (as @ b # bs) = as @ bs"
  by (induction as) auto

lemma memset_struct:
  assumes "m' = mp1_free p m"
  shows "x \<in> span p 16 \<Longrightarrow> m' x = 0" and "x \<notin> span p 16 \<Longrightarrow> m' x = m x"
proof -
  have "fold (\<lambda>i m. m(p + of_nat i := 0)) [0..<n] m x = (if x \<in> span p n then 0 else m x)" for n
    by (induction n) (auto simp: span_def lessThan_Suc)
  then show "x \<in> span p 16 \<Longrightarrow> m' x = 0" "x \<notin> span p 16 \<Longrightarrow> m' x = m x"
    by (simp_all add: assms mp1_free_def ece391_memset_def del: upt_Suc)
qed

lemma find_split: "List.find P xs = Some q \<Longrightarrow> \<exists>as cs. xs = as @ q # cs \<and> (\<forall>r \<in> set as. \<not> P r)"
proof (induction xs)
  case (Cons x xs)
  show ?case
  proof (cases "P x")
    case True
    then show ?thesis using Cons.prems by (intro exI [of _ "[]"] exI [of _ xs]) simp
  next
    case False
    then obtain as cs where "xs = as @ q # cs" "\<forall>r \<in> set as. \<not> P r" using Cons by auto
    then show ?thesis using False by (intro exI [of _ "x # as"] exI [of _ cs]) simp
  qed
qed simp

lemma remove_rep:
  assumes rep: "fish_rep v m bs scr"
  shows "\<exists>m'. mp1_ioctl_remove v arg m = Some (if ucast arg \<in> loc ` set bs then 0 else - 1, m') \<and>
    fish_rep v m' (remove_blink (ucast arg) bs) scr"
proof -
  let ?l = "ucast arg :: u16"
  obtain ps where ps: "blinks v m ps" "map (blink_at m) ps = bs" "screen_of v m = scr" using rep by (auto simp: fish_rep_def)
  note h = find_helper_eq [OF ps(1), of arg]
  have img: "loc ` set bs = (\<lambda>q. loc (blink_at m q)) ` set ps" using ps(2) by (auto simp: image_image)
  show ?thesis
  proof (cases "List.find (\<lambda>q. loc (blink_at m q) = ?l) ps")
    case None
    then have "?l \<notin> loc ` set bs" unfolding img by (auto simp: find_None_iff)
    moreover have "remove_blink l bs = bs" if "l \<notin> loc ` set bs" for l using that by (induction bs) auto
    ultimately show ?thesis using h None rep by (simp add: mp1_ioctl_remove_def)
  next
    case (Some q)
    note q = find_slot [OF ps(1) Some]
    obtain as cs where split: "ps = as @ q # cs" and first: "\<forall>r \<in> set as. loc (blink_at m r) \<noteq> ?l"
      using find_split [OF Some] by blast
    have lay: "layout v m" and dist: "distinct ps" and sub: "set ps \<subseteq> slots v" and link: "linked m (load32 m (mp1_list_head v)) ps"
      and free: "\<And>r. r \<in> slots v - set ps \<Longrightarrow> loc (blink_at m r) = 0"
      using ps(1) by (simp_all add: blinks_def)
    let ?e = "link_to (mp1_list_head v) as"
    have prev: "remove_find_prev m q (mp1_list_head v) = Some ?e"
      using find_prev_eq [of m "mp1_list_head v" as q cs] link dist unfolding split by simp
    define m1 where "m1 = store32 m ?e (next_at m q)"
    define m2 where "m2 = mp1_free q m1"
    have run: "mp1_ioctl_remove v arg m = Some (0, m2)"
      using h Some q(3) prev by (simp add: mp1_ioctl_remove_def m1_def m2_def next_at_def)
    have e_span: "span ?e 4 \<subseteq> (if as = [] then span (mp1_list_head v) 4 else span (last as) 16)"
      unfolding link_to_def span_4 span_16 by (simp add: add.assoc)
    have las: "last as \<in> slots v" if "as \<noteq> []" using sub last_in_set [OF that] unfolding split by auto
    have e_apart: "span ?e 4 \<inter> span r 16 = {}" if "r \<in> slots v" "r \<noteq> last as \<or> as = []" for r
    proof (cases "as = []")
      case True
      then show ?thesis using e_span slot_apart(2) [OF lay that(1)] by auto
    next
      case False
      then show ?thesis using e_span slots_apart [OF las [OF False] that(1)] that(2) by auto
    qed
    have out: "x \<notin> span ?e 4 \<and> x \<notin> span q 16" if "x \<in> span (vmem_base_addr v) 4 \<union> video v m" for x
    proof -
      have s: "x \<notin> span r 16" if "r \<in> slots v" for r
        using slot_apart(3,4) [OF lay that] \<open>x \<in> span (vmem_base_addr v) 4 \<union> video v m\<close> by blast
      moreover have "x \<notin> span (mp1_list_head v) 4" using that lay unfolding layout_def by blast
      ultimately have "x \<notin> span ?e 4" using e_span las by (cases "as = []") auto
      then show ?thesis using s [OF q(2)] by simp
    qed
    have o1: "m1 x = m x" if "x \<notin> span ?e 4" for x using that by (simp add: m1_def store32_other)
    have o2: "m2 x = m1 x" if "x \<notin> span q 16" for x using that memset_struct(2) [OF m2_def] by simp
    have var: "\<And>x. x \<in> span (vmem_base_addr v) 4 \<Longrightarrow> m2 x = m x" using out o1 o2 by simp
    have lay2: "layout v m2" by (rule vmem_same(1) [OF lay var])
    have scr: "screen_of v m2 = scr" using screen_same [OF lay, of m2] out o1 o2 ps(3) by simp
    have s2: "blink_at m2 r = blink_at m1 r" "next_at m2 r = next_at m1 r" if "r \<in> slots v" "r \<noteq> q" for r
    proof -
      have e: "m2 x = m1 x" if "x \<in> span r 16" for x
        using slots_apart [of q v r] q(2) \<open>r \<in> slots v\<close> \<open>r \<noteq> q\<close> that by (intro o2) blast
      show "blink_at m2 r = blink_at m1 r" "next_at m2 r = next_at m1 r" using blink_cong [of r m2 m1, OF e] by simp_all
    qed
    have s1: "blink_at m1 r = blink_at m r" "next_at m1 r = next_at m r" if "r \<in> slots v" "r \<noteq> last as \<or> as = []" for r
    proof -
      have e: "m1 x = m x" if "x \<in> span r 16" for x using e_apart [OF \<open>r \<in> slots v\<close> \<open>r \<noteq> last as \<or> as = []\<close>] that by (intro o1) blast
      show "blink_at m1 r = blink_at m r" "next_at m1 r = next_at m r" using blink_cong [of r m1 m, OF e] by simp_all
    qed
    have last: "blink_at m1 (last as) = blink_at m (last as)" "next_at m1 (last as) = next_at m q" if "as \<noteq> []"
      using that by (simp_all add: m1_def link_to_def blink_at_next next_at_def load32_store32_same)
    have keep: "blink_at m2 r = blink_at m r" if "r \<in> slots v" "r \<noteq> q" for r
      using that s1(1) [OF that(1)] s2(1) [OF that] last(1) by metis
    have h2: "load32 m2 (mp1_list_head v) = (if as = [] then next_at m q else load32 m (mp1_list_head v))"
    proof -
      have "load32 m2 (mp1_list_head v) = load32 m1 (mp1_list_head v)"
        using slot_apart(2) [OF lay q(2)] by (intro load32_span_cong o2) blast
      moreover have "load32 m1 (mp1_list_head v) = load32 m (mp1_list_head v)" if "as \<noteq> []"
        using that e_span slot_apart(2) [OF lay las [OF that]] by (intro load32_span_cong o1) auto
      ultimately show ?thesis by (simp add: m1_def link_to_def load32_store32_same)
    qed
    have qas: "q \<notin> set (as @ cs)" and ins: "set (as @ cs) \<subseteq> slots v" using dist sub unfolding split by auto
    have "linked m2 (load32 m2 (mp1_list_head v)) (as @ cs)"
      unfolding h2
    proof (rule linked_remove [OF link [unfolded split] dist [unfolded split]])
      fix r assume "r \<in> set as \<union> set cs" "r \<noteq> last as \<or> as = []"
      then show "next_at m2 r = next_at m r" using s1(2) [of r] s2(2) [of r] ins qas by auto
    next
      assume ne: "as \<noteq> []"
      have "last as \<noteq> q" using qas last_in_set [OF ne] by auto
      then show "next_at m2 (last as) = next_at m q" using last(2) s2(2) [of "last as"] las ne by simp
    qed
    moreover have "loc (blink_at m2 r) = 0" if "r \<in> slots v - set (as @ cs)" for r
    proof (cases "r = q")
      case True
      have "m2 q = 0" "m2 (q + 1) = 0" using memset_struct(1) [OF m2_def, of q] memset_struct(1) [OF m2_def, of "q + 1"] by (simp_all add: span_16)
      then show ?thesis by (simp add: True blink_at_def load16_def)
    next
      case False
      then show ?thesis using keep [of r] free [of r] that unfolding split by simp
    qed
    moreover have same: "blink_at m2 r = blink_at m r" if "r \<in> set (as @ cs)" for r
      using that ins qas by (intro keep) auto
    moreover have "loc (blink_at m r) \<noteq> 0 \<and> unat (loc (blink_at m r)) < 2000" if "r \<in> set (as @ cs)" for r
      using that ps(1) unfolding blinks_def split by auto
    moreover have "distinct (as @ cs)" using dist unfolding split by simp
    moreover have "loc (blink_at m2 r) \<noteq> 0" "unat (loc (blink_at m2 r)) < 2000" if "r \<in> set (as @ cs)" for r
      using that calculation(3,4) [of r] by simp_all
    ultimately have "blinks v m2 (as @ cs)" using lay2 ins unfolding blinks_def by (intro conjI ballI) simp_all
    moreover have "map (blink_at m2) (as @ cs) = remove_blink ?l bs"
    proof -
      have "map (blink_at m2) (as @ cs) = map (blink_at m) as @ map (blink_at m) cs" using same by simp
      moreover have "?l \<notin> loc ` set (map (blink_at m) as)" using first by auto
      moreover have "bs = map (blink_at m) as @ blink_at m q # map (blink_at m) cs" using ps(2) unfolding split by simp
      ultimately show ?thesis using remove_blink_split [OF _ q(4)] by metis
    qed
    ultimately have "fish_rep v m2 (remove_blink ?l bs) scr" using scr by (auto simp: fish_rep_def)
    moreover have "?l \<in> loc ` set bs" unfolding img q(4) [symmetric] using q(1) by (rule imageI)
    ultimately show ?thesis using run by simp
  qed
qed

section \<open>Synchronising two structures\<close>

definition synced :: "blink \<Rightarrow> blink \<Rightarrow> blink" where
  "synced a b = b\<lparr>on_len := on_len a, off_len := off_len a, left := left a, phase := phase a\<rparr>"

text \<open>The sign that \<open>cmovl\<close> asks for is never there, so the character shown is the one for the off phase.\<close>

lemma bit_not_negative: "\<not> sint ((x :: u8) AND 1) < 0"
  unfolding and_one_eq mod2_eq_if by simp

lemma sync_copy_eq:
  assumes p: "p = q \<or> span p 16 \<inter> span q 16 = {}" and var: "span q 16 \<inter> span (vmem_base_addr v) 4 = {}"
    and cell: "cell_of v m (loc (blink_at m q)) \<notin> span q 16"
  shows "blink_at (sync_copy v p q m) q = synced (blink_at m p) (blink_at m q)"
    and "next_at (sync_copy v p q m) q = next_at m q"
    and "x \<notin> span q 16 \<Longrightarrow> sync_copy v p q m x = (if x = cell_of v m (loc (blink_at m q)) then off_c (blink_at m q) else m x)"
proof -
  let ?a = "blink_at m p" and ?b = "blink_at m q" and ?c = "cell_of v m (loc (blink_at m q))"
  define m1 where "m1 = store16 m (q + 4) (on_len ?a)"
  define m2 where "m2 = store16 m1 (q + 6) (off_len ?a)"
  define m3 where "m3 = store16 m2 (q + 8) (left ?a)"
  define m4 where "m4 = store16 m3 (q + 10) (phase ?a)"
  note ms = m1_def m2_def m3_def m4_def
  have o: "m1 x = m x" "m2 x = m x" "m3 x = m x" "m4 x = m x" if "x \<notin> span q 16" for x
    using that by (simp_all add: ms store16_other)
  have b: "blink_at m1 q = ?b\<lparr>on_len := on_len ?a\<rparr>" "blink_at m2 q = ?b\<lparr>on_len := on_len ?a, off_len := off_len ?a\<rparr>"
    "blink_at m3 q = ?b\<lparr>on_len := on_len ?a, off_len := off_len ?a, left := left ?a\<rparr>" "blink_at m4 q = synced ?a ?b"
    by (simp_all add: ms blink_at_store16 synced_def)
  have n: "next_at m4 q = next_at m q" by (simp add: ms next_at_store16)
  have keep: "off_len (blink_at m1 p) = off_len ?a" "left (blink_at m2 p) = left ?a" "phase (blink_at m3 p) = phase ?a"
  proof -
    have "blink_at m1 p = ?a \<and> blink_at m2 p = ?a \<and> blink_at m3 p = ?a" if "p \<noteq> q"
      using p that o by (intro conjI blink_cong(1)) blast+
    then show "off_len (blink_at m1 p) = off_len ?a" "left (blink_at m2 p) = left ?a" "phase (blink_at m3 p) = phase ?a"
      using b by (cases "p = q"; simp)+
  qed
  have "load32 m4 (vmem_base_addr v) = load32 m (vmem_base_addr v)" using var by (intro load32_span_cong o(4)) blast
  then have poke: "mp1_poke v (ucast (loc ?b) * 2) (off_c ?b) m4 = m4(?c := off_c ?b)" by (simp add: mp1_poke_def cell_of_def)
  have f4: "load16 m4 q = loc ?b" "m4 (q + 3) = off_c ?b" using b(4) by (simp_all add: blink_at_def synced_def)
  have f: "load16 m (p + 4) = on_len ?a" "load16 m1 (p + 6) = off_len ?a" "load16 m2 (p + 8) = left ?a" "load16 m3 (p + 10) = phase ?a"
    using keep by (simp_all add: blink_at_def)
  have run: "sync_copy v p q m = m4(?c := off_c ?b)"
    unfolding sync_copy_def Let_def f(1) m1_def [symmetric] f(2) m2_def [symmetric] f(3) m3_def [symmetric] f(4) m4_def [symmetric]
    using bit_not_negative [of "m4 (q + 10)"] by (simp add: f4 poke)
  have e: "(m4(?c := off_c ?b)) x = m4 x" if "x \<in> span q 16" for x using cell that by auto
  note e4 = blink_cong [of q "m4(?c := off_c ?b)" m4, OF e]
  show "blink_at (sync_copy v p q m) q = synced ?a ?b" unfolding run by (rule trans [OF e4(1) b(4)])
  show "next_at (sync_copy v p q m) q = next_at m q" unfolding run by (rule trans [OF e4(2) n])
  show "sync_copy v p q m x = (if x = ?c then off_c ?b else m x)" if "x \<notin> span q 16"
    unfolding run using o(4) [OF that] by simp
qed

lemma blinks_update:
  assumes b: "blinks v m ps" and q: "q \<in> set ps" and new: "loc (blink_at m' q) = loc (blink_at m q)" "next_at m' q = next_at m q"
    and eq: "\<And>x. x \<notin> span q 16 \<Longrightarrow> m' x = (if x = cell_of v m (loc (blink_at m q)) then c else m x)"
  shows "blinks v m' ps" "\<And>r. r \<in> set ps \<Longrightarrow> r \<noteq> q \<Longrightarrow> blink_at m' r = blink_at m r"
    "screen_of v m' = (screen_of v m)(unat (loc (blink_at m q)) := c)"
proof -
  have lay: "layout v m" and sub: "set ps \<subseteq> slots v" and l: "unat (loc (blink_at m q)) < 2000"
    using b q by (simp_all add: blinks_def)
  let ?c = "cell_of v m (loc (blink_at m q))"
  have qs: "q \<in> slots v" using q sub by blast
  have cell: "?c \<in> video v m" by (rule cell_in_video [OF l])
  have nc: "?c \<notin> span q 16" using cell slot_apart(4) [OF lay qs] by blast
  have var: "m' x = m x" if "x \<in> span (vmem_base_addr v) 4" for x
  proof -
    have "x \<notin> span q 16" "x \<noteq> ?c" using that slot_apart(3) [OF lay qs] lay cell unfolding layout_def by blast+
    then show ?thesis using eq by simp
  qed
  have head: "load32 m' (mp1_list_head v) = load32 m (mp1_list_head v)"
  proof (rule load32_span_cong)
    fix x assume "x \<in> span (mp1_list_head v) 4"
    then have "x \<notin> span q 16" "x \<noteq> ?c" using slot_apart(2) [OF lay qs] lay cell unfolding layout_def by blast+
    then show "m' x = m x" using eq by simp
  qed
  have other: "m' x = m x" if "r \<in> slots v" "r \<noteq> q" "x \<in> span r 16" for r x
  proof -
    have "x \<notin> span q 16" "x \<noteq> ?c" using slots_apart [OF qs that(1)] that slot_apart(4) [OF lay that(1)] cell by blast+
    then show ?thesis using eq by simp
  qed
  have bl: "blink_at m' r = blink_at m r" "next_at m' r = next_at m r" if "r \<in> slots v" "r \<noteq> q" for r
    using blink_cong [of r m' m, OF other [OF that]] by simp_all
  have "linked m' r qs = linked m r qs" if "set qs \<subseteq> slots v" for r qs
    using that bl(2) new(2) by (induction qs arbitrary: r) (auto, (metis bl(2))+)
  then have "linked m' (load32 m' (mp1_list_head v)) ps" using b sub by (simp add: head blinks_def)
  moreover have "loc (blink_at m' r) = loc (blink_at m r)" if "r \<in> slots v" for r using bl(1) [OF that] new(1) by metis
  ultimately show "blinks v m' ps" using b vmem_same(1) [OF lay var] sub by (auto simp: blinks_def)
  show "\<And>r. r \<in> set ps \<Longrightarrow> r \<noteq> q \<Longrightarrow> blink_at m' r = blink_at m r" using bl(1) sub by blast
  show "screen_of v m' = (screen_of v m)(unat (loc (blink_at m q)) := c)"
  proof (rule cell_drawn [where m = m and m' = m' and c = c, OF lay l])
    show "m' ?c = c" using eq [OF nc] by simp
    fix x assume x: "x \<in> span (vmem_base_addr v) 4 \<union> video v m" "x \<noteq> ?c"
    then have "x \<notin> span q 16" using slot_apart(3,4) [OF lay qs] by blast
    then show "m' x = m x" using eq x(2) by simp
  qed
qed

fun update_blink :: "u16 \<Rightarrow> (blink \<Rightarrow> blink) \<Rightarrow> blink list \<Rightarrow> blink list" where
  "update_blink l f [] = []"
| "update_blink l f (b # bs) = (if loc b = l then f b # bs else b # update_blink l f bs)"

definition find_blink :: "u16 \<Rightarrow> blink list \<Rightarrow> blink option" where
  "find_blink l bs = List.find (\<lambda>b. loc b = l) bs"

definition sync_blinks :: "u16 \<Rightarrow> u16 \<Rightarrow> blink list \<Rightarrow> (nat \<Rightarrow> u8) \<Rightarrow> i32 \<times> blink list \<times> (nat \<Rightarrow> u8)" where
  "sync_blinks k l bs scr =
     (case (find_blink k bs, find_blink l bs) of
        (Some a, Some b) \<Rightarrow> (0, update_blink l (synced a) bs, scr(unat l := off_c b))
      | _ \<Rightarrow> (- 1, bs, scr))"

lemma find_blink_map: "find_blink l (map f ps) = map_option f (List.find (\<lambda>q. loc (f q) = l) ps)"
  by (induction ps) (simp_all add: find_blink_def)

lemma update_blink_split:
  "l \<notin> loc ` set as \<Longrightarrow> loc b = l \<Longrightarrow> update_blink l f (as @ b # bs) = as @ f b # bs"
  by (induction as) auto

lemma sync_rep:
  assumes rep: "fish_rep v m bs scr"
  shows "\<exists>r m' bs' scr'. mp1_ioctl_sync v arg m = Some (r, m') \<and>
    sync_blinks (ucast (drop_bit 16 arg :: u32)) (ucast (arg AND 0xFFFF)) bs scr = (r, bs', scr') \<and> fish_rep v m' bs' scr'"
proof -
  let ?k = "ucast (drop_bit 16 arg :: u32) :: u16" and ?l = "ucast (arg AND 0xFFFF) :: u16"
  obtain ps where ps: "blinks v m ps" "map (blink_at m) ps = bs" "screen_of v m = scr" using rep by (auto simp: fish_rep_def)
  note h = find_helper_eq [OF ps(1), of "drop_bit 16 arg"] find_helper_eq [OF ps(1), of "arg AND 0xFFFF"]
  have fb: "find_blink n bs = map_option (blink_at m) (List.find (\<lambda>q. loc (blink_at m q) = n) ps)" for n
    unfolding ps(2) [symmetric] by (rule find_blink_map)
  show ?thesis
  proof (cases "List.find (\<lambda>q. loc (blink_at m q) = ?k) ps")
    case None
    then show ?thesis using h rep by (simp add: mp1_ioctl_sync_def sync_blinks_def fb)
  next
    case p: (Some p)
    note pq = find_slot [OF ps(1) p]
    show ?thesis
    proof (cases "List.find (\<lambda>q. loc (blink_at m q) = ?l) ps")
      case None
      then show ?thesis using h p pq(3) rep by (simp add: mp1_ioctl_sync_def sync_blinks_def fb)
    next
      case q: (Some q)
      note qq = find_slot [OF ps(1) q]
      have lay: "layout v m" and dist: "distinct ps" and l: "unat (loc (blink_at m q)) < 2000" using ps(1) qq(1) by (simp_all add: blinks_def)
      let ?m = "sync_copy v p q m"
      have "cell_of v m (loc (blink_at m q)) \<notin> span q 16" using cell_in_video [OF l] slot_apart(4) [OF lay qq(2)] by blast
      note sc = sync_copy_eq [where p = p, OF _ slot_apart(3) [OF lay qq(2)] this]
      have pd: "p = q \<or> span p 16 \<inter> span q 16 = {}" using slots_apart [OF pq(2) qq(2)] by blast
      have loc: "loc (blink_at ?m q) = loc (blink_at m q)" using sc(1) [OF pd] by (simp add: synced_def)
      note up = blinks_update [OF ps(1) qq(1) loc sc(2) [OF pd] sc(3) [OF pd]]
      obtain as cs where split: "ps = as @ q # cs" and first: "\<forall>r \<in> set as. loc (blink_at m r) \<noteq> ?l"
        using find_split [OF q] by blast
      have "map (blink_at ?m) ps = map (blink_at m) as @ synced (blink_at m p) (blink_at m q) # map (blink_at m) cs"
        using up(2) dist sc(1) [OF pd] unfolding split by auto
      also have "\<dots> = update_blink ?l (synced (blink_at m p)) (map (blink_at m) as @ blink_at m q # map (blink_at m) cs)"
        using first qq(4) by (intro update_blink_split [symmetric]) auto
      also have "\<dots> = update_blink ?l (synced (blink_at m p)) bs" using ps(2) unfolding split by simp
      finally have "fish_rep v ?m (update_blink ?l (synced (blink_at m p)) bs) (scr(unat ?l := off_c (blink_at m q)))"
        using up(1,3) ps(3) qq(4) by (auto simp: fish_rep_def)
      then show ?thesis using h p q pq(3) qq(3) by (simp add: mp1_ioctl_sync_def sync_blinks_def fb)
    qed
  qed
qed

section \<open>A structure at location 0\<close>

text \<open>A structure that points to itself: the loop over the list never ends.\<close>

lemma tasklet_loop_cycle:
  assumes "layout v m" "p \<in> slots v" "next_at m p = p" "unat (loc (blink_at m p)) < 2000"
  shows "tasklet_loop v p m = None"
proof (cases "tasklet_loop v p m")
  case (Some y)
  have "layout v m \<longrightarrow> p \<in> slots v \<longrightarrow> next_at m p = p \<longrightarrow> unat (loc (blink_at m p)) < 2000 \<longrightarrow> False"
  proof (rule tasklet_loop.raw_induct [OF _ Some, where
      P = "\<lambda>v p m y. layout v m \<longrightarrow> p \<in> slots v \<longrightarrow> next_at m p = p \<longrightarrow> unat (loc (blink_at m p)) < 2000 \<longrightarrow> False"], intro impI)
    fix f v p m y
    assume ih: "\<And>v p m y. f v p m = Some y \<Longrightarrow>
        layout v m \<longrightarrow> p \<in> slots v \<longrightarrow> next_at m p = p \<longrightarrow> unat (loc (blink_at m p)) < 2000 \<longrightarrow> False"
      and step: "(if p = 0 then Some m else let m = tasklet_step v p m in f v (load32 m (p + 12)) m) = Some y"
      and a: "layout v m" "p \<in> slots v" "next_at m p = p" "unat (loc (blink_at m p)) < 2000"
    note ap = slot_apart [OF a(1,2)] and cell = cell_in_video [OF a(4), of v m]
    have "cell_of v m (loc (blink_at m p)) \<notin> span p 16" using cell ap(4) by blast
    note st = tasklet_step_eq [OF ap(3) this]
    have "tasklet_step v p m x = m x" if "x \<in> span (vmem_base_addr v) 4" for x
    proof -
      have "x \<notin> span p 16" "x \<noteq> cell_of v m (loc (blink_at m p))" using that ap(3) a(1) cell unfolding layout_def by blast+
      then show ?thesis using st(3) by (simp split: option.splits)
    qed
    from vmem_same(1) [OF a(1) this] have "layout v (tasklet_step v p m)" by simp
    moreover have "f v p (tasklet_step v p m) = Some y"
      using step ap(1) st(2) a(3) by (simp add: Let_def next_at_def)
    ultimately show False using ih [of v p "tasklet_step v p m" y] a st(1,2) by simp
  qed
  then show ?thesis using assms by simp
qed simp

lemma same_slot_again:
  assumes lay: "layout v m" and tmp: "tmp_ok v m tmp" and p: "mp1_malloc v m \<in> slots v" and l: "unat l < 2000"
    and zero: "loc (blink_at m' (mp1_malloc v m)) = 0"
    and eq: "\<And>x. x \<notin> span tmp 16 \<Longrightarrow> x \<notin> span (mp1_malloc v m) 16 \<Longrightarrow> x \<notin> span (mp1_list_head v) 4 \<Longrightarrow>
      x \<noteq> cell_of v m l \<Longrightarrow> m' x = m x"
  shows "mp1_malloc v m' = mp1_malloc v m"
proof -
  let ?p = "mp1_malloc v m"
  have ne: "free_slots v m \<noteq> {}" using p slot_apart(1) [OF lay p] by (auto simp: mp1_malloc_eq split: if_splits)
  define j where "j = (LEAST i. i \<in> free_slots v m)"
  have "j \<in> free_slots v m" unfolding j_def using ne LeastI_ex [of "\<lambda>i. i \<in> free_slots v m"] by blast
  moreover have "?p = slot v j" using ne by (simp add: mp1_malloc_eq j_def)
  ultimately have zero0: "loc (blink_at m ?p) = 0" by (simp add: free_slots_def)
  have "loc (blink_at m' (slot v i)) = loc (blink_at m (slot v i))" if "i < 2000" for i
  proof (cases "slot v i = ?p")
    case True
    then show ?thesis using zero zero0 by simp
  next
    case False
    have s: "slot v i \<in> slots v" using that by (simp add: slots_def)
    have "m' x = m x" if "x \<in> span (slot v i) 16" for x
      using that tmp slot_globals [OF s that] slots_apart [OF s p False] slot_apart(2,4) [OF lay s] cell_in_video [OF l, of v m]
      unfolding tmp_ok_def by (intro eq) blast+
    then have "blink_at m' (slot v i) = blink_at m (slot v i)" by (rule blink_cong(1))
    then show ?thesis by simp
  qed
  then have "free_slots v m' = free_slots v m" by (auto simp: free_slots_def)
  then show ?thesis by (simp add: mp1_malloc_eq)
qed

lemma zero_then_cycle:
  assumes rep: "fish_rep v m bs scr" "length bs < 2000" and tmp: "tmp_ok v m tmp" "span tmp 16 \<inter> span a 16 = {}" "span tmp 16 \<inter> span b 16 = {}"
    and b: "span b 16 \<inter> globals v m = {}" "loc (blink_at m a) = 0" "unat (loc (blink_at m b)) < 2000"
  shows "\<exists>m1 m2. mp1_ioctl_add v tmp a m = (0, m1) \<and> mp1_ioctl_add v tmp b m1 = (0, m2) \<and> mp1_rtc_tasklet v m2 = None"
proof -
  obtain ps where ps: "blinks v m ps" "length ps = length bs" using rep(1) by (auto simp: fish_rep_def)
  have lay: "layout v m" using ps(1) by (simp add: blinks_def)
  let ?p = "mp1_malloc v m"
  have p: "?p \<in> slots v" using mp1_malloc_list(3) [OF ps(1)] ps(2) rep(2) by simp
  have l: "unat (loc (blink_at m a)) < 2000" using b(2) by simp
  obtain m1 where m1': "mp1_ioctl_add v tmp a m = (0, m1)"
      "blink_at m1 ?p = (blink_at m a)\<lparr>phase := 1, left := on_len (blink_at m a)\<rparr>" "load32 m1 (mp1_list_head v) = ?p"
    and e1: "\<And>x. x \<notin> span tmp 16 \<Longrightarrow> x \<notin> span ?p 16 \<Longrightarrow> x \<notin> span (mp1_list_head v) 4 \<Longrightarrow> x \<noteq> cell_of v m (loc (blink_at m a)) \<Longrightarrow> m1 x = m x"
    by (rule add_effect [OF lay tmp(1,2) l refl p]) blast
  have m1: "mp1_ioctl_add v tmp a m = (0, m1)" "loc (blink_at m1 ?p) = 0" "load32 m1 (mp1_list_head v) = ?p"
    using m1' b(2) by simp_all
  have p1: "mp1_malloc v m1 = ?p" by (rule same_slot_again [OF lay tmp(1) p l m1(2) e1])
  have cell: "cell_of v m (loc (blink_at m a)) \<in> video v m" by (rule cell_in_video [OF l])
  have "m1 x = m x" if "x \<in> span (vmem_base_addr v) 4" for x
    using that tmp(1) slot_apart(3) [OF lay p] lay cell unfolding tmp_ok_def globals_def layout_def by (intro e1) blast+
  then have lay1: "layout v m1" "video v m1 = video v m" using vmem_same(1,2) [where m' = m1, OF lay] by simp_all
  have g1: "tmp_ok v m1 tmp" using tmp(1) lay1(2) by (simp add: tmp_ok_def globals_def)
  have "m1 x = m x" if "x \<in> span b 16" for x
    using that tmp(3) b(1) slot_globals [OF p, of x m] cell unfolding globals_def by (intro e1) blast+
  then have l1: "unat (loc (blink_at m1 b)) < 2000" using blink_cong(1) [of b m1 m] b(3) by simp
  obtain m2 where m2': "mp1_ioctl_add v tmp b m1 = (0, m2)"
      "blink_at m2 ?p = (blink_at m1 b)\<lparr>phase := 1, left := on_len (blink_at m1 b)\<rparr>"
      "next_at m2 ?p = load32 m1 (mp1_list_head v)" "load32 m2 (mp1_list_head v) = ?p"
    and e2: "\<And>x. x \<notin> span tmp 16 \<Longrightarrow> x \<notin> span ?p 16 \<Longrightarrow> x \<notin> span (mp1_list_head v) 4 \<Longrightarrow> x \<noteq> cell_of v m1 (loc (blink_at m1 b)) \<Longrightarrow> m2 x = m1 x"
    by (rule add_effect [OF lay1(1) g1 tmp(3) l1 p1 p]) (rule that, assumption+)
  have m2: "mp1_ioctl_add v tmp b m1 = (0, m2)" "next_at m2 ?p = ?p" "load32 m2 (mp1_list_head v) = ?p"
      "loc (blink_at m2 ?p) = loc (blink_at m1 b)"
    using m2' m1(3) by simp_all
  have cell1: "cell_of v m1 (loc (blink_at m1 b)) \<in> video v m1" by (rule cell_in_video [OF l1])
  have "m2 x = m1 x" if "x \<in> span (vmem_base_addr v) 4" for x
    using that g1 slot_apart(3) [OF lay1(1) p] lay1(1) cell1 unfolding tmp_ok_def globals_def layout_def by (intro e2) blast+
  then have "layout v m2" using vmem_same(1) [where m' = m2, OF lay1(1)] by simp
  then have "tasklet_loop v ?p m2 = None" using p m2(2,4) l1 by (intro tasklet_loop_cycle) simp_all
  then show ?thesis using m1(1) m2(1,3) by (auto simp: mp1_rtc_tasklet_def)
qed

end
