(* ===== verification/Fish_Run.thy ===== *)
theory Fish_Run
  imports Fish_Commands
begin

text \<open>The properties of the blinking characters, and a memory for their witnesses.\<close>

section \<open>The start of the program\<close>

lemma memset_fill: "ece391_memset a c n m x = (if x \<in> span a (nat (sint n)) then c else m x)"
proof -
  have "fold (\<lambda>i m. m(a + of_nat i := c)) [0..<n] m x = (if x \<in> span a n then c else m x)" for n
    by (induction n) (auto simp: span_def lessThan_Suc)
  then show ?thesis by (simp add: ece391_memset_def del: upt_Suc)
qed

text \<open>The cleared array is the empty list.\<close>

lemma cleared_rep:
  assumes lay: "layout v m" and head: "load32 m (mp1_list_head v) = 0"
  shows "fish_rep v (ece391_memset (blink_array v) 0 32000 m) [] (screen_of v m)"
proof -
  let ?m = "ece391_memset (blink_array v) 0 32000 m"
  have same: "?m x = m x" if "x \<notin> span (blink_array v) 32000" for x using that by (simp add: memset_fill)
  have zero: "?m x = 0" if "x \<in> span (blink_array v) 32000" for x using that by (simp add: memset_fill)
  have var: "?m x = m x" if "x \<in> span (mp1_list_head v) 4 \<union> span (vmem_base_addr v) 4 \<union> video v m" for x
    using that lay unfolding layout_def by (intro same) blast
  have "loc (blink_at ?m q) = 0" if "q \<in> slots v" for q
    using zero slot_span [OF that] by (simp add: blink_at_def load16_def span_16)
  moreover have "load32 ?m (mp1_list_head v) = 0" using var load32_span_cong [of "mp1_list_head v" ?m m] head by simp
  moreover have "layout v ?m" using vmem_same(1) [where m' = ?m, OF lay] var by simp
  ultimately have "blinks v ?m []" by (simp add: blinks_def)
  moreover have "screen_of v ?m = screen_of v m" using screen_same [where m' = ?m, OF lay] var by simp
  ultimately show ?thesis by (auto simp: fish_rep_def)
qed

section \<open>A memory for the witnesses\<close>

lemma span_interval:
  assumes "unat a + n \<le> 2 ^ 32" and "x \<in> span a n"
  shows "unat a \<le> unat x \<and> unat x < unat a + n"
  using assms by (auto simp: span_def unat_word_ariths unat_of_nat take_bit_nat_eq_self)

lemma spans_apart:
  assumes "unat a + n \<le> unat b \<or> unat b + k \<le> unat a" "unat a + n \<le> 2 ^ 32" "unat b + k \<le> 2 ^ 32"
  shows "span a n \<inter> span b k = {}"
  using span_interval [of a n] span_interval [of b k] assms by fastforce

definition sample_fish :: fish_vars where
  "sample_fish = \<lparr>blink_array = 0x10000, mp1_list_head = 0x20000, vmem_base_addr = 0x20010\<rparr>"

text \<open>Two structures wait to be added: at 0x30100 one of location 5, at 0x30200 one of location 0.\<close>

definition sample_fish_mem :: mem where
  "sample_fish_mem x =
     (if x = 0x20011 then 0x80 else if x = 0x20012 then 0x0B
      else if x = 0x30100 then 5 else if x = 0x30102 then 0x49 else if x = 0x30103 then 0x4D
      else if x = 0x30104 then 7 else if x = 0x30106 then 6 else 0)"

lemma sample_fish_layout:
  "layout sample_fish sample_fish_mem" "load32 sample_fish_mem (mp1_list_head sample_fish) = 0"
  "globals sample_fish sample_fish_mem = span 0x10000 32000 \<union> span 0x20000 4 \<union> span 0x20010 4 \<union> span 0xB8000 4000"
proof -
  have v: "video sample_fish sample_fish_mem = span 0xB8000 4000"
    by (simp add: video_def load32_def sample_fish_mem_def sample_fish_def)
  have "0 \<notin> span 0x10000 32000" using span_interval [of "0x10000" 32000 0] by auto
  then show "layout sample_fish sample_fish_mem"
    unfolding layout_def v by (simp add: sample_fish_def Int_Un_distrib spans_apart)
  show "load32 sample_fish_mem (mp1_list_head sample_fish) = 0" by (simp add: load32_def sample_fish_mem_def sample_fish_def)
  show "globals sample_fish sample_fish_mem = span 0x10000 32000 \<union> span 0x20000 4 \<union> span 0x20010 4 \<union> span 0xB8000 4000"
    unfolding globals_def v by (simp add: sample_fish_def)
qed

definition sample_fish_start :: mem where
  "sample_fish_start = ece391_memset 0x10000 0 32000 sample_fish_mem"

lemma sample_fish_rep:
  "fish_rep sample_fish sample_fish_start [] (screen_of sample_fish sample_fish_mem)"
  using cleared_rep [OF sample_fish_layout(1,2)] by (simp add: sample_fish_start_def sample_fish_def)

lemma sample_fish_start_same: "x \<notin> span 0x10000 32000 \<Longrightarrow> sample_fish_start x = sample_fish_mem x"
  by (simp add: sample_fish_start_def memset_fill)

lemma sample_fish_globals: "globals sample_fish sample_fish_start = globals sample_fish sample_fish_mem"
proof -
  have "load32 sample_fish_start 0x20010 = load32 sample_fish_mem 0x20010"
    by (rule load32_span_cong) (use spans_apart [of "0x10000" 32000 "0x20010" 4] in \<open>auto intro: sample_fish_start_same\<close>)
  then show ?thesis by (simp add: globals_def video_def sample_fish_def)
qed

lemma sample_fish_tmp: "tmp_ok sample_fish sample_fish_start 0x30000" "span 0x30000 16 \<inter> span 0x30100 16 = {}"
  "span 0x30000 16 \<inter> span 0x30200 16 = {}" "span 0x30100 16 \<inter> globals sample_fish sample_fish_start = {}"
  unfolding tmp_ok_def sample_fish_globals sample_fish_layout(3) by (simp_all add: Int_Un_distrib spans_apart)

lemma sample_fish_blinks:
  "blink_at sample_fish_start 0x30100 = \<lparr>loc = 5, on_c = 0x49, off_c = 0x4D, on_len = 7, off_len = 6, left = 0, phase = 0\<rparr>"
  "loc (blink_at sample_fish_start 0x30200) = 0"
proof -
  have e: "blink_at sample_fish_start p = blink_at sample_fish_mem p" if "span 0x10000 32000 \<inter> span p 16 = {}" for p
    using that by (intro blink_cong(1) sample_fish_start_same) blast
  show "blink_at sample_fish_start 0x30100 = \<lparr>loc = 5, on_c = 0x49, off_c = 0x4D, on_len = 7, off_len = 6, left = 0, phase = 0\<rparr>"
    by (subst e) (simp_all add: spans_apart blink_at_def load16_def sample_fish_mem_def)
  show "loc (blink_at sample_fish_start 0x30200) = 0"
    by (subst e) (simp_all add: spans_apart blink_at_def load16_def sample_fish_mem_def)
qed

section \<open>Properties\<close>

text \<open>C32. The tick of the blinking characters: the tasklet comes to its end, and what it leaves is what ticking every
  structure of the list in turn leaves. A structure counts down; at the end it draws its other character, changes its
  phase and takes the length of the phase. Nothing is lost from the list or drawn elsewhere.\<close>

theorem tasklet_refines:
  assumes "fish_rep v m bs scr"
  shows "\<exists>m'. mp1_rtc_tasklet v m = Some m' \<and> fish_rep v m' (fst (run_ticks bs scr)) (snd (run_ticks bs scr))"
  using assms by (rule tasklet_rep)

text \<open>C33. Adding a blinking character: a structure with a location on the screen other than 0 comes to the front of
  the list, in the on phase and with the on length to go, and its on character is drawn. A location off the screen or
  a full array is refused and changes nothing.\<close>

theorem ioctl_add_refines:
  assumes "fish_rep v m bs scr" and "tmp_ok v m tmp" and "span tmp 16 \<inter> span arg 16 = {}" and "loc (blink_at m arg) \<noteq> 0"
  shows "\<exists>r m' bs' scr'. mp1_ioctl v tmp arg 0 m = Some (r, m') \<and> add_blink (blink_at m arg) bs scr = (r, bs', scr') \<and>
    fish_rep v m' bs' scr'"
  using add_rep [OF assms] by (auto simp: mp1_ioctl_def)

text \<open>C34. Removing a blinking character: the first structure at the location leaves the list and is free again, every
  other stays, and nothing is drawn. For a location without a structure the command fails and changes nothing.\<close>

theorem ioctl_remove_refines:
  assumes "fish_rep v m bs scr"
  shows "\<exists>m'. mp1_ioctl v tmp arg 1 m = Some (if ucast arg \<in> loc ` set bs then 0 else - 1, m') \<and>
    fish_rep v m' (remove_blink (ucast arg) bs) scr"
  using remove_rep [OF assms] by (simp add: mp1_ioctl_def)

text \<open>C35. Synchronising two blinking characters: the structure at the location in the low half of the argument takes the
  lengths, the countdown and the phase of the one in the high half. Whatever the phase, it is the off character
  that is drawn, because the condition the code moves on is never true. Without both structures the command fails and changes nothing.\<close>

theorem ioctl_sync_refines:
  assumes "fish_rep v m bs scr"
  shows "\<exists>r m' bs' scr'. mp1_ioctl v tmp arg 3 m = Some (r, m') \<and>
    sync_blinks (ucast (drop_bit 16 arg :: u32)) (ucast (arg AND 0xFFFF)) bs scr = (r, bs', scr') \<and> fish_rep v m' bs' scr'"
  using sync_rep [OF assms] by (simp add: mp1_ioctl_def)

text \<open>C36. Location 0, the first cell of the screen, breaks the list: a structure added there still counts as free, so the
  next one is put into the same place and points to itself. Both calls succeed, and the next tick never ends.\<close>

theorem location_zero_hangs:
  assumes "fish_rep v m bs scr" and "length bs < 2000"
    and "tmp_ok v m tmp" and "span tmp 16 \<inter> span a 16 = {}" and "span tmp 16 \<inter> span b 16 = {}" and "span b 16 \<inter> globals v m = {}"
    and "loc (blink_at m a) = 0" and "unat (loc (blink_at m b)) < 2000"
  shows "\<exists>m1 m2. mp1_ioctl v tmp a 0 m = Some (0, m1) \<and> mp1_ioctl v tmp b 0 m1 = Some (0, m2) \<and> mp1_rtc_tasklet v m2 = None"
  using zero_then_cycle [OF assms] by (simp add: mp1_ioctl_def)

section \<open>Witnesses\<close>

definition sample_blink :: blink where
  "sample_blink = \<lparr>loc = 5, on_c = 0x49, off_c = 0x4D, on_len = 7, off_len = 6, left = 7, phase = 1\<rparr>"

theorem ioctl_add_refines_witness:
  "\<exists>m'. mp1_ioctl sample_fish 0x30000 0x30100 0 sample_fish_start = Some (0, m') \<and>
     fish_rep sample_fish m' [sample_blink] ((screen_of sample_fish sample_fish_mem)(5 := 0x49))"
  using ioctl_add_refines [OF sample_fish_rep sample_fish_tmp(1,2)]
  by (simp add: sample_fish_blinks add_blink_def sample_blink_def)

text \<open>The memory after that call.\<close>

lemma sample_one_blink:
  obtains m where "fish_rep sample_fish m [sample_blink] ((screen_of sample_fish sample_fish_mem)(5 := 0x49))"
  using add_rep [OF sample_fish_rep sample_fish_tmp(1,2)]
  by (simp add: sample_fish_blinks add_blink_def sample_blink_def) blast

theorem tasklet_refines_witness:
  "\<exists>m m'. fish_rep sample_fish m [sample_blink] ((screen_of sample_fish sample_fish_mem)(5 := 0x49)) \<and>
     mp1_rtc_tasklet sample_fish m = Some m' \<and>
     fish_rep sample_fish m' [sample_blink\<lparr>left := 6\<rparr>] ((screen_of sample_fish sample_fish_mem)(5 := 0x49))"
proof -
  obtain m where m: "fish_rep sample_fish m [sample_blink] ((screen_of sample_fish sample_fish_mem)(5 := 0x49))"
    by (rule sample_one_blink)
  have "tick sample_blink = (sample_blink\<lparr>left := 6\<rparr>, None)" by (simp add: tick_def sample_blink_def)
  then show ?thesis using tasklet_refines [OF m] m by (auto simp: redraw_def)
qed

theorem ioctl_remove_refines_witness:
  "\<exists>m m'. fish_rep sample_fish m [sample_blink] ((screen_of sample_fish sample_fish_mem)(5 := 0x49)) \<and>
     mp1_ioctl sample_fish 0x30000 5 1 m = Some (0, m') \<and>
     fish_rep sample_fish m' [] ((screen_of sample_fish sample_fish_mem)(5 := 0x49))"
proof -
  obtain m where m: "fish_rep sample_fish m [sample_blink] ((screen_of sample_fish sample_fish_mem)(5 := 0x49))"
    by (rule sample_one_blink)
  then show ?thesis using ioctl_remove_refines [OF m, of "0x30000" 5] by (auto simp: sample_blink_def)
qed

theorem ioctl_sync_refines_witness:
  "\<exists>m m'. fish_rep sample_fish m [sample_blink] ((screen_of sample_fish sample_fish_mem)(5 := 0x49)) \<and>
     mp1_ioctl sample_fish 0x30000 0x50005 3 m = Some (0, m') \<and>
     fish_rep sample_fish m' [sample_blink] ((screen_of sample_fish sample_fish_mem)(5 := 0x4D))"
proof -
  obtain m where m: "fish_rep sample_fish m [sample_blink] ((screen_of sample_fish sample_fish_mem)(5 := 0x49))"
    by (rule sample_one_blink)
  have "ucast (drop_bit 16 (0x50005 :: u32)) = (5 :: u16)" "ucast ((0x50005 :: u32) AND 0xFFFF) = (5 :: u16)" by simp_all
  moreover have "sync_blinks 5 5 [sample_blink] scr = (0, [sample_blink], scr(5 := 0x4D))" for scr
    by (simp add: sync_blinks_def find_blink_def synced_def sample_blink_def)
  ultimately show ?thesis using ioctl_sync_refines [OF m, of "0x30000" "0x50005"] m by auto
qed

theorem location_zero_hangs_witness:
  "\<exists>m1 m2. mp1_ioctl sample_fish 0x30000 0x30200 0 sample_fish_start = Some (0, m1) \<and>
     mp1_ioctl sample_fish 0x30000 0x30100 0 m1 = Some (0, m2) \<and> mp1_rtc_tasklet sample_fish m2 = None"
  using location_zero_hangs [OF sample_fish_rep _ sample_fish_tmp(1,3,2,4)] by (simp add: sample_fish_blinks)

end
