(* ===== verification/Spec2Isabelle.thy ===== *)
theory Spec2Isabelle
  imports Kernel_Run User_Run Fish_Run
begin

text \<open>
  \<^bold>\<open>A verification library for the operating system under\<close> \<^verbatim>\<open>src/student-distrib\<close> \<^bold>\<open>and the programs
  under\<close> \<^verbatim>\<open>src/syscalls\<close> \<^bold>\<open>and\<close> \<^verbatim>\<open>src/fish\<close>.

  The program is a 32-bit x86 kernel: a Multiboot image that drives two 8259 interrupt
  controllers, a real-time clock, a keyboard and a timer, reads programs from a read-only file
  system in memory, and runs up to six of them on three text terminals. User programs enter
  it through ten system calls.

  \<^bold>\<open>State.\<close> The kernel's global variables are one record, built up in the order the components
  need each other: \<open>machine\<close> (memory as a function from 32-bit addresses to bytes, the log of
  port accesses, the devices behind the ports as the function \<open>io_dev\<close>, the interrupt flag),
  \<open>pic\<close>, \<open>rtc\<close>, \<open>console\<close>, \<open>process\<close>, \<open>filesys\<close>, \<open>paging\<close>, \<open>keyboard\<close>, \<open>kernel\<close>, \<open>boot\<close>. Each extends the
  one before, so an operation of a lower component runs unchanged on the state of a higher
  one. C integers are words of their width. A C operation is a function on the record that
  returns its result and the new state; one that may not end, or that leaves the kernel
  (\<open>halt\<close>, \<open>execute\<close>, a tick), returns an option or a datatype with a value for each way it ends.
  What the compiler or linker decides (addresses of locals and of the assembly linkages, what
  a local holds before it is assigned) is a parameter: the records \<open>locals\<close> and \<open>image\<close>.

  \<^bold>\<open>Theories and the code they model.\<close>
  \<^item> \<open>Prelude\<close>: types, runs of bytes in memory, little-endian words, shared lemmas and the
    collections \<open>mem_simps\<close>, \<open>io_simps\<close>, \<open>frame_simps\<close>.
  \<^item> \<open>Lib_Mem\<close>, \<open>Lib_String\<close>, \<open>Lib_Itoa\<close>: the memory and string routines of \<^verbatim>\<open>lib.c\<close>, with the
    assembly loops of \<open>memset\<close>, \<open>memcpy\<close>, \<open>memmove\<close> instruction by instruction.
  \<^item> \<open>Machine\<close>, \<open>Pic\<close>, \<open>Rtc\<close>: \<^verbatim>\<open>lib.h\<close> (ports, interrupt flag), \<^verbatim>\<open>i8259.c\<close>, \<^verbatim>\<open>rtc.c\<close>. Busy waits
    take the list of interrupts that arrive and the function that handles one (\<open>spin\<close>).
  \<^item> \<open>Console\<close>, \<open>Console_Spec\<close>, \<open>Printf_Spec\<close>: the screen part of \<^verbatim>\<open>lib.c\<close>. The specification is
    an abstract terminal (\<open>tty\<close>), of which \<open>putc\<close>, \<open>puts\<close>, \<open>printf\<close> and \<open>terminal_write\<close> are refinements;
    the locale \<open>char_sink\<close> carries a view of the screen through a run of characters.
  \<^item> \<open>Pcb\<close>, \<open>File_Sys\<close>, \<open>File_Sys_Spec\<close>: \<^verbatim>\<open>pcb.h\<close> and \<^verbatim>\<open>file_sys.c\<close>; directory search, file reads
    and the directory listing against the image's own layout.
  \<^item> \<open>Paging\<close>: \<^verbatim>\<open>paging.c\<close>, the processor's two-level walk, and the user window, whose contents
    change with the program page when the TLB is flushed. \<open>user_tables\<close> is the form of the tables while
    a program runs; from it follows what the program can reach in its whole address space: its
    frame and, after \<open>vidmap\<close>, one text page that programs share.
  \<^item> \<open>Terminal\<close>, \<open>Keyboard\<close>, \<open>Keyboard_Spec\<close>: \<^verbatim>\<open>keyboard.c\<close>; the specification of the keyboard is a
    line editor under modifiers. \<open>keyboard_handler\<close> is the handler where its accesses are mapped,
    \<open>keyboard_interrupt\<close> the handler with the page fault that \<open>delete\<close> takes below the screen.
  \<^item> \<open>System_Call\<close>, \<open>Command_Spec\<close>, \<open>Process_Spec\<close>: \<^verbatim>\<open>system_call.c\<close>; the abstract process table is
    one stack of identifiers for each terminal (\<open>proc_table\<close>). The argument in a control block is the
    content of the string when the program was started; the code keeps a pointer to it.
  \<^item> \<open>Pit\<close>, \<open>Dispatch\<close>, \<open>Idt\<close>: \<^verbatim>\<open>pit.c\<close> (timer, scheduler), \<^verbatim>\<open>system_call_asm.S\<close> and
    \<^verbatim>\<open>exception_handler.c\<close>, \<^verbatim>\<open>idt.c\<close> and the descriptors of \<^verbatim>\<open>x86_desc.h\<close>. The locale
    \<open>call_invariant\<close> says what a predicate needs so that every file call keeps it.
  \<^item> \<open>Kernel\<close>, \<open>Kernel_Spec\<close>: \<open>entry\<close> of \<^verbatim>\<open>kernel.c\<close> with the structures of \<^verbatim>\<open>multiboot.h\<close>. It ends in
    the idle loop, where it rejects the boot loader's data, or in a page fault of \<open>file_sys_init\<close>, which reads
    the file system's first block with paging on.
  \<^item> \<open>Kernel_Run\<close>: all of it as a state machine, \<open>kstep\<close>, whose rules are the handlers and calls
    above, in any state and with no test that the code does not make: user code, clock,
    keyboard, timer, exceptions, calls, and the two halves of a \<open>read\<close> that waits, between which any
    other steps may come (\<open>call_is_run\<close> shows that a call with its interrupts is such a run). The
    rules allow more than the hardware does, since a second half needs no first half before it. A
    handler that follows a null control-block pointer, or a call that never ends, has no
    successor. The invariant \<open>kernel_inv\<close> is kept by every step but one, the start of a program beside
    six, which the code does not exclude; \<open>overran\<close> says that such a step lies behind.
  \<^item> \<open>Load_Spec\<close>: \<open>execute\<close> of an executable file, through to the bytes of its image at the program's
    address and its entry point; and from it what \<open>halt\<close> of a first shell and a tick on an empty terminal
    do, with an executable file called \<open>shell\<close> and without.
  \<^item> \<open>User_Support\<close>, \<open>User_Programs\<close>, \<open>User_Grep\<close>, \<open>User_Syserr\<close>: the user programs of \<^verbatim>\<open>syscalls\<close> and
    the library they are linked with, over a \<open>platform\<close>: the trap, the memory of the program, the
    addresses of its literals. The library's loops are its own and are shown to compute what those
    of \<^verbatim>\<open>lib.c\<close> do.
  \<^item> \<open>User_Spec\<close>, \<open>User_Kernel\<close>, \<open>User_Sample\<close>, \<open>User_Run\<close>: what the programs need of the calls, as the locales
    \<open>user_io\<close>, \<open>file_io\<close>, \<open>dir_io\<close>, \<open>checked_io\<close>; their interpretations on the kernel, whose system call
    linkage is the trap; and what \<open>cat\<close>, \<open>ls\<close>, the counter and the error tests then put on the screen.
  \<^item> \<open>Fish_Blink\<close>, \<open>Fish_Program\<close>: \<^verbatim>\<open>fish/blink.S\<close> and \<^verbatim>\<open>fish/fish.c\<close>. \<open>Fish_Spec\<close>, \<open>Fish_Commands\<close>, \<open>Fish_Run\<close>:
    its linked list of blinking characters, bytes in memory, refines a list of records (\<open>fish_rep\<close>), and
    the tick and the commands refine operations on that list and on the cells of the screen.

  \<^bold>\<open>Loops.\<close> Loops with a bound in the code are recursive with a termination proof. Loops on a
  string or on the boot loader's lists are \<^theory_text>\<open>partial_function\<close>s into option: not ending is \<open>None\<close>,
  and the theorems show when they end. There is no fuel. The one loop without an exit, the passes of
  \<^verbatim>\<open>ece391pingpong.c\<close>, is modelled up to the end of its \<open>n\<close>-th pass.

  \<^bold>\<open>Programs on the kernel.\<close> Between two calls of a program no interrupt is taken; those that arrive during
  a call are the list of the wait loops. \<open>child\<close>, what runs from the entry of a program started by
  \<open>execute\<close> to the return of that call, is a parameter, and so are the addresses of a program's variables.

  \<^bold>\<open>Not modelled.\<close> The assembly stubs of \<^verbatim>\<open>boot.S\<close>, \<^verbatim>\<open>interrupt_asm.S\<close> and \<^verbatim>\<open>exception_asm.S\<close> only
  save registers around a modelled handler. Control blocks are records in a store of their own
  and the kernel stack is its two registers, so a user pointer into kernel memory, which the
  calls do not refuse, does not reach a control block in the model. Memory is what the kernel
  sees through its mapping: the accesses of \<open>file_sys_init\<close> and \<open>delete\<close> are checked against the page
  tables, the others are not, and what a program writes through the page that \<open>vidmap\<close> maps is not
  brought to the screen's addresses. \<^verbatim>\<open>tests.c\<close> is an interactive
  harness that \<open>entry\<close> does not call. \<^verbatim>\<open>ece391sigtest.c\<close> exercises signals, which the kernel does not
  deliver: \<open>set_handler\<close> and \<open>sigreturn\<close> return -1. The emulation layer of \<^verbatim>\<open>syscalls\<close> and \<^verbatim>\<open>fish\<close> is a
  replacement for the kernel on Linux.
\<close>

end
